(* ===== verification/Prelude.thy ===== *)
theory Prelude
  imports Main "HOL-Library.Word"
begin

text \<open>
  Shared material of the rs-io development: what the C++ standard library promises for
  the operations the sources use (\<open>std::string\<close> positions, searches and replacements;
  integer division and remainder), the exceptions the sources throw as values, and the
  generic list lemmas the component theories share.

  A position \<open>npos\<close> is \<^const>\<open>None\<close>; a position argument is a \<open>nat\<close>.
\<close>

section \<open>Exceptions as values\<close>

text \<open>
  A function that may throw returns a value of \<open>exn + 'a\<close>: \<^const>\<open>Inl\<close> of the exception or
  \<^const>\<open>Inr\<close> of the result. The constructors carry the fixed part of the message (for
  \<open>std::invalid_argument\<close>, \<open>std::length_error\<close>) or the error number (for
  \<open>std::system_error\<close> and \<open>IoError\<close>, which wraps it).
\<close>

datatype exn =
    Invalid_argument string
  | Length_error string
  | System_error int
  | Bad_function_call
  | Handler_exception nat

type_synonym 'a res = "exn + 'a"

definition res_bind :: "'a res \<Rightarrow> ('a \<Rightarrow> 'b res) \<Rightarrow> 'b res" where
  "res_bind r f = (case r of Inl e \<Rightarrow> Inl e | Inr x \<Rightarrow> f x)"

lemma res_bind_simps [simp]:
  "res_bind (Inl e) f = Inl e"
  "res_bind (Inr x) f = f x"
  by (simp_all add: res_bind_def)

lemma res_bind_Inr_iff: "res_bind r f = Inr y \<longleftrightarrow> (\<exists>x. r = Inr x \<and> f x = Inr y)"
  by (cases r) auto

section \<open>C++ integer division\<close>

text \<open>\<open>/\<close> and \<open>%\<close> truncate towards zero.\<close>

definition c_div :: "int \<Rightarrow> int \<Rightarrow> int" where
  "c_div a b = sgn a * sgn b * (\<bar>a\<bar> div \<bar>b\<bar>)"

definition c_mod :: "int \<Rightarrow> int \<Rightarrow> int" where
  "c_mod a b = a - b * c_div a b"

named_theorems c_arith

lemma c_div_nonneg [c_arith]: "0 \<le> a \<Longrightarrow> 0 < b \<Longrightarrow> c_div a b = a div b"
  by (cases "a = 0") (simp_all add: c_div_def)

lemma c_div_neg [c_arith]: "a < 0 \<Longrightarrow> 0 < b \<Longrightarrow> c_div a b = - ((- a) div b)"
  by (simp add: c_div_def)

lemma c_mod_nonneg [c_arith]: "0 \<le> a \<Longrightarrow> 0 < b \<Longrightarrow> c_mod a b = a mod b"
  by (simp add: c_mod_def c_div_nonneg minus_mult_div_eq_mod)

lemma c_mod_neg [c_arith]:
  assumes "a < 0" and "0 < b"
  shows "c_mod a b = - ((- a) mod b)"
proof -
  have "b * ((- a) div b) + (- a) mod b = - a" by (rule mult_div_mod_eq)
  then show ?thesis using assms by (simp only: c_mod_def c_div_neg)
qed

lemma c_div_mod: "b * c_div a b + c_mod a b = a"
  by (simp add: c_mod_def)

lemma c_div_mult [simp]:
  assumes "0 < b"
  shows "c_div (a * b) b = a"
proof (cases "0 \<le> a")
  case True
  with assms show ?thesis by (simp add: c_arith)
next
  case False
  with assms have "a * b < 0" by (simp add: mult_less_0_iff)
  moreover have "- (a * b) div b = - a" using assms
    by (metis less_irrefl minus_mult_left nonzero_mult_div_cancel_right)
  ultimately show ?thesis using assms by (simp only: c_div_neg minus_minus)
qed

lemma c_div_0 [simp]: "c_div 0 b = 0"
  by (simp add: c_div_def)

lemma c_div_mult2: "0 < b \<Longrightarrow> c_div (b * a) b = a"
  using c_div_mult [of b a] by (simp add: mult.commute)

lemma c_mod_bound: "0 < b \<Longrightarrow> \<bar>c_mod a b\<bar> < b"
  by (cases "0 \<le> a") (auto simp: c_arith)

lemma c_mod_sign: "0 < b \<Longrightarrow> 0 \<le> a \<Longrightarrow> 0 \<le> c_mod a b"
  by (simp add: c_arith)

lemma c_div_bound: "0 < b \<Longrightarrow> \<bar>c_div a b * b\<bar> \<le> \<bar>a\<bar>"
proof (cases "0 \<le> a")
  case True
  assume b: "0 < b"
  have "a div b * b \<le> a" using b by (simp add: minus_mod_eq_div_mult [symmetric])
  then show ?thesis using True b
    by (simp add: c_div_nonneg pos_imp_zdiv_nonneg_iff)
next
  case False
  assume b: "0 < b"
  have "(- a) div b * b \<le> - a" using b by (simp add: minus_mod_eq_div_mult [symmetric])
  moreover have "0 \<le> (- a) div b * b" using b False
    by (simp add: pos_imp_zdiv_nonneg_iff)
  ultimately show ?thesis using False b by (simp add: c_div_neg abs_mult)
qed

section \<open>Strings: \<open>std::string\<close> by positions\<close>

named_theorems cxx_str

definition substr :: "'a list \<Rightarrow> nat \<Rightarrow> nat \<Rightarrow> 'a list" where
  "substr s p n = take n (drop p s)"

definition str_replace :: "'a list \<Rightarrow> nat \<Rightarrow> nat \<Rightarrow> 'a list \<Rightarrow> 'a list" where
  "str_replace s p n r = take p s @ r @ drop (p + n) s"

definition str_erase :: "'a list \<Rightarrow> nat \<Rightarrow> nat \<Rightarrow> 'a list" where
  "str_erase s p n = take p s @ drop (p + n) s"

definition str_insert :: "'a list \<Rightarrow> nat \<Rightarrow> 'a list \<Rightarrow> 'a list" where
  "str_insert s p r = take p s @ r @ drop p s"

definition str_resize :: "'a list \<Rightarrow> nat \<Rightarrow> 'a \<Rightarrow> 'a list" where
  "str_resize s n c = take n s @ replicate (n - length s) c"

text \<open>Searching for a character class from a position on; \<open>find\<close>, \<open>find_first_of\<close> and
  \<open>find_first_not_of\<close> are instances. \<open>find_last\<close> scans from the end.\<close>

definition find_from :: "('a \<Rightarrow> bool) \<Rightarrow> 'a list \<Rightarrow> nat \<Rightarrow> nat option" where
  "find_from P s p =
     (let k = p + length (takeWhile (\<lambda>x. \<not> P x) (drop p s))
      in if k < length s then Some k else None)"

definition find_last :: "('a \<Rightarrow> bool) \<Rightarrow> 'a list \<Rightarrow> nat option" where
  "find_last P s =
     (let k = length (takeWhile (\<lambda>x. \<not> P x) (rev s))
      in if k < length s then Some (length s - 1 - k) else None)"

fun find_sub :: "'a list \<Rightarrow> 'a list \<Rightarrow> nat option" where
  "find_sub t s =
     (if take (length t) s = t then Some 0
      else case s of [] \<Rightarrow> None | _ # s' \<Rightarrow> map_option Suc (find_sub t s'))"

declare find_sub.simps [simp del]

definition find_str :: "'a list \<Rightarrow> 'a list \<Rightarrow> nat \<Rightarrow> nat option" where
  "find_str s t p = (if p \<le> length s then map_option ((+) p) (find_sub t (drop p s)) else None)"

text \<open>Segments: an operation at the border of a known prefix only touches the segment.\<close>

lemma str_replace_seg [cxx_str]:
  "p = length A \<Longrightarrow> n = length B \<Longrightarrow> str_replace (A @ B @ C) p n R = A @ R @ C"
  by (simp add: str_replace_def)

lemma str_erase_seg [cxx_str]:
  "p = length A \<Longrightarrow> n = length B \<Longrightarrow> str_erase (A @ B @ C) p n = A @ C"
  by (simp add: str_erase_def)

lemma str_insert_seg [cxx_str]:
  "p = length A \<Longrightarrow> str_insert (A @ C) p R = A @ R @ C"
  by (simp add: str_insert_def)

lemma substr_seg [cxx_str]:
  "p = length A \<Longrightarrow> n = length B \<Longrightarrow> substr (A @ B @ C) p n = B"
  by (simp add: substr_def)

lemma str_resize_shrink [cxx_str]: "n \<le> length s \<Longrightarrow> str_resize s n c = take n s"
  by (simp add: str_resize_def)

subsection \<open>Searches\<close>

lemma find_from_Some:
  "find_from P s p = Some k \<Longrightarrow>
     p \<le> k \<and> k < length s \<and> P (s ! k) \<and> (\<forall>i. p \<le> i \<and> i < k \<longrightarrow> \<not> P (s ! i))"
proof -
  let ?w = "takeWhile (\<lambda>x. \<not> P x) (drop p s)"
  assume "find_from P s p = Some k"
  then have k: "k = p + length ?w" and len: "p + length ?w < length s"
    by (auto simp: find_from_def Let_def split: if_splits)
  from len have "length ?w < length (drop p s)" by simp
  then have "\<not> \<not> P (drop p s ! length ?w)" by (rule nth_length_takeWhile)
  with len k have "P (s ! k)" by simp
  moreover have "\<not> P (s ! i)" if "p \<le> i" "i < k" for i
  proof -
    from that k have "i - p < length ?w" by simp
    then have "?w ! (i - p) \<in> set ?w" by (rule nth_mem)
    then have "\<not> P (?w ! (i - p))" by (auto dest: set_takeWhileD)
    moreover have "?w ! (i - p) = drop p s ! (i - p)"
      using \<open>i - p < length ?w\<close> by (rule takeWhile_nth)
    ultimately show ?thesis using that k len by simp
  qed
  ultimately show ?thesis using k len by auto
qed

lemma find_from_None:
  assumes "find_from P s p = None"
  shows "\<forall>i. p \<le> i \<and> i < length s \<longrightarrow> \<not> P (s ! i)"
proof -
  let ?w = "takeWhile (\<lambda>x. \<not> P x) (drop p s)"
  have "\<not> (p + length ?w < length s)"
    using assms by (auto simp: find_from_def Let_def split: if_splits)
  moreover have "length ?w \<le> length (drop p s)" by (rule length_takeWhile_le)
  ultimately have "length ?w = length (drop p s) \<or> length s \<le> p" by auto
  then have "?w = drop p s"
    by (metis append_self_conv drop_all length_0_conv length_append takeWhile.simps(1)
        takeWhile_dropWhile_id add_cancel_right_right)
  then have all: "\<forall>x \<in> set (drop p s). \<not> P x"
    by (metis set_takeWhileD)
  show ?thesis
  proof (intro allI impI)
    fix i assume "p \<le> i \<and> i < length s"
    then have "s ! i = drop p s ! (i - p)" and "i - p < length (drop p s)" by auto
    with all show "\<not> P (s ! i)" by (metis nth_mem)
  qed
qed

lemma find_from_0_append:
  "\<forall>x \<in> set A. \<not> P x \<Longrightarrow> P y \<Longrightarrow> find_from P (A @ y # B) 0 = Some (length A)"
  by (simp add: find_from_def takeWhile_append2)

lemma find_from_0_None [simp]: "\<forall>x \<in> set A. \<not> P x \<Longrightarrow> find_from P A 0 = None"
  by (simp add: find_from_def takeWhile_eq_all_conv [THEN iffD2])

lemma find_from_append:
  "find_from P (A @ s) (length A) = map_option ((+) (length A)) (find_from P s 0)"
  by (simp add: find_from_def Let_def)

lemma find_last_append:
  "P y \<Longrightarrow> \<forall>x \<in> set B. \<not> P x \<Longrightarrow> find_last P (A @ y # B) = Some (length A)"
proof -
  assume y: "P y" and B: "\<forall>x \<in> set B. \<not> P x"
  then have "takeWhile (\<lambda>x. \<not> P x) (rev B @ y # rev A) = rev B"
    by (subst takeWhile_append2) auto
  then show ?thesis by (simp add: find_last_def Let_def)
qed

lemma find_last_None_iff: "find_last P s = None \<longleftrightarrow> (\<forall>x \<in> set s. \<not> P x)"
proof
  assume "find_last P s = None"
  then have "\<not> length (takeWhile (\<lambda>x. \<not> P x) (rev s)) < length (rev s)"
    by (auto simp: find_last_def Let_def split: if_splits)
  moreover have "length (takeWhile (\<lambda>x. \<not> P x) (rev s)) + length (dropWhile (\<lambda>x. \<not> P x) (rev s))
      = length (rev s)"
    by (metis length_append takeWhile_dropWhile_id)
  ultimately have "length (dropWhile (\<lambda>x. \<not> P x) (rev s)) = 0" by linarith
  then have "dropWhile (\<lambda>x. \<not> P x) (rev s) = []" by (simp only: length_0_conv)
  then show "\<forall>x \<in> set s. \<not> P x" by (simp add: dropWhile_eq_Nil_conv)
next
  assume "\<forall>x \<in> set s. \<not> P x"
  then have "takeWhile (\<lambda>x. \<not> P x) (rev s) = rev s"
    by (subst takeWhile_eq_all_conv) simp
  then have "length (takeWhile (\<lambda>x. \<not> P x) (rev s)) = length s"
    by (metis length_rev)
  then show "find_last P s = None" by (simp only: find_last_def Let_def if_False less_irrefl)
qed

lemma find_last_SomeE:
  assumes "find_last P s = Some k"
  obtains A y B where "s = A @ y # B" "P y" "\<forall>x \<in> set B. \<not> P x" "k = length A"
proof -
  have "\<exists>x \<in> set s. P x" using assms find_last_None_iff [of P s] by auto
  then obtain A y B where s: "s = A @ y # B" "P y" "\<forall>x \<in> set B. \<not> P x"
    by (metis split_list_last_prop)
  with find_last_append [of P y B A] assms have "k = length A" by simp
  with s that show thesis by blast
qed

lemma find_sub_None_iff: "find_sub t s = None \<longleftrightarrow> (\<nexists>A B. s = A @ t @ B)"
proof (induction s)
  case Nil
  then show ?case by (subst find_sub.simps) auto
next
  case (Cons x s)
  show ?case
  proof (cases "take (length t) (x # s) = t")
    case True
    then have "x # s = [] @ t @ drop (length t) (x # s)"
      by (metis append_Nil append_take_drop_id)
    then have "\<exists>A B. x # s = A @ t @ B" by blast
    with True show ?thesis by (simp add: find_sub.simps [of t "x # s"])
  next
    case False
    then have "(\<exists>A B. x # s = A @ t @ B) = (\<exists>A B. s = A @ t @ B)"
      by (auto simp: Cons_eq_append_conv append_eq_Cons_conv)
    with False Cons.IH show ?thesis by (subst find_sub.simps) simp
  qed
qed

lemma find_sub_SomeE:
  assumes "find_sub t s = Some k"
  obtains A B where "s = A @ t @ B" "k = length A" "take (length A) s = A"
  using assms
proof (induction s arbitrary: k thesis)
  case Nil
  then show ?case by (simp add: find_sub.simps split: if_splits)
next
  case (Cons x s)
  show ?case
  proof (cases "take (length t) (x # s) = t")
    case True
    then have "k = 0" using Cons.prems(2) by (simp add: find_sub.simps [of t "x # s"])
    moreover have "x # s = [] @ t @ drop (length t) (x # s)"
      using True by (metis append_Nil append_take_drop_id)
    ultimately show ?thesis using Cons.prems(1) by fastforce
  next
    case False
    then obtain j where j: "find_sub t s = Some j" "k = Suc j"
      using Cons.prems(2) by (auto simp: find_sub.simps [of t "x # s"])
    from Cons.IH [OF _ j(1)] obtain A B where "s = A @ t @ B" "j = length A" by metis
    then have "x # s = (x # A) @ t @ B" "k = length (x # A)" using j(2) by simp_all
    then show ?thesis using Cons.prems(1) by fastforce
  qed
qed

section \<open>Bytes and characters\<close>

text \<open>\<open>uint8_t(c)\<close> and \<open>char(b)\<close>.\<close>

definition byte_of_char :: "char \<Rightarrow> 8 word" where
  "byte_of_char c = of_char c"

definition char_of_byte :: "8 word \<Rightarrow> char" where
  "char_of_byte b = char_of (unat b)"

lemma char_byte [simp]: "char_of_byte (byte_of_char c) = c"
proof -
  have "(of_char c :: nat) mod 256 = of_char c" by (rule of_char_mod_256)
  then have "(of_char c :: nat) < 256" using mod_less_divisor [of 256 "of_char c :: nat"] by linarith
  then have "(of_char c :: nat) < 2 ^ LENGTH(8)" by simp
  moreover have "(of_char c :: 8 word) = of_nat (of_char c)" by (rule of_nat_of_char [symmetric])
  ultimately have "unat (of_char c :: 8 word) = of_char c"
    by (simp only: unat_of_nat mod_less)
  then show ?thesis by (simp add: char_of_byte_def byte_of_char_def)
qed

section \<open>Comparing strings\<close>

text \<open>\<open>operator<\<close> of \<open>std::string\<close>: bytes are compared as unsigned numbers.\<close>

fun string_less :: "string \<Rightarrow> string \<Rightarrow> bool" where
  "string_less xs [] = False"
| "string_less [] (y # ys) = True"
| "string_less (x # xs) (y # ys) =
     ((of_char x :: nat) < of_char y \<or> (of_char x :: nat) = of_char y \<and> string_less xs ys)"

lemma string_less_irrefl [simp]: "\<not> string_less s s"
  by (induction s) auto

lemma string_less_trans: "string_less s t \<Longrightarrow> string_less t u \<Longrightarrow> string_less s u"
proof (induction s t arbitrary: u rule: string_less.induct)
  case (2 y ys)
  then show ?case by (cases u) auto
next
  case (3 x xs y ys)
  then show ?case by (cases u) auto
qed simp

lemma string_less_total: "s = t \<or> string_less s t \<or> string_less t s"
proof (induction s t rule: string_less.induct)
  case (1 xs)
  then show ?case by (cases xs) auto
next
  case (3 x xs y ys)
  then show ?case by (auto dest: injD [OF inj_of_char])
qed simp

end
