(* ===== verification/Time_Conv.thy ===== *)
theory Time_Conv
  imports Prelude "HOL-Library.Word"
begin

unbundle bit_operations_syntax

text \<open>
  \<open>time.hpp\<close> and \<open>time.cpp\<close> (and the private copy of \<open>duration_to_timespec\<close> in
  \<open>signal.cpp\<close>): conversions between \<open>std::chrono\<close> values and the system structures
  \<open>timespec\<close>, \<open>timeval\<close> and \<open>FILETIME\<close>.

  A \<open>std::chrono::duration\<close> is its count together with its tick, given in nanoseconds
  (a positive \<open>int\<close>: 1 for nanoseconds, 100 for the Windows clock, 60000000000 for
  minutes). Counts are mathematical integers: the documentation leaves the behaviour
  undefined where a value is out of range for either type. The \<open>FILETIME\<close> functions use
  unsigned 64-bit arithmetic, which is modelled at its width.
\<close>

section \<open>Structures\<close>

record timespec =
  tv_sec :: int
  tv_nsec :: int

record timeval =
  tval_sec :: int
  tval_usec :: int

record filetime =
  dwLowDateTime :: "32 word"
  dwHighDateTime :: "32 word"

text \<open>\<open>duration_cast\<close> between two ticks: multiply, then divide truncating towards zero.\<close>

definition duration_cast :: "int \<Rightarrow> int \<Rightarrow> int \<Rightarrow> int" where
  "duration_cast from_tick to_tick n = c_div (n * from_tick) to_tick"

abbreviation ns_per_s :: int where "ns_per_s \<equiv> 1000000000"
abbreviation us_per_s :: int where "us_per_s \<equiv> 1000000"

section \<open>POSIX conversions\<close>

text \<open>Between two clocks: the second clock is read between two readings of the first one, whose
  middle stands for the same moment. The readings and \<open>t\<close> are in nanoseconds; \<open>tick\<close> is the tick
  of the result. On one clock (\<open>convert_same_clock\<close>) only the tick changes.\<close>

definition convert_time_point :: "int \<Rightarrow> int \<Rightarrow> int \<Rightarrow> int \<Rightarrow> int \<Rightarrow> int" where
  "convert_time_point tick now1 now2 now3 t =
     (let now1' = now1 + c_div (now3 - now1) 2 in duration_cast 1 tick (now2 + (t - now1')))"

definition convert_same_clock :: "int \<Rightarrow> int \<Rightarrow> int \<Rightarrow> int" where
  "convert_same_clock tick1 tick2 t = duration_cast tick1 tick2 t"

definition duration_to_timespec :: "int \<Rightarrow> int \<Rightarrow> timespec" where
  "duration_to_timespec tick d =
     (let ns = duration_cast tick 1 d
      in \<lparr>tv_sec = c_div ns ns_per_s, tv_nsec = c_mod ns ns_per_s\<rparr>)"

definition make_timeval :: "int \<Rightarrow> timeval" where
  "make_timeval us = \<lparr>tval_sec = c_div us us_per_s, tval_usec = c_mod us us_per_s\<rparr>"

definition duration_to_timeval :: "int \<Rightarrow> int \<Rightarrow> timeval" where
  "duration_to_timeval tick d = make_timeval (duration_cast tick 1000 d)"

definition timespec_to_duration :: "int \<Rightarrow> timespec \<Rightarrow> int" where
  "timespec_to_duration tick ts =
     duration_cast ns_per_s tick (tv_sec ts) + duration_cast 1 tick (tv_nsec ts)"

definition read_timeval :: "timeval \<Rightarrow> int \<times> int" where
  "read_timeval tv = (tval_sec tv, tval_usec tv)"

definition timeval_to_duration :: "int \<Rightarrow> timeval \<Rightarrow> int" where
  "timeval_to_duration tick tv =
     (let (s, us) = read_timeval tv
      in duration_cast ns_per_s tick s + duration_cast 1000 tick us)"

text \<open>A system clock time point is the count of clock ticks since the Unix epoch.\<close>

definition timepoint_to_timespec :: "int \<Rightarrow> int \<Rightarrow> timespec" where
  "timepoint_to_timespec tick tp = duration_to_timespec tick (tp - 0)"

definition timepoint_to_timeval :: "int \<Rightarrow> int \<Rightarrow> timeval" where
  "timepoint_to_timeval tick tp = duration_to_timeval tick (tp - 0)"

definition timespec_to_timepoint :: "int \<Rightarrow> timespec \<Rightarrow> int" where
  "timespec_to_timepoint tick ts = 0 + timespec_to_duration tick ts"

definition timeval_to_timepoint :: "int \<Rightarrow> timeval \<Rightarrow> int" where
  "timeval_to_timepoint tick tv = 0 + timeval_to_duration tick tv"

section \<open>Windows file times\<close>

text \<open>\<open>from_time_t\<close>: seconds since the epoch as clock ticks.\<close>

definition from_time_t :: "int \<Rightarrow> int \<Rightarrow> int" where
  "from_time_t tick sec = duration_cast ns_per_s tick sec"

abbreviation windows_epoch :: int where "windows_epoch \<equiv> 11644473600"
abbreviation filetime_freq :: int where "filetime_freq \<equiv> 10000000"

definition filetime_to_timepoint_helper :: "int \<Rightarrow> filetime \<Rightarrow> int" where
  "filetime_to_timepoint_helper tick ft =
     (let ticks = sint (push_bit 32 (ucast (dwHighDateTime ft)) + ucast (dwLowDateTime ft) :: 64 word);
          sec = c_div ticks filetime_freq - windows_epoch;
          nsec = 100 * c_mod ticks filetime_freq
      in from_time_t tick sec + duration_cast 1 tick nsec)"

definition timepoint_to_filetime_helper :: "int \<Rightarrow> int \<Rightarrow> filetime" where
  "timepoint_to_filetime_helper tick tp =
     (let unix_time = tp - from_time_t tick 0;
          nsec = word_of_int (duration_cast tick 1 unix_time) :: 64 word;
          ticks = nsec div 100 + word_of_int filetime_freq * word_of_int windows_epoch
      in \<lparr>dwLowDateTime = ucast (ticks AND 0xffffffff), dwHighDateTime = ucast (drop_bit 32 ticks)\<rparr>)"

section \<open>Exactness of the POSIX conversions\<close>

lemma c_div_1 [simp]: "c_div n 1 = n"
  using c_div_mult [of 1 n] by simp

lemma duration_cast_up [simp]: "duration_cast t 1 d = d * t"
  by (simp add: duration_cast_def)

lemma duration_cast_multiple: "0 < b \<Longrightarrow> duration_cast (a * b) b n = n * a"
  using c_div_mult [of b "n * a"] by (simp add: duration_cast_def mult.assoc)

lemma duration_cast_divisor: "0 < b \<Longrightarrow> b dvd n * a \<Longrightarrow> duration_cast a b n * b = n * a"
  by (auto simp: duration_cast_def dvd_def c_div_mult2)

text \<open>Splitting a nanosecond count at a second and adding the two parts in ticks is exact.\<close>

lemma split_at_second:
  assumes tick: "0 < tick" and units: "tick dvd ns_per_s \<or> ns_per_s dvd tick"
    and n: "n * u = d * tick" and u: "0 < u" "v * u = ns_per_s"
  shows "duration_cast ns_per_s tick (c_div n v) + duration_cast u tick (c_mod n v) = d"
proof (rule mult_right_cancel [THEN iffD1])
  let ?s = "c_div n v" and ?r = "c_mod n v"
  have v: "0 < v" using u by (metis zero_less_mult_pos2 zero_less_numeral)
  have nv: "v * ?s + ?r = n" by (rule c_div_mod)
  have "?s * (v * u) + ?r * u = (v * ?s + ?r) * u" by (simp add: algebra_simps)
  then have total: "?s * ns_per_s + ?r * u = d * tick" by (simp only: nv n u(2))
  have dv: "tick dvd ?s * ns_per_s" "tick dvd ?r * u"
  proof -
    show "tick dvd ?s * ns_per_s" using units
    proof
      assume "ns_per_s dvd tick"
      then obtain m where m: "tick = ns_per_s * m" by (rule dvdE)
      then have "n * u = (d * m * v) * u" using n u(2)
        by (simp add: mult.assoc mult.left_commute [of _ ns_per_s])
      then have "n = d * m * v" using u(1) by simp
      then have "?s = d * m" using v by simp
      then show ?thesis using m by simp
    qed simp
    then show "tick dvd ?r * u" using total
      by (metis dvd_add_right_iff dvd_triv_right)
  qed
  show "(duration_cast ns_per_s tick ?s + duration_cast u tick ?r) * tick = d * tick"
    using dv tick total by (simp only: distrib_right duration_cast_divisor)
  show "tick \<noteq> 0" using tick by simp
qed

text \<open>
  A duration, of any clock whose tick divides a second or is a whole number of
  seconds, survives the trip through \<open>timespec\<close>, negative durations included.
\<close>

theorem timespec_roundtrip:
  assumes "0 < tick" and "tick dvd ns_per_s \<or> ns_per_s dvd tick"
  shows "timespec_to_timepoint tick (timepoint_to_timespec tick d) = d"
  using split_at_second [OF assms, of "d * tick" 1 d ns_per_s]
  by (simp add: timespec_to_timepoint_def timepoint_to_timespec_def timespec_to_duration_def
      duration_to_timespec_def Let_def)

theorem timespec_roundtrip_witness:
  "timespec_to_timepoint 100 (timepoint_to_timespec 100 (- 12345678901)) = - 12345678901"
  by (rule timespec_roundtrip) simp_all

lemma timeval_roundtrip:
  assumes "0 < tick" and "tick dvd ns_per_s \<or> ns_per_s dvd tick" and "1000 dvd tick"
  shows "timeval_to_timepoint tick (timepoint_to_timeval tick d) = d"
proof -
  have "1000 dvd d * tick" using assms(3) by simp
  then have "duration_cast tick 1000 d * 1000 = d * tick"
    by (intro duration_cast_divisor) simp_all
  from split_at_second [OF assms(1,2) this, of us_per_s] show ?thesis
    by (simp add: timeval_to_timepoint_def timepoint_to_timeval_def timeval_to_duration_def
        duration_to_timeval_def make_timeval_def read_timeval_def)
qed

text \<open>The fields of the structures: the value is kept, the fraction is under a second, and its
  sign is that of the duration. POSIX wants a fraction in [0, 1 s), so a negative duration
  that is no whole number of seconds gives a structure the system calls reject.\<close>

definition timespec_valid :: "timespec \<Rightarrow> bool" where
  "timespec_valid ts \<longleftrightarrow> 0 \<le> tv_nsec ts \<and> tv_nsec ts < ns_per_s"

text \<open>
  \<open>duration_to_timespec\<close> keeps the value exactly and keeps the fraction below one second
  in size; the structure has a fraction the system accepts exactly when the duration is not
  negative or is a whole number of seconds.
\<close>

theorem duration_to_timespec_fields:
  "tv_sec (duration_to_timespec tick d) * ns_per_s + tv_nsec (duration_to_timespec tick d) = d * tick
   \<and> \<bar>tv_nsec (duration_to_timespec tick d)\<bar> < ns_per_s
   \<and> (timespec_valid (duration_to_timespec tick d) = (0 \<le> d * tick \<or> d * tick mod ns_per_s = 0))"
proof -
  let ?ns = "d * tick"
  have "c_div ?ns ns_per_s * ns_per_s + c_mod ?ns ns_per_s = ?ns"
    using c_div_mod [of ns_per_s ?ns] by (simp only: mult.commute)
  moreover have "\<bar>c_mod ?ns ns_per_s\<bar> < ns_per_s" by (rule c_mod_bound) simp
  moreover have "(0 \<le> c_mod ?ns ns_per_s) = (0 \<le> ?ns \<or> ?ns mod ns_per_s = 0)"
  proof (cases "0 \<le> ?ns")
    case True
    then show ?thesis by (simp add: c_mod_nonneg)
  next
    case False
    have "0 \<le> (- ?ns) mod ns_per_s" by simp
    moreover have "((- ?ns) mod ns_per_s = 0) = (?ns mod ns_per_s = 0)"
      by (simp only: mod_eq_0_iff_dvd dvd_minus_iff)
    ultimately show ?thesis using False by (auto simp: c_mod_neg)
  qed
  ultimately show ?thesis
    by (auto simp: duration_to_timespec_def timespec_valid_def Let_def abs_less_iff)
qed

section \<open>Windows file times\<close>

lemma low_half: "(t :: 64 word) AND 0xffffffff = take_bit 32 t"
  by (simp add: take_bit_eq_mask mask_eq_exp_minus_1)

lemma join_halves:
  fixes t :: "64 word"
  shows "push_bit 32 (ucast (ucast (drop_bit 32 t) :: 32 word)) + ucast (ucast (t AND 0xffffffff) :: 32 word) = t"
    (is "?h + ?l = t")
proof -
  have "?h AND ?l = 0"
    by (rule bit_word_eqI) (auto simp: low_half bit_simps)
  then have "?h + ?l = (?h OR ?l)" by (rule disjunctive_add_eq_or)
  also have "\<dots> = t"
  proof (rule bit_word_eqI)
    fix n assume "n < LENGTH(64)"
    then show "bit (?h OR ?l) n = bit t n"
      by (cases "n < 32") (auto simp: low_half bit_simps)
  qed
  finally show ?thesis .
qed

abbreviation epoch_ticks :: int where "epoch_ticks \<equiv> filetime_freq * windows_epoch"

text \<open>Both ways: the 100 ns counter between the two structures, for a counter in signed range.\<close>

lemma filetime_of_ticks:
  fixes w :: "64 word"
  assumes "0 < tick" and "uint w < 2 ^ 63"
  shows "filetime_to_timepoint_helper tick
      \<lparr>dwLowDateTime = ucast (w AND 0xffffffff), dwHighDateTime = ucast (drop_bit 32 w)\<rparr> =
    duration_cast ns_per_s tick (uint w div filetime_freq - windows_epoch)
      + duration_cast 1 tick (100 * (uint w mod filetime_freq))"
proof -
  have "signed_take_bit 63 (uint w) = uint w"
    using assms(2) by (intro signed_take_bit_int_eq_self) (simp_all add: order_trans [of _ 0])
  then have "sint w = uint w" by (simp add: sint_uint)
  then show ?thesis
    by (simp only: filetime_to_timepoint_helper_def Let_def filetime.simps join_halves from_time_t_def)
      (simp add: c_arith)
qed

lemma filetime_ticks_exact:
  assumes "0 \<le> T"
  shows "duration_cast ns_per_s 100 (T div filetime_freq - windows_epoch)
      + duration_cast 1 100 (100 * (T mod filetime_freq)) = T - epoch_ticks"
proof -
  have "duration_cast ns_per_s 100 (T div filetime_freq - windows_epoch)
      = (T div filetime_freq - windows_epoch) * filetime_freq"
    using duration_cast_multiple [of 100 filetime_freq] by simp
  moreover have "duration_cast 1 100 (100 * (T mod filetime_freq)) = T mod filetime_freq"
    by (simp add: duration_cast_def c_div_mult2)
  moreover have "T div filetime_freq * filetime_freq + T mod filetime_freq = T" by simp
  ultimately show ?thesis by (simp add: algebra_simps)
qed

lemma filetime_word_ticks:
  assumes "- (2 ^ 63) \<le> n" "n < 2 ^ 63"
  shows "uint ((word_of_int n :: 64 word) div 100 + word_of_int filetime_freq * word_of_int windows_epoch)
      = (if 0 \<le> n then n else n + 2 ^ 64) div 100 + epoch_ticks"
proof -
  have u: "uint (word_of_int n :: 64 word) = (if 0 \<le> n then n else n + 2 ^ 64)"
  proof (cases "0 \<le> n")
    case True
    then show ?thesis using assms by (simp add: uint_word_of_int_eq take_bit_int_eq_self)
  next
    case False
    have "n mod 2 ^ 64 = (n + 2 ^ 64) mod 2 ^ 64" by simp
    also have "\<dots> = n + 2 ^ 64" using False assms by (intro mod_pos_pos_trivial) simp_all
    finally show ?thesis using False by (simp add: uint_word_of_int_eq take_bit_eq_mod)
  qed
  have "uint ((word_of_int n :: 64 word) div 100) = uint (word_of_int n :: 64 word) div 100"
    by (simp add: uint_div_distrib)
  moreover have "uint (word_of_int n :: 64 word) < 2 ^ 64" 
    using uint_lt2p [of "word_of_int n :: 64 word"] by simp
  moreover have "uint (word_of_int filetime_freq * word_of_int windows_epoch :: 64 word) = epoch_ticks"
    by simp
  moreover have "0 \<le> uint (word_of_int n :: 64 word) div 100"
    by (simp add: pos_imp_zdiv_nonneg_iff)
  ultimately show ?thesis
    unfolding u [symmetric] uint_word_ariths(1) by (intro trans [OF mod_pos_pos_trivial]) simp_all
qed

lemma timepoint_filetime_trip:
  assumes "- (2 ^ 63) \<le> tp * 100" "tp * 100 < 2 ^ 63"
    and "(if 0 \<le> tp then tp else (tp * 100 + 2 ^ 64) div 100) + epoch_ticks < 2 ^ 63"
  shows "filetime_to_timepoint_helper 100 (timepoint_to_filetime_helper 100 tp)
     = (if 0 \<le> tp then tp else (tp * 100 + 2 ^ 64) div 100)"
proof -
  let ?w = "(word_of_int (tp * 100) :: 64 word) div 100 + word_of_int filetime_freq * word_of_int windows_epoch"
  let ?q = "if 0 \<le> tp then tp else (tp * 100 + 2 ^ 64) div 100"
  have w: "uint ?w = ?q + epoch_ticks"
    using filetime_word_ticks [OF assms(1,2)] by (auto simp: zero_le_mult_iff)
  have "timepoint_to_filetime_helper 100 tp
      = \<lparr>dwLowDateTime = ucast (?w AND 0xffffffff), dwHighDateTime = ucast (drop_bit 32 ?w)\<rparr>"
    by (simp only: timepoint_to_filetime_helper_def Let_def from_time_t_def duration_cast_up) 
      (simp add: duration_cast_def)
  moreover have "uint ?w < 2 ^ 63" unfolding w by (rule assms(3))
  ultimately have "filetime_to_timepoint_helper 100 (timepoint_to_filetime_helper 100 tp) = uint ?w - epoch_ticks"
    by (simp only: filetime_of_ticks filetime_ticks_exact uint_ge_0
        zero_less_numeral)
  then show ?thesis unfolding w by (simp only: add_diff_cancel_right')
qed

text \<open>
  On the Windows clock (100 ns ticks) a time point from 1970 on survives the trip through
  \<open>FILETIME\<close> exactly, as long as the file time fits a signed 64-bit counter.
\<close>

theorem filetime_roundtrip:
  assumes "0 \<le> tp" and "tp * 100 < 2 ^ 63"
  shows "filetime_to_timepoint_helper 100 (timepoint_to_filetime_helper 100 tp) = tp"
  using timepoint_filetime_trip [of tp] assms by simp

theorem filetime_roundtrip_witness:
  "filetime_to_timepoint_helper 100 (timepoint_to_filetime_helper 100 15000000000000000) = 15000000000000000"
  by (rule filetime_roundtrip) simp_all

text \<open>
  Before 1970 the trip is wrong: \<open>timepoint_to_filetime\<close> divides the nanosecond count
  as an unsigned number, so every time point of the 292 years before 1970 comes back
  exactly 184467440737095516 ticks (about 584 years) late.
\<close>

theorem filetime_before_epoch:
  assumes "tp < 0" and "- (2 ^ 63) \<le> tp * 100"
  shows "filetime_to_timepoint_helper 100 (timepoint_to_filetime_helper 100 tp) = tp + 184467440737095516"
proof -
  have "(tp * 100 + 2 ^ 64) div 100 = tp + 184467440737095516" by simp
  then show ?thesis using timepoint_filetime_trip [of tp] assms by simp
qed

theorem filetime_before_epoch_witness:
  "filetime_to_timepoint_helper 100 (timepoint_to_filetime_helper 100 (- 1)) = 184467440737095515"
  using filetime_before_epoch [of "- 1"] by simp

end
