(* ===== verification/Resource.thy ===== *)
theory Resource
  imports Prelude
begin

text \<open>
  \<open>utility.hpp\<close>: the owning handle \<open>Resource<T, Del, Null>\<close> behind \<open>Cstdio\<close>, \<open>Fdio\<close> and
  \<open>Winio\<close>. An object holds one value; a destructor, \<open>reset\<close> or move assignment hands the
  value it drops to the deleter unless it is \<open>Null\<close>.

  The functions below are the member functions on one object, with the list of values
  handed to the deleter as a second result. The step relation then lets any number of
  objects, named by \<open>nat\<close>, run these functions in any order, and keeps a log of the
  handles deleted and of those released to the caller.
\<close>

section \<open>Member functions\<close>

record 'a resource =
  res_value :: 'a

definition res_default :: "'a \<Rightarrow> 'a resource" where
  "res_default null = \<lparr>res_value = null\<rparr>"

definition res_wrap :: "'a \<Rightarrow> 'a resource" where
  "res_wrap t = \<lparr>res_value = t\<rparr>"

definition res_is_open :: "'a \<Rightarrow> 'a resource \<Rightarrow> bool" where
  "res_is_open null r = (res_value r \<noteq> null)"

definition res_reset :: "'a \<Rightarrow> 'a resource \<Rightarrow> 'a resource \<times> 'a list" where
  "res_reset null r =
     (if res_value r \<noteq> null then (r\<lparr>res_value := null\<rparr>, [res_value r]) else (r, []))"

definition res_release :: "'a \<Rightarrow> 'a resource \<Rightarrow> 'a resource \<times> 'a" where
  "res_release null r = (r\<lparr>res_value := null\<rparr>, res_value r)"

definition res_destroy :: "'a \<Rightarrow> 'a resource \<Rightarrow> 'a list" where
  "res_destroy null r = snd (res_reset null r)"

text \<open>Move construction: the new object and what is left of the source.\<close>

definition res_move :: "'a \<Rightarrow> 'a resource \<Rightarrow> 'a resource \<times> 'a resource" where
  "res_move null r = (\<lparr>res_value = res_value r\<rparr>, r\<lparr>res_value := null\<rparr>)"

text \<open>Move assignment of \<open>r\<close> to another object \<open>x\<close> (\<open>&r != this\<close>).\<close>

definition res_assign :: "'a \<Rightarrow> 'a resource \<Rightarrow> 'a resource \<Rightarrow> ('a resource \<times> 'a resource) \<times> 'a list" where
  "res_assign null x r =
     (let (x', dels) = res_reset null x
      in ((x'\<lparr>res_value := res_value r\<rparr>, r\<lparr>res_value := null\<rparr>), dels))"

definition res_swap :: "'a resource \<Rightarrow> 'a resource \<Rightarrow> 'a resource \<times> 'a resource" where
  "res_swap a b = (let t = res_value a in (a\<lparr>res_value := res_value b\<rparr>, b\<lparr>res_value := t\<rparr>))"

section \<open>Any number of objects\<close>

text \<open>
  \<open>objs\<close> maps the live objects to their state. A handle comes into the system once, in the
  constructor from a value (\<open>given\<close> collects them: the caller wraps each handle once).
\<close>

record 'a world =
  objs :: "nat \<Rightarrow> 'a resource option"
  given :: "'a list"
  deleted :: "'a list"
  released :: "'a list"

definition world0 :: "'a world" where
  "world0 = \<lparr>objs = (\<lambda>_. None), given = [], deleted = [], released = []\<rparr>"

inductive res_step :: "'a \<Rightarrow> 'a world \<Rightarrow> 'a world \<Rightarrow> bool" for null where
  construct: "objs w i = None \<Longrightarrow>
     res_step null w (w\<lparr>objs := (objs w)(i \<mapsto> res_default null)\<rparr>)"
| wrap: "objs w i = None \<Longrightarrow> h \<noteq> null \<Longrightarrow> h \<notin> set (given w) \<Longrightarrow>
     res_step null w (w\<lparr>objs := (objs w)(i \<mapsto> res_wrap h), given := given w @ [h]\<rparr>)"
| reset: "objs w i = Some r \<Longrightarrow> res_reset null r = (r', dels) \<Longrightarrow>
     res_step null w (w\<lparr>objs := (objs w)(i \<mapsto> r'), deleted := deleted w @ dels\<rparr>)"
| release: "objs w i = Some r \<Longrightarrow> res_release null r = (r', h) \<Longrightarrow>
     res_step null w (w\<lparr>objs := (objs w)(i \<mapsto> r'),
       released := released w @ (if h = null then [] else [h])\<rparr>)"
| destroy: "objs w i = Some r \<Longrightarrow>
     res_step null w (w\<lparr>objs := (objs w)(i := None), deleted := deleted w @ res_destroy null r\<rparr>)"
| move: "objs w i = Some r \<Longrightarrow> objs w j = None \<Longrightarrow> res_move null r = (x, r') \<Longrightarrow>
     res_step null w (w\<lparr>objs := (objs w)(i \<mapsto> r', j \<mapsto> x)\<rparr>)"
| assign: "objs w i = Some r \<Longrightarrow> objs w j = Some x \<Longrightarrow> i \<noteq> j \<Longrightarrow>
     res_assign null x r = ((x', r'), dels) \<Longrightarrow>
     res_step null w (w\<lparr>objs := (objs w)(i \<mapsto> r', j \<mapsto> x'), deleted := deleted w @ dels\<rparr>)"
| self_assign: "objs w i = Some r \<Longrightarrow> res_step null w w"
| swap: "objs w i = Some a \<Longrightarrow> objs w j = Some b \<Longrightarrow> i \<noteq> j \<Longrightarrow> res_swap a b = (a', b') \<Longrightarrow>
     res_step null w (w\<lparr>objs := (objs w)(i \<mapsto> a', j \<mapsto> b')\<rparr>)"

inductive res_reachable :: "'a \<Rightarrow> 'a world \<Rightarrow> bool" for null where
  start: "res_reachable null world0"
| step: "res_reachable null w \<Longrightarrow> res_step null w w' \<Longrightarrow> res_reachable null w'"

section \<open>Each handle has one owner\<close>

text \<open>
  The abstract view of the objects: a partial map \<open>own\<close> from objects to the handle they hold.
  A state is sound when the map is injective and its handles, together with the pairwise
  different logged ones, are exactly the handles given.
\<close>

definition handle_of :: "'a \<Rightarrow> 'a resource \<Rightarrow> 'a option" where
  "handle_of null r = (if res_value r = null then None else Some (res_value r))"

definition own :: "'a \<Rightarrow> 'a world \<Rightarrow> nat \<Rightarrow> 'a option" where
  "own null w i = Option.bind (objs w i) (handle_of null)"

definition sound :: "(nat \<Rightarrow> 'a option) \<Rightarrow> 'a list \<Rightarrow> 'a list \<Rightarrow> bool" where
  "sound m g L \<longleftrightarrow> distinct L \<and> (\<forall>i j h. m i = Some h \<longrightarrow> m j = Some h \<longrightarrow> i = j)
     \<and> ran m \<inter> set L = {} \<and> ran m \<union> set L = set g"

lemma sound_gain:
  assumes s: "sound m g L" and i: "m i = None" and h: "h \<notin> set g"
  shows "sound (m(i \<mapsto> h)) (g @ [h]) L"
proof -
  have r: "ran (m(i \<mapsto> h)) = insert h (ran m)" using i by (rule ran_map_upd)
  have "m k \<noteq> Some h" for k using s h unfolding sound_def by (blast intro: ranI)
  moreover have "h \<notin> set L" using s h unfolding sound_def by blast
  ultimately show ?thesis using s unfolding sound_def r by (auto split: if_splits)
qed

lemma ran_drop:
  assumes "m i = Some h" and "\<forall>j. m j = Some h \<longrightarrow> i = j"
  shows "ran (m(i := None)) = ran m - {h}"
proof (intro set_eqI iffI)
  fix b assume "b \<in> ran (m(i := None))"
  then obtain a where "a \<noteq> i" "m a = Some b" by (auto simp: ran_def split: if_splits)
  moreover have "b \<noteq> h" using \<open>a \<noteq> i\<close> \<open>m a = Some b\<close> assms(2) by blast
  ultimately show "b \<in> ran m - {h}" by (blast intro: ranI)
next
  fix b assume "b \<in> ran m - {h}"
  then obtain a where "m a = Some b" "b \<noteq> h" by (auto simp: ran_def)
  moreover from this assms(1) have "a \<noteq> i" by auto
  ultimately have "(m(i := None)) a = Some b" by simp
  then show "b \<in> ran (m(i := None))" by (rule ranI)
qed

lemma sound_drop:
  assumes s: "sound m g L" and i: "m i = Some h"
    and L': "distinct L' = distinct (h # L)" "set L' = insert h (set L)"
  shows "sound (m(i := None)) g L'"
proof -
  have r: "ran (m(i := None)) = ran m - {h}"
    using s i by (intro ran_drop) (auto simp: sound_def)
  have "h \<in> ran m" using i by (auto simp: ran_def)
  then show ?thesis using s L' unfolding sound_def r by (auto split: if_splits)
qed

lemma sound_drop_if:
  assumes "sound m g (D @ R)" and "dels = (case m i of None \<Rightarrow> [] | Some h \<Rightarrow> [h])"
  shows "sound (m(i := None)) g ((D @ dels) @ R)" and "sound (m(i := None)) g (D @ R @ dels)"
proof -
  have "sound (m(i := None)) g ((D @ dels) @ R) \<and> sound (m(i := None)) g (D @ R @ dels)"
  proof (cases "m i")
    case None
    then have "m(i := None) = m" by auto
    with assms None show ?thesis by simp
  next
    case (Some h)
    with assms show ?thesis by (auto intro!: sound_drop [OF assms(1) Some])
  qed
  then show "sound (m(i := None)) g ((D @ dels) @ R)" "sound (m(i := None)) g (D @ R @ dels)"
    by auto
qed

lemma sound_exchange:
  assumes "sound m g L"
  shows "sound (m(i := m j, j := m i)) g L"
proof -
  have "ran (m(i := m j, j := m i)) = ran m"
    unfolding ran_def by (auto split: if_splits) metis
  then show ?thesis using assms unfolding sound_def by (auto split: if_splits)
qed

lemma own_put [simp]:
  "own null (w\<lparr>objs := (objs w)(i \<mapsto> r)\<rparr>) = (own null w)(i := handle_of null r)"
  by (auto simp: own_def)

lemma own_put2 [simp]:
  "own null (w\<lparr>objs := (objs w)(i \<mapsto> r, j \<mapsto> x)\<rparr>) = (own null w)(i := handle_of null r, j := handle_of null x)"
  by (auto simp: own_def)

lemma own_del [simp]: "own null (w\<lparr>objs := (objs w)(i := None)\<rparr>) = (own null w)(i := None)"
  by (auto simp: own_def)

lemma own_frame [simp]:
  "own null (w\<lparr>deleted := D\<rparr>) = own null w" "own null (w\<lparr>released := R\<rparr>) = own null w"
  "own null (w\<lparr>given := g\<rparr>) = own null w"
  by (auto simp: own_def)

lemma own_None [simp]: "objs w i = None \<Longrightarrow> own null w i = None"
  by (simp add: own_def)

lemma own_Some: "objs w i = Some r \<Longrightarrow> own null w i = handle_of null r"
  by (simp add: own_def)

definition one_owner :: "'a \<Rightarrow> 'a world \<Rightarrow> bool" where
  "one_owner null w = sound (own null w) (given w) (deleted w @ released w)"

lemma res_reset_eq:
  "res_reset null r = (\<lparr>res_value = null\<rparr>, case handle_of null r of None \<Rightarrow> [] | Some h \<Rightarrow> [h])"
  by (cases r) (simp add: res_reset_def handle_of_def)

lemma handle_of_simps [simp]:
  "handle_of null \<lparr>res_value = null\<rparr> = None" "handle_of null (res_default null) = None"
  "h \<noteq> null \<Longrightarrow> handle_of null (res_wrap h) = Some h"
  by (simp_all add: handle_of_def res_default_def res_wrap_def)

lemma one_owner_start: "one_owner null world0"
  by (simp add: one_owner_def sound_def world0_def own_def ran_def)

lemma one_owner_assign:
  assumes "one_owner null w" "objs w i = Some r" "objs w j = Some x" "i \<noteq> j"
    and "res_assign null x r = ((x', r'), dels)"
  shows "one_owner null (w\<lparr>objs := (objs w)(i \<mapsto> r', j \<mapsto> x'), deleted := deleted w @ dels\<rparr>)"
proof -
  let ?m = "(own null w)(j := None)"
  have dels: "dels = (case own null w j of None \<Rightarrow> [] | Some h \<Rightarrow> [h])"
    and r': "handle_of null r' = None" and x': "handle_of null x' = own null w i"
    using assms by (auto simp: res_assign_def res_reset_eq own_Some handle_of_def split: if_splits)
  have "sound ?m (given w) ((deleted w @ dels) @ released w)"
    using assms(1) dels unfolding one_owner_def by (rule sound_drop_if(1))
  then have "sound (?m(i := ?m j, j := ?m i)) (given w) ((deleted w @ dels) @ released w)"
    by (rule sound_exchange)
  then show ?thesis using assms(4) r' x' by (simp add: one_owner_def fun_upd_twist)
qed

lemma one_owner_step: "res_step null w w' \<Longrightarrow> one_owner null w \<Longrightarrow> one_owner null w'"
proof (induction rule: res_step.induct)
  case (construct w i)
  then show ?case by (simp add: one_owner_def fun_upd_idem)
next
  case (wrap w i h)
  then show ?case by (simp add: one_owner_def sound_gain)
next
  case (reset w i r r' dels)
  then show ?case using sound_drop_if(1) [of "own null w" "given w" "deleted w" "released w" _ i]
    by (auto simp: one_owner_def res_reset_eq own_Some)
next
  case (release w i r r' h)
  then show ?case using sound_drop_if(2) [of "own null w" "given w" "deleted w" "released w"
        "if h = null then [] else [h]" i]
    by (auto simp: one_owner_def res_release_def handle_of_def own_Some split: if_splits)
next
  case (destroy w i r)
  then show ?case using sound_drop_if(1) [of "own null w" "given w" "deleted w" "released w" _ i]
    by (auto simp: one_owner_def res_destroy_def res_reset_eq own_Some)
next
  case (move w i r j x r')
  then have "sound ((own null w)(i := own null w j, j := own null w i)) (given w) (deleted w @ released w)"
    unfolding one_owner_def by (intro sound_exchange)
  with move show ?case by (auto simp: one_owner_def res_move_def handle_of_def own_Some split: if_splits)
next
  case (assign w i r j x x' r' dels)
  then show ?case by (intro one_owner_assign)
next
  case (swap w i a j b a' b')
  then have "sound ((own null w)(i := own null w j, j := own null w i)) (given w) (deleted w @ released w)"
    unfolding one_owner_def by (intro sound_exchange)
  with swap show ?case by (auto simp: one_owner_def res_swap_def handle_of_def own_Some split: if_splits)
qed

lemma reachable_one_owner: "res_reachable null w \<Longrightarrow> one_owner null w"
  by (induction rule: res_reachable.induct) (auto intro: one_owner_start one_owner_step)

text \<open>
  C7. However objects are constructed, moved, swapped, reset, released and destroyed, no
  handle is deleted twice, none is deleted after its release, and no object still holds a
  deleted or released handle.
\<close>

theorem resource_no_double_delete:
  assumes "res_reachable null w"
  shows "distinct (deleted w @ released w) \<and>
    (\<forall>i r. objs w i = Some r \<and> res_is_open null r \<longrightarrow> res_value r \<notin> set (deleted w @ released w))"
proof -
  have s: "sound (own null w) (given w) (deleted w @ released w)"
    using reachable_one_owner [OF assms] by (simp add: one_owner_def)
  have "res_value r \<in> ran (own null w)" if "objs w i = Some r" "res_is_open null r" for i r
    using that by (intro ranI [of _ i]) (simp add: own_def res_is_open_def handle_of_def)
  with s show ?thesis unfolding sound_def by blast
qed

text \<open>
  C11. No handle leaks: once every object is destroyed, each handle that was wrapped has been
  deleted or released.
\<close>

theorem resource_no_leak:
  assumes "res_reachable null w" and "\<forall>i. objs w i = None"
  shows "set (given w) = set (deleted w) \<union> set (released w)"
  using reachable_one_owner [OF assms(1)] assms(2)
  by (auto simp: one_owner_def sound_def ran_def)

text \<open>A run that wraps a handle, moves it to another object and destroys both.\<close>

lemma sample_run:
  "\<exists>w. res_reachable (0 :: nat) w \<and> given w = [7] \<and> deleted w = [7] \<and> released w = [] \<and> objs w = (\<lambda>_. None)"
proof -
  let ?w1 = "world0\<lparr>objs := [0 \<mapsto> res_wrap 7], given := [7 :: nat]\<rparr>"
  let ?w2 = "?w1\<lparr>objs := [0 \<mapsto> res_wrap 0, 1 \<mapsto> res_wrap 7]\<rparr>"
  let ?w3 = "?w2\<lparr>objs := [1 \<mapsto> res_wrap 7]\<rparr>"
  let ?w4 = "?w3\<lparr>objs := (\<lambda>_. None), deleted := [7]\<rparr>"
  have "res_step 0 world0 ?w1" using res_step.wrap [of world0 0 7 "0 :: nat"] by (simp add: world0_def)
  moreover have "res_step 0 ?w1 ?w2" using res_step.move [of ?w1 0 "res_wrap 7" 1] by (simp add: res_move_def res_wrap_def)
  moreover have "res_step 0 ?w2 ?w3" using res_step.destroy [of ?w2 0 "res_wrap 0" "0 :: nat"]
    by (simp add: res_destroy_def res_reset_def res_wrap_def world0_def)
  moreover have "res_step 0 ?w3 ?w4" using res_step.destroy [of ?w3 1 "res_wrap 7" "0 :: nat"]
    by (simp add: res_destroy_def res_reset_def res_wrap_def world0_def)
  ultimately have "res_reachable 0 ?w4" by (meson res_reachable.intros)
  then show ?thesis by (force simp: world0_def)
qed

theorem resource_no_double_delete_witness:
  "\<exists>w. res_reachable (0 :: nat) w \<and> deleted w = [7] \<and> distinct (deleted w @ released w)"
  using sample_run resource_no_double_delete [where null = "0 :: nat"] by blast

theorem resource_no_leak_witness:
  "\<exists>w. res_reachable (0 :: nat) w \<and> given w = [7] \<and> set (given w) = set (deleted w) \<union> set (released w)"
  using sample_run resource_no_leak [where null = "0 :: nat"] by metis

end
