(* ===== verification/Channel.thy ===== *)
theory Channel
  imports Prelude "HOL-Library.Sublist"
begin

text \<open>
  \<open>channel.hpp\<close>: the contracts of \<open>Channel\<close> and \<open>MessageChannel\<close> as locales, and the
  message channels \<open>GeneratorChannel\<close>, \<open>QueueChannel\<close> and \<open>ValueChannel\<close> as their instances.

  Every member function runs under the channel's mutex, so a channel is a state on which
  the calls of all threads act one after the other. A call is modelled with a flag that
  tells whether it ran \<open>cv_.notify_all()\<close>; a thread blocked in \<open>do_wait_for\<close> lets the
  calls of the other threads through one by one and only looks at the state again when it
  is notified, or when its time is up.
\<close>

section \<open>Monitors: waiting under a mutex\<close>

text \<open>The blocked thread: \<open>acts\<close> are the calls the other threads make before the timeout. The
  result is the state the thread sees when it goes on, and the calls not yet made by then.\<close>

fun cv_wait :: "('c \<Rightarrow> 's \<Rightarrow> 's \<times> bool) \<Rightarrow> ('s \<Rightarrow> bool) \<Rightarrow> 'c list \<Rightarrow> 's \<Rightarrow> 's \<times> 'c list" where
  "cv_wait exec p [] s = (s, [])"
| "cv_wait exec p (a # acts) s =
     (let (s', notified) = exec a s
      in if notified \<and> p s' then (s', acts) else cv_wait exec p acts s')"

fun run_calls :: "('c \<Rightarrow> 's \<Rightarrow> 's \<times> bool) \<Rightarrow> 'c list \<Rightarrow> 's \<Rightarrow> 's" where
  "run_calls exec [] s = s"
| "run_calls exec (a # acts) s = run_calls exec acts (fst (exec a s))"

text \<open>The promise of a monitor: a call that makes the awaited condition true notifies.\<close>

locale monitor =
  fixes inv :: "'s \<Rightarrow> bool" and exec :: "'c \<Rightarrow> 's \<Rightarrow> 's \<times> bool" and awaited :: "'s \<Rightarrow> bool"
  assumes inv_exec: "inv s \<Longrightarrow> inv (fst (exec a s))"
    and wakes: "inv s \<Longrightarrow> \<not> awaited s \<Longrightarrow> awaited (fst (exec a s)) \<Longrightarrow> snd (exec a s)"
begin

lemma inv_run_calls: "inv s \<Longrightarrow> inv (run_calls exec acts s)"
  by (induction acts arbitrary: s) (simp_all add: inv_exec)

lemma inv_cv_wait: "inv s \<Longrightarrow> inv (fst (cv_wait exec awaited acts s))"
  by (induction acts arbitrary: s) (auto simp: inv_exec case_prod_beta Let_def)

text \<open>No lost wake-up: the blocked thread goes on at the first state with the condition.\<close>

lemma cv_wait_first:
  assumes "inv s" and "\<not> awaited s"
  shows "(case cv_wait exec awaited acts s of (s', rest) \<Rightarrow>
      (\<exists>k \<le> length acts. rest = drop k acts \<and> s' = run_calls exec (take k acts) s
         \<and> (\<forall>j < k. \<not> awaited (run_calls exec (take j acts) s)) \<and> (awaited s' \<or> k = length acts)))"
  using assms
proof (induction acts arbitrary: s)
  case Nil
  then show ?case by simp
next
  case (Cons a acts)
  obtain s' n where e: "exec a s = (s', n)" by fastforce
  show ?case
  proof (cases "awaited s'")
    case True
    with e Cons.prems wakes [of s a] have "n" by simp
    with e True Cons.prems show ?thesis
      by (auto intro!: exI [of _ 1] simp: less_Suc_eq)
  next
    case False
    obtain t rest where t: "cv_wait exec awaited acts s' = (t, rest)" by fastforce
    from e Cons.prems have "inv s'" using inv_exec [of s a] by simp
    from Cons.IH [OF this False] t obtain k where k: "k \<le> length acts" "rest = drop k acts"
      "t = run_calls exec (take k acts) s'" "awaited t \<or> k = length acts"
      and j: "\<forall>j < k. \<not> awaited (run_calls exec (take j acts) s')" by auto
    have "\<not> awaited (run_calls exec (take i (a # acts)) s)" if "i < Suc k" for i
      using that j e Cons.prems(2) by (cases i) auto
    with k e t False show ?thesis by (auto intro!: exI [of _ "Suc k"])
  qed
qed

end

section \<open>The channel contracts\<close>

text \<open>
  \<open>Channel\<close>: \<open>close\<close> is idempotent and closes; a wait on a closed channel succeeds at once.
  \<open>poll\<close> is the outcome of a wait with no time to spend.
\<close>

locale channel =
  fixes inv :: "'s \<Rightarrow> bool" and close :: "'s \<Rightarrow> 's" and is_closed :: "'s \<Rightarrow> bool" and poll :: "'s \<Rightarrow> bool"
  assumes inv_close: "inv s \<Longrightarrow> inv (close s)"
    and close_closes: "inv s \<Longrightarrow> is_closed (close s)"
    and close_idem: "inv s \<Longrightarrow> close (close s) = close s"
    and closed_poll: "inv s \<Longrightarrow> is_closed s \<Longrightarrow> poll s"

text \<open>
  \<open>MessageChannel\<close>: \<open>read\<close> on a closed channel gives nothing, on an open channel whose wait
  succeeded it gives a message, and it never closes or reopens the channel.
\<close>

locale message_channel = channel +
  fixes read :: "'s \<Rightarrow> 'm option \<times> 's"
  assumes inv_read: "inv s \<Longrightarrow> inv (snd (read s))"
    and read_closed: "inv s \<Longrightarrow> is_closed s \<Longrightarrow> fst (read s) = None"
    and read_ready: "inv s \<Longrightarrow> \<not> is_closed s \<Longrightarrow> poll s \<Longrightarrow> \<exists>m. fst (read s) = Some m"
    and read_keeps_open: "inv s \<Longrightarrow> is_closed (snd (read s)) = is_closed s"

text \<open>One turn of the dispatch loop of \<open>Dispatch::add_channel\<close> once the wait has succeeded: a
  closed channel ends the loop (\<^const>\<open>None\<close>), otherwise the handler built by
  \<open>Dispatch::add\<close> reads and passes what it got to the callback.\<close>

definition handler_turn :: "('s \<Rightarrow> bool) \<Rightarrow> ('s \<Rightarrow> 'm option \<times> 's) \<Rightarrow> 's \<Rightarrow> ('m list \<times> 's) option" where
  "handler_turn is_closed read s =
     (if is_closed s then None
      else let (m, s') = read s
           in Some (case m of None \<Rightarrow> [] | Some t \<Rightarrow> [t], s'))"

context message_channel
begin

lemma handler_turn_delivers:
  assumes "inv s" and "poll s"
  shows "(is_closed s \<and> handler_turn is_closed read s = None) \<or>
    (\<exists>t s'. \<not> is_closed s \<and> handler_turn is_closed read s = Some ([t], s') \<and> inv s' \<and> \<not> is_closed s')"
proof (cases "is_closed s")
  case True
  then show ?thesis by (simp add: handler_turn_def)
next
  case False
  with assms read_ready [of s] obtain t s' where r: "read s = (Some t, s')"
    by (metis surjective_pairing)
  with assms False inv_read [of s] read_keeps_open [of s] show ?thesis
    by (auto simp: handler_turn_def)
qed

lemma closed_stays_closed:
  assumes "inv s" and "is_closed s"
  shows "is_closed (snd (read s)) \<and> fst (read s) = None \<and> poll (snd (read s))"
  using assms closed_poll inv_read read_closed read_keeps_open by blast

end

section \<open>GeneratorChannel\<close>

text \<open>The callback is a function with a state of its own; \<open>gen_ = nullptr\<close> is \<^const>\<open>None\<close>.\<close>

record ('a, 'g) generator_channel =
  g_gen :: "('g \<Rightarrow> 'a \<times> 'g) option"
  g_state :: 'g

definition generator_close :: "('a, 'g) generator_channel \<Rightarrow> ('a, 'g) generator_channel" where
  "generator_close c = c\<lparr>g_gen := None\<rparr>"

definition generator_is_closed :: "('a, 'g) generator_channel \<Rightarrow> bool" where
  "generator_is_closed c = (g_gen c = None)"

definition generator_do_wait_for :: "int \<Rightarrow> ('a, 'g) generator_channel \<Rightarrow> bool" where
  "generator_do_wait_for t c = True"

definition generator_read :: "('a, 'g) generator_channel \<Rightarrow> 'a option \<times> ('a, 'g) generator_channel" where
  "generator_read c =
     (case g_gen c of
        None \<Rightarrow> (None, c)
      | Some f \<Rightarrow> let (t, g') = f (g_state c) in (Some t, c\<lparr>g_state := g'\<rparr>))"

interpretation gen: message_channel "\<lambda>_. True" generator_close generator_is_closed
    "generator_do_wait_for 0" generator_read
  by unfold_locales
    (auto simp: generator_close_def generator_is_closed_def generator_do_wait_for_def
      generator_read_def split: option.splits prod.splits)

section \<open>QueueChannel\<close>

record 'a queue_channel =
  q_open :: bool
  q_queue :: "'a list"

definition queue_default :: "'a queue_channel" where
  "queue_default = \<lparr>q_open = True, q_queue = []\<rparr>"

definition queue_close :: "'a queue_channel \<Rightarrow> 'a queue_channel \<times> bool" where
  "queue_close c = (c\<lparr>q_open := False\<rparr>, True)"

definition queue_is_closed :: "'a queue_channel \<Rightarrow> bool" where
  "queue_is_closed c = (\<not> q_open c)"

definition queue_read :: "'a queue_channel \<Rightarrow> 'a option \<times> 'a queue_channel \<times> bool" where
  "queue_read c =
     (if \<not> q_open c \<or> q_queue c = [] then (None, c, False)
      else let t = hd (q_queue c); c' = c\<lparr>q_queue := tl (q_queue c)\<rparr>
           in (Some t, c', q_queue c' \<noteq> []))"

definition queue_clear :: "'a queue_channel \<Rightarrow> 'a queue_channel \<times> bool" where
  "queue_clear c = (c\<lparr>q_queue := []\<rparr>, False)"

definition queue_write :: "'a \<Rightarrow> 'a queue_channel \<Rightarrow> bool \<times> 'a queue_channel \<times> bool" where
  "queue_write t c =
     (if \<not> q_open c then (False, c, False)
      else (True, c\<lparr>q_queue := q_queue c @ [t]\<rparr>, True))"

definition queue_awaited :: "'a queue_channel \<Rightarrow> bool" where
  "queue_awaited c = (\<not> q_open c \<or> q_queue c \<noteq> [])"

datatype 'a queue_call = QClose | QRead | QClear | QWrite 'a

fun queue_exec :: "'a queue_call \<Rightarrow> 'a queue_channel \<Rightarrow> 'a queue_channel \<times> bool" where
  "queue_exec QClose c = queue_close c"
| "queue_exec QRead c = snd (queue_read c)"
| "queue_exec QClear c = queue_clear c"
| "queue_exec (QWrite t) c = snd (queue_write t c)"

definition queue_do_wait_for ::
  "int \<Rightarrow> 'a queue_call list \<Rightarrow> 'a queue_channel \<Rightarrow> bool \<times> 'a queue_channel \<times> 'a queue_call list" where
  "queue_do_wait_for t acts c =
     (let (c', rest) =
        (if q_open c \<and> q_queue c = [] \<and> 0 < t then cv_wait queue_exec queue_awaited acts c else (c, acts))
      in (\<not> q_open c' \<or> q_queue c' \<noteq> [], c', rest))"

lemmas queue_defs = queue_close_def queue_is_closed_def queue_read_def queue_clear_def
  queue_write_def queue_awaited_def queue_default_def

definition queue_poll :: "'a queue_channel \<Rightarrow> bool" where
  "queue_poll c = fst (queue_do_wait_for 0 [] c)"

definition queue_next :: "'a queue_channel \<Rightarrow> 'a option \<times> 'a queue_channel" where
  "queue_next c = (let (m, c', _) = queue_read c in (m, c'))"

interpretation queue: message_channel "\<lambda>_. True" "\<lambda>c. fst (queue_close c)" queue_is_closed
    queue_poll queue_next
  by unfold_locales
    (auto simp: queue_defs queue_poll_def queue_do_wait_for_def queue_next_def Let_def)

interpretation queue_mon: monitor "\<lambda>_. True" queue_exec queue_awaited
proof
  fix s and a :: "'a queue_call"
  show "\<not> queue_awaited s \<Longrightarrow> queue_awaited (fst (queue_exec a s)) \<Longrightarrow> snd (queue_exec a s)"
    by (cases a) (auto simp: queue_defs split: if_splits)
qed simp







text \<open>
  No wake-up of a queue channel is lost: a thread that starts to wait on an open, empty queue
  goes on right after the first call of another thread that closes the channel or queues a
  message, with success; if no such call comes before the timeout, it fails.
\<close>

theorem queue_wait_wakes:
  assumes "q_open c" and "q_queue c = []" and "0 < t"
  shows "(case queue_do_wait_for t acts c of (ok, c', rest) \<Rightarrow>
     \<exists>k \<le> length acts. rest = drop k acts \<and> c' = run_calls queue_exec (take k acts) c
       \<and> (\<forall>j < k. \<not> queue_awaited (run_calls queue_exec (take j acts) c))
       \<and> ok = queue_awaited c' \<and> (ok \<or> k = length acts))"
proof -
  have "\<not> queue_awaited c" using assms by (simp add: queue_awaited_def)
  from queue_mon.cv_wait_first [OF TrueI this, of acts] assms show ?thesis
    by (auto simp: queue_do_wait_for_def queue_awaited_def split: prod.splits)
qed

theorem queue_wait_wakes_witness:
  "fst (queue_do_wait_for 5 [QRead, QWrite 4, QRead] (queue_default :: nat queue_channel))
   \<and> (\<exists>k \<le> 3. drop k [QRead, QWrite (4 :: nat), QRead] = [QRead])"
proof -
  have e: "queue_do_wait_for 5 [QRead, QWrite 4, QRead] (queue_default :: nat queue_channel)
      = (True, \<lparr>q_open = True, q_queue = [4]\<rparr>, [QRead])"
    by (simp add: queue_do_wait_for_def queue_defs)
  with queue_wait_wakes [of "queue_default :: nat queue_channel" 5 "[QRead, QWrite 4, QRead]"]
  obtain k where "k \<le> 3" "[QRead] = drop k [QRead, QWrite (4 :: nat), QRead]"
    by (auto simp: queue_default_def eval_nat_numeral)
  then have "\<exists>k \<le> 3. drop k [QRead, QWrite (4 :: nat), QRead] = [QRead]" by metis
  with e show ?thesis by simp
qed

section \<open>ValueChannel\<close>

text \<open>\<open>status\<close> is 1 for a new value, 0 for no change, -1 for closed. \<open>clear\<close> is declared in the
  header and defined nowhere, so it has no model.\<close>

record 'a value_channel =
  v_value :: 'a
  v_status :: int

definition value_default :: "'a \<Rightarrow> 'a value_channel" where
  "value_default t = \<lparr>v_value = t, v_status = 0\<rparr>"

definition value_close :: "'a value_channel \<Rightarrow> 'a value_channel \<times> bool" where
  "value_close c = (c\<lparr>v_status := - 1\<rparr>, True)"

definition value_is_closed :: "'a value_channel \<Rightarrow> bool" where
  "value_is_closed c = (v_status c = - 1)"

definition value_read :: "'a value_channel \<Rightarrow> 'a option \<times> 'a value_channel \<times> bool" where
  "value_read c =
     (if v_status c \<noteq> 1 then (None, c, False)
      else (Some (v_value c), c\<lparr>v_status := 0\<rparr>, False))"

definition value_write :: "'a \<Rightarrow> 'a value_channel \<Rightarrow> bool \<times> 'a value_channel \<times> bool" where
  "value_write t c =
     (if v_status c = - 1 then (False, c, False)
      else if t = v_value c then (True, c, False)
      else (True, c\<lparr>v_value := t, v_status := 1\<rparr>, True))"

definition value_awaited :: "'a value_channel \<Rightarrow> bool" where
  "value_awaited c = (v_status c \<noteq> 0)"

datatype 'a value_call = VClose | VRead | VWrite 'a

fun value_exec :: "'a value_call \<Rightarrow> 'a value_channel \<Rightarrow> 'a value_channel \<times> bool" where
  "value_exec VClose c = value_close c"
| "value_exec VRead c = snd (value_read c)"
| "value_exec (VWrite t) c = snd (value_write t c)"

definition value_do_wait_for ::
  "int \<Rightarrow> 'a value_call list \<Rightarrow> 'a value_channel \<Rightarrow> bool \<times> 'a value_channel \<times> 'a value_call list" where
  "value_do_wait_for t acts c =
     (let (c', rest) =
        (if v_status c = 0 \<and> 0 < t then cv_wait value_exec value_awaited acts c else (c, acts))
      in (v_status c' \<noteq> 0, c', rest))"

lemmas value_defs = value_close_def value_is_closed_def value_read_def value_write_def
  value_awaited_def value_default_def

definition value_inv :: "'a value_channel \<Rightarrow> bool" where
  "value_inv c = (v_status c \<in> {- 1, 0, 1})"

definition value_poll :: "'a value_channel \<Rightarrow> bool" where
  "value_poll c = fst (value_do_wait_for 0 [] c)"

definition value_next :: "'a value_channel \<Rightarrow> 'a option \<times> 'a value_channel" where
  "value_next c = (let (m, c', _) = value_read c in (m, c'))"

interpretation val: message_channel value_inv "\<lambda>c. fst (value_close c)" value_is_closed
    value_poll value_next
  by unfold_locales
    (auto simp: value_defs value_inv_def value_poll_def value_do_wait_for_def value_next_def Let_def)

interpretation val_mon: monitor value_inv value_exec value_awaited
proof
  fix s and a :: "'a value_call"
  show "value_inv s \<Longrightarrow> value_inv (fst (value_exec a s))"
    by (cases a) (auto simp: value_inv_def value_defs)
  show "\<not> value_awaited s \<Longrightarrow> value_awaited (fst (value_exec a s)) \<Longrightarrow> snd (value_exec a s)"
    by (cases a) (auto simp: value_defs split: if_splits)
qed

text \<open>A run of writes from other threads on an open channel.\<close>

fun value_writes :: "'a list \<Rightarrow> 'a value_channel \<Rightarrow> 'a value_channel" where
  "value_writes [] c = c"
| "value_writes (t # ts) c = value_writes ts (fst (snd (value_write t c)))"

lemma value_writes_open:
  "v_status c \<noteq> - 1 \<Longrightarrow> value_inv c \<Longrightarrow>
     v_value (value_writes ts c) = last (v_value c # ts)
     \<and> v_status (value_writes ts c) = (if \<exists>t \<in> set ts. t \<noteq> v_value c then 1 else v_status c)"
proof (induction ts arbitrary: c)
  case (Cons t ts)
  show ?case
  proof (cases "t = v_value c")
    case True
    with Cons show ?thesis by (auto simp: value_write_def)
  next
    case False
    let ?c = "c\<lparr>v_value := t, v_status := 1\<rparr>"
    have "v_status ?c \<noteq> - 1" "value_inv ?c" by (simp_all add: value_inv_def)
    from Cons.IH [OF this] False Cons.prems show ?thesis by (auto simp: value_write_def)
  qed
qed simp

text \<open>
  A value channel keeps one value: after any number of writes to an open channel with no unread
  value, a read delivers the last value written, once, if one of the writes changed the value, and
  delivers nothing if all of them wrote the value the channel already had.
\<close>

theorem value_channel_last:
  assumes "v_status c = 0"
  shows "fst (value_read (value_writes ts c)) =
      (if \<forall>t \<in> set ts. t = v_value c then None else Some (last ts))
    \<and> fst (value_read (fst (snd (value_read (value_writes ts c))))) = None"
proof -
  have "value_inv c" "v_status c \<noteq> - 1" using assms by (simp_all add: value_inv_def)
  from value_writes_open [OF this(2,1), of ts] assms
  have v: "v_value (value_writes ts c) = last (v_value c # ts)"
    and st: "v_status (value_writes ts c) = (if \<exists>t \<in> set ts. t \<noteq> v_value c then 1 else 0)" by auto
  show ?thesis
    by (cases "\<exists>t \<in> set ts. t \<noteq> v_value c") (auto simp: value_read_def v st)
qed

theorem value_channel_last_witness:
  "fst (value_read (value_writes [3, 4] (value_default (0 :: nat)))) = Some 4"
  using value_channel_last [of "value_default (0 :: nat)" "[3, 4]"] by (simp add: value_default_def)

end
