(* ===== verification/Buffer_Channel.thy ===== *)
theory Buffer_Channel
  imports Channel
begin

text \<open>
  \<open>StreamChannel\<close> (\<open>append\<close>, \<open>read_all\<close>) as the client of a locale, and \<open>BufferChannel\<close> as its
  provider. The buffer keeps a read offset into its string and compacts it lazily; the view
  the contract is about is the string of pending bytes.
\<close>

section \<open>StreamChannel\<close>

text \<open>\<open>append\<close>: grow the destination by a block, read into the new part, cut off what was not
  filled. The default block size is 65536.\<close>

definition stream_append ::
  "('s \<Rightarrow> nat \<Rightarrow> string \<times> 's) \<Rightarrow> nat \<Rightarrow> 's \<Rightarrow> string \<Rightarrow> nat \<times> string \<times> 's" where
  "stream_append read block s dst =
     (let pos = length dst;
          dst1 = str_resize dst (pos + block) (CHR 0x00);
          (x, s') = read s block;
          n = length x;
          dst2 = str_replace dst1 pos n x
      in (n, str_resize dst2 (pos + n) (CHR 0x00), s'))"

text \<open>
  \<open>read_all\<close>: wait, stop when closed, else append. The schedule lists, for each turn of the
  loop, the calls the other threads make before the turn; a turn that finds the channel
  not ready is the wait going on. \<^const>\<open>None\<close> means that the loop is still running at the
  end of the schedule.
\<close>

fun stream_read_all ::
  "('c \<Rightarrow> 's \<Rightarrow> 's \<times> bool) \<Rightarrow> ('s \<Rightarrow> bool) \<Rightarrow> ('s \<Rightarrow> bool) \<Rightarrow> ('s \<Rightarrow> nat \<Rightarrow> string \<times> 's) \<Rightarrow> nat
     \<Rightarrow> 'c list list \<Rightarrow> 's \<Rightarrow> string \<Rightarrow> (string \<times> 's) option" where
  "stream_read_all exec poll is_closed read block [] s out = None"
| "stream_read_all exec poll is_closed read block (acts # sched) s out =
     (let s1 = run_calls exec acts s
      in if \<not> poll s1 then stream_read_all exec poll is_closed read block sched s1 out
         else if is_closed s1 then Some (out, s1)
         else let (n, out', s2) = stream_append read block s1 out
              in stream_read_all exec poll is_closed read block sched s2 out')"

locale stream_channel = channel +
  fixes read :: "'s \<Rightarrow> nat \<Rightarrow> string \<times> 's" and pending :: "'s \<Rightarrow> string"
  assumes inv_read: "inv s \<Longrightarrow> inv (snd (read s n))"
    and read_split: "inv s \<Longrightarrow> fst (read s n) = take n (pending s) \<and> pending (snd (read s n)) = drop n (pending s)"
    and open_ready: "inv s \<Longrightarrow> \<not> is_closed s \<Longrightarrow> poll s = (pending s \<noteq> [])"
    and closed_empty: "inv s \<Longrightarrow> is_closed s \<Longrightarrow> pending s = []"
begin

lemma append_eq:
  assumes "inv s"
  shows "stream_append read block s dst =
     (min block (length (pending s)), dst @ take block (pending s), snd (read s block))"
  using read_split [OF assms, of block]
  by (auto simp: stream_append_def Let_def str_resize_def str_replace_def split: prod.splits)

lemma append_progress:
  assumes "inv s" "poll s" "\<not> is_closed s" "0 < block"
  shows "0 < fst (stream_append read block s dst)"
  using assms open_ready [of s] by (simp add: append_eq)

end

section \<open>BufferChannel\<close>

record buffer_channel =
  b_buf :: string
  b_ofs :: nat
  b_open :: bool

definition buffer_default :: buffer_channel where
  "buffer_default = \<lparr>b_buf = [], b_ofs = 0, b_open = True\<rparr>"

definition buffer_close :: "buffer_channel \<Rightarrow> buffer_channel \<times> bool" where
  "buffer_close c = (c\<lparr>b_buf := [], b_ofs := 0, b_open := False\<rparr>, True)"

definition buffer_is_closed :: "buffer_channel \<Rightarrow> bool" where
  "buffer_is_closed c = (\<not> b_open c)"

text \<open>\<open>dst\<close> tells whether the destination pointer is not null.\<close>

definition buffer_read :: "bool \<Rightarrow> nat \<Rightarrow> buffer_channel \<Rightarrow> string \<times> buffer_channel" where
  "buffer_read dst maxlen c =
     (if \<not> dst \<or> maxlen = 0 then ([], c)
      else if \<not> b_open c then ([], c)
      else let n = min (length (b_buf c) - b_ofs c) maxlen;
               x = substr (b_buf c) (b_ofs c) n;
               c1 = c\<lparr>b_ofs := b_ofs c + n\<rparr>
           in (x,
               if b_ofs c1 = length (b_buf c1) then c1\<lparr>b_buf := [], b_ofs := 0\<rparr>
               else if length (b_buf c1) \<le> 2 * b_ofs c1
                    then c1\<lparr>b_buf := str_erase (b_buf c1) 0 (b_ofs c1), b_ofs := 0\<rparr>
               else c1))"

definition buffer_write :: "string \<Rightarrow> buffer_channel \<Rightarrow> bool \<times> buffer_channel \<times> bool" where
  "buffer_write src c =
     (if \<not> b_open c then (False, c, False)
      else let c1 = c\<lparr>b_buf := b_buf c @ src\<rparr>
           in (True, c1, b_ofs c1 < length (b_buf c1)))"

definition buffer_clear :: "buffer_channel \<Rightarrow> buffer_channel \<times> bool" where
  "buffer_clear c = (c\<lparr>b_buf := [], b_ofs := 0\<rparr>, False)"

definition buffer_awaited :: "buffer_channel \<Rightarrow> bool" where
  "buffer_awaited c = (\<not> b_open c \<or> b_ofs c < length (b_buf c))"

datatype buffer_call = BClose | BRead nat | BClear | BWrite string

fun buffer_exec :: "buffer_call \<Rightarrow> buffer_channel \<Rightarrow> buffer_channel \<times> bool" where
  "buffer_exec BClose c = buffer_close c"
| "buffer_exec (BRead n) c = (snd (buffer_read True n c), False)"
| "buffer_exec BClear c = buffer_clear c"
| "buffer_exec (BWrite x) c = snd (buffer_write x c)"

definition buffer_do_wait_for ::
  "int \<Rightarrow> buffer_call list \<Rightarrow> buffer_channel \<Rightarrow> bool \<times> buffer_channel \<times> buffer_call list" where
  "buffer_do_wait_for t acts c =
     (let (c', rest) =
        (if b_open c \<and> b_ofs c = length (b_buf c) \<and> 0 < t
         then cv_wait buffer_exec buffer_awaited acts c else (c, acts))
      in (\<not> b_open c' \<or> b_ofs c' < length (b_buf c'), c', rest))"

definition buffer_poll :: "buffer_channel \<Rightarrow> bool" where
  "buffer_poll c = fst (buffer_do_wait_for 0 [] c)"

definition buffer_inv :: "buffer_channel \<Rightarrow> bool" where
  "buffer_inv c \<longleftrightarrow> b_ofs c \<le> length (b_buf c) \<and> (b_ofs c = 0 \<or> 2 * b_ofs c < length (b_buf c))
     \<and> (\<not> b_open c \<longrightarrow> b_buf c = [])"

definition buffer_pending :: "buffer_channel \<Rightarrow> string" where
  "buffer_pending c = drop (b_ofs c) (b_buf c)"

lemmas buffer_defs = buffer_close_def buffer_is_closed_def buffer_write_def buffer_clear_def
  buffer_default_def

lemma buffer_read_inv: "buffer_inv c \<Longrightarrow> buffer_inv (snd (buffer_read dst n c))"
  by (auto simp: buffer_read_def buffer_inv_def Let_def str_erase_def)

lemma buffer_read_split:
  assumes "buffer_inv c"
  shows "fst (buffer_read True n c) = take n (buffer_pending c)
     \<and> buffer_pending (snd (buffer_read True n c)) = drop n (buffer_pending c)"
proof (cases "n = 0 \<or> \<not> b_open c")
  case True
  with assms show ?thesis by (auto simp: buffer_read_def buffer_pending_def buffer_inv_def)
next
  case False
  let ?k = "min (length (b_buf c) - b_ofs c) n"
  have "take ?k (drop (b_ofs c) (b_buf c)) = take n (drop (b_ofs c) (b_buf c))"
    by (simp add: min_def)
  moreover have "drop (b_ofs c + ?k) (b_buf c) = drop (n + b_ofs c) (b_buf c)"
    by (cases "n \<le> length (b_buf c) - b_ofs c") (simp_all add: min_def add.commute)
  ultimately show ?thesis using False assms
    by (auto simp: buffer_read_def buffer_pending_def buffer_inv_def substr_def str_erase_def Let_def)
qed

lemma buffer_exec_inv: "buffer_inv c \<Longrightarrow> buffer_inv (fst (buffer_exec a c))"
  by (cases a) (auto simp: buffer_read_inv, auto simp: buffer_defs buffer_inv_def)

interpretation buf: stream_channel buffer_inv "\<lambda>c. fst (buffer_close c)" buffer_is_closed buffer_poll
    "\<lambda>c n. buffer_read True n c" buffer_pending
proof
  fix c n
  show "buffer_inv c \<Longrightarrow> buffer_inv (snd (buffer_read True n c))" by (rule buffer_read_inv)
  show "buffer_inv c \<Longrightarrow> fst (buffer_read True n c) = take n (buffer_pending c)
     \<and> buffer_pending (snd (buffer_read True n c)) = drop n (buffer_pending c)" by (rule buffer_read_split)
qed (auto simp: buffer_defs buffer_inv_def buffer_poll_def buffer_do_wait_for_def buffer_pending_def)

interpretation buf_mon: monitor buffer_inv buffer_exec buffer_awaited
proof
  fix c a
  show "buffer_inv c \<Longrightarrow> buffer_inv (fst (buffer_exec a c))" by (rule buffer_exec_inv)
  show "buffer_inv c \<Longrightarrow> \<not> buffer_awaited c \<Longrightarrow> buffer_awaited (fst (buffer_exec a c)) \<Longrightarrow> snd (buffer_exec a c)"
    by (cases a)
      (auto simp: buffer_defs buffer_awaited_def buffer_inv_def buffer_read_def Let_def split: if_splits)
qed

section \<open>Histories of a buffer channel\<close>








section \<open>Reading to the end\<close>

text \<open>What the writers get into the channel before it is closed.\<close>

fun until_close :: "buffer_call list \<Rightarrow> string" where
  "until_close [] = []"
| "until_close (BClose # acts) = []"
| "until_close (BWrite x # acts) = x @ until_close acts"
| "until_close (_ # acts) = until_close acts"

definition writers_only :: "buffer_call list \<Rightarrow> bool" where
  "writers_only acts = list_all (\<lambda>a. case a of BRead _ \<Rightarrow> False | BClear \<Rightarrow> False | _ \<Rightarrow> True) acts"

lemma until_close_append:
  "until_close (xs @ ys) = until_close xs @ (if BClose \<in> set xs then [] else until_close ys)"
  by (induction xs rule: until_close.induct) auto

lemma writers_run:
  "buffer_inv c \<Longrightarrow> b_open c \<Longrightarrow> writers_only acts \<Longrightarrow>
     buffer_inv (run_calls buffer_exec acts c)
     \<and> b_open (run_calls buffer_exec acts c) = (BClose \<notin> set acts)
     \<and> (BClose \<notin> set acts \<longrightarrow>
          buffer_pending (run_calls buffer_exec acts c) = buffer_pending c @ until_close acts)"
proof (induction acts arbitrary: c)
  case (Cons a acts)
  let ?c = "fst (buffer_exec a c)"
  have inv: "buffer_inv ?c" by (rule buffer_exec_inv [OF Cons.prems(1)])
  show ?case
  proof (cases a)
    case BClose
    have "\<not> b_open d \<Longrightarrow> \<not> b_open (run_calls buffer_exec as d)" for as d
    proof (induction as arbitrary: d)
      case (Cons e es)
      have "\<not> b_open (fst (buffer_exec e d))"
        using Cons.prems by (cases e) (auto simp: buffer_defs buffer_read_def)
      then show ?case by (simp add: Cons.IH)
    qed simp
    then have "\<not> b_open (run_calls buffer_exec (a # acts) c)" using BClose by (simp add: buffer_defs)
    moreover have "buffer_inv (run_calls buffer_exec (a # acts) c)"
      using Cons.prems(1) by (rule buf_mon.inv_run_calls)
    ultimately show ?thesis using BClose by simp
  next
    case (BWrite x)
    have "b_open ?c" "buffer_pending ?c = buffer_pending c @ x"
      using BWrite Cons.prems by (auto simp: buffer_defs buffer_pending_def buffer_inv_def)
    with Cons.IH [OF inv] Cons.prems(3) BWrite show ?thesis by (auto simp: writers_only_def)
  qed (use Cons.prems in \<open>auto simp: writers_only_def\<close>)
qed simp

abbreviation buffer_read_all where
  "buffer_read_all block sched c out \<equiv>
     stream_read_all buffer_exec buffer_poll buffer_is_closed (\<lambda>c n. buffer_read True n c) block sched c out"

lemma buffer_read_all_stream:
  assumes "buffer_inv c" and "b_open c" and "0 < block" and "writers_only (concat sched)"
  shows "(case buffer_read_all block sched c out of
      None \<Rightarrow> BClose \<notin> set (concat sched)
    | Some (r, c') \<Rightarrow> BClose \<in> set (concat sched) \<and> \<not> b_open c'
        \<and> (\<exists>lost. r @ lost = out @ buffer_pending c @ until_close (concat sched)))"
  using assms
proof (induction sched arbitrary: c out)
  case (Cons acts sched)
  let ?c = "run_calls buffer_exec acts c"
  have w: "writers_only acts" "writers_only (concat sched)"
    using Cons.prems(4) by (auto simp: writers_only_def)
  note run = writers_run [OF Cons.prems(1,2) w(1)]
  show ?case
  proof (cases "BClose \<in> set acts")
    case True
    with run have "buffer_is_closed ?c" "buffer_poll ?c"
      using buf.closed_poll by (auto simp: buffer_is_closed_def)
    with True run show ?thesis by (auto simp: until_close_append)
  next
    case False
    with run have o: "\<not> buffer_is_closed ?c" "b_open ?c" "buffer_inv ?c"
      and pend: "buffer_pending ?c = buffer_pending c @ until_close acts"
      by (auto simp: buffer_is_closed_def)
    let ?d = "snd (buffer_read True block ?c)"
    have d: "buffer_inv ?d" "b_open ?d"
      using o buffer_read_inv [OF o(3)] by simp_all (auto simp: buffer_read_def Let_def)
    show ?thesis
    proof (cases "buffer_poll ?c")
      case False
      with Cons.IH [OF o(3,2) Cons.prems(3) w(2), of out] \<open>BClose \<notin> set acts\<close> pend show ?thesis
        by (auto simp: until_close_append split: option.splits)
    next
      case True
      let ?o = "out @ take block (buffer_pending ?c)"
      have "take block (buffer_pending ?c) @ buffer_pending ?d = buffer_pending ?c"
        using buffer_read_split [OF o(3), of block] by (metis append_take_drop_id)
      then have "(take block (buffer_pending ?c) @ buffer_pending ?d) @ until_close (concat sched)
          = buffer_pending c @ until_close acts @ until_close (concat sched)"
        by (simp only: pend append_assoc)
      then have eq: "?o @ buffer_pending ?d @ until_close (concat sched)
          = out @ buffer_pending c @ until_close (concat (acts # sched))"
        using \<open>BClose \<notin> set acts\<close> by (simp add: until_close_append)
      have step: "buffer_read_all block (acts # sched) c out = buffer_read_all block sched ?d ?o"
        using True o by (simp add: buf.append_eq Let_def)
      from Cons.IH [OF d Cons.prems(3) w(2), of ?o] \<open>BClose \<notin> set acts\<close> show ?thesis
        unfolding step eq by (auto split: option.splits)
    qed
  qed
qed simp

text \<open>
  \<open>StreamChannel::read_all\<close> on a buffer channel with any concurrent writers returns exactly
  when the channel is closed; what it returns is the bytes pending at the start followed by
  the bytes written before the close, in order, up to what was still unread when the close came.
\<close>

theorem buffer_channel_read_all:
  assumes "buffer_inv c" and "b_open c" and "0 < block" and "writers_only (concat sched)"
  shows "(buffer_read_all block sched c [] \<noteq> None) = (BClose \<in> set (concat sched))
    \<and> (\<forall>r c'. buffer_read_all block sched c [] = Some (r, c') \<longrightarrow> \<not> b_open c' \<and>
         (\<exists>lost. r @ lost = buffer_pending c @ until_close (concat sched)))"
  using buffer_read_all_stream [OF assms, of "[]"] by (auto split: option.splits)

theorem buffer_channel_read_all_witness:
  "\<exists>r c'. buffer_read_all 3 [[BWrite ''Hello''], [], [], [BClose]] buffer_default [] = Some (r, c')
     \<and> (\<exists>lost. r @ lost = ''Hello'')"
  using buffer_channel_read_all [of buffer_default 3 "[[BWrite ''Hello''], [], [], [BClose]]"]
  by (auto simp: buffer_inv_def buffer_default_def writers_only_def buffer_pending_def)

end
