(* ===== verification/Timer_Channel.thy ===== *)
theory Timer_Channel
  imports Channel
begin

text \<open>
  \<open>TimerChannel\<close> of \<open>channel.hpp\<close> and \<open>channel.cpp\<close>. Times and durations are counts of the clock's
  ticks (\<open>int\<close>); the clock is an argument of the operations that read it. A division by a zero
  interval, undefined in C++, is the result \<^const>\<open>None\<close>.
\<close>

section \<open>State and operations\<close>

record timer_channel =
  t_next_tick :: int
  t_count :: nat
  t_delta :: int
  t_open :: bool

definition timer_new :: "int \<Rightarrow> int \<Rightarrow> nat \<Rightarrow> timer_channel" where
  "timer_new now t count =
     (let delta = max t 0
      in \<lparr>t_next_tick = now + delta, t_count = count, t_delta = delta, t_open = True\<rparr>)"

definition timer_close :: "timer_channel \<Rightarrow> timer_channel" where
  "timer_close c = c\<lparr>t_open := False\<rparr>"

definition timer_is_closed :: "timer_channel \<Rightarrow> bool" where
  "timer_is_closed c = (\<not> t_open c)"

definition timer_step :: "nat \<Rightarrow> timer_channel \<Rightarrow> timer_channel" where
  "timer_step n c =
     (let n' = min n (t_count c);
          c1 = c\<lparr>t_count := t_count c - n', t_next_tick := t_next_tick c + int n' * t_delta c\<rparr>
      in if t_count c1 = 0 then c1\<lparr>t_open := False\<rparr> else c1)"

definition timer_flush :: "int \<Rightarrow> timer_channel \<Rightarrow> timer_channel option" where
  "timer_flush now c =
     (if \<not> t_open c then Some c
      else if now < t_next_tick c then Some c
      else if t_delta c = 0 then None
      else let skip = nat (c_div (now - t_next_tick c) (t_delta c)) + 1
           in Some (timer_step skip c))"

text \<open>\<open>now\<close> is the clock when the wait starts; \<open>closing\<close> tells whether another thread closes the
  channel while the wait sleeps.\<close>

definition timer_do_wait_for :: "int \<Rightarrow> bool \<Rightarrow> int \<Rightarrow> timer_channel \<Rightarrow> bool \<times> timer_channel" where
  "timer_do_wait_for now closing t c =
     (if \<not> t_open c then (True, c)
      else if t_next_tick c \<le> now then (True, timer_step 1 c)
      else if t \<le> 0 then (False, c)
      else let remaining = t_next_tick c - now;
               c' = (if closing then timer_close c else c)
           in if t < remaining then (\<not> t_open c', c')
              else (True, if t_open c' then timer_step 1 c' else c'))"

lemmas timer_defs = timer_new_def timer_close_def timer_is_closed_def timer_step_def Let_def

text \<open>The polled channel at a fixed time: a poll consumes the tick it reports.\<close>

interpretation timer: channel "\<lambda>_. True" timer_close timer_is_closed
    "\<lambda>c. fst (timer_do_wait_for now False 0 c)"
  by unfold_locales (auto simp: timer_defs timer_do_wait_for_def)

section \<open>Ticks\<close>













section \<open>Flushing\<close>

text \<open>
  C12. \<open>flush\<close> discards exactly the pending ticks: the next tick is then in the future and at
  most one interval away, unless the limit ran out. On a due timer with interval zero, which the
  constructor accepts (and makes of any negative interval), it divides by zero.
\<close>

theorem timer_flush_catches_up:
  assumes "t_open c" and "0 \<le> t_delta c"
  shows "(timer_flush now c = None) = (t_next_tick c \<le> now \<and> t_delta c = 0)
    \<and> (\<forall>c'. timer_flush now c = Some c' \<and> t_next_tick c \<le> now \<and> t_open c' \<longrightarrow>
          now < t_next_tick c' \<and> t_next_tick c' \<le> now + t_delta c)"
proof (intro conjI allI impI)
  show "(timer_flush now c = None) = (t_next_tick c \<le> now \<and> t_delta c = 0)"
    using assms(1) by (auto simp: timer_flush_def Let_def)
  fix c' assume c': "timer_flush now c = Some c' \<and> t_next_tick c \<le> now \<and> t_open c'"
  let ?late = "now - t_next_tick c"
  have d: "0 < t_delta c" "0 \<le> ?late"
    using c' assms by (auto simp: timer_flush_def Let_def split: if_splits)
  define q where "q = ?late div t_delta c"
  have q: "0 \<le> q" "q * t_delta c \<le> ?late" "?late < (q + 1) * t_delta c"
  proof -
    show "0 \<le> q" using d by (simp add: q_def pos_imp_zdiv_nonneg_iff)
    have "q * t_delta c + ?late mod t_delta c = ?late" by (simp add: q_def)
    moreover have "0 \<le> ?late mod t_delta c" "?late mod t_delta c < t_delta c" using d by simp_all
    ultimately show "q * t_delta c \<le> ?late" "?late < (q + 1) * t_delta c"
      by (auto simp: distrib_right)
  qed
  have step: "c' = timer_step (nat q + 1) c"
    using c' d assms(1) by (auto simp: timer_flush_def Let_def q_def c_div_nonneg split: if_splits)
  with c' have "nat q + 1 < t_count c" by (auto simp: timer_defs split: if_splits)
  with step have "t_next_tick c' = t_next_tick c + (q + 1) * t_delta c"
    using q(1) by (simp add: timer_defs algebra_simps)
  with q show "now < t_next_tick c'" "t_next_tick c' \<le> now + t_delta c"
    by (simp_all add: distrib_right)
qed

theorem timer_flush_catches_up_witness:
  "timer_flush 1 (timer_new 0 (- 5) 7) = None
   \<and> (\<exists>c'. timer_flush 57 (timer_new 0 10 100) = Some c' \<and> 57 < t_next_tick c' \<and> t_next_tick c' \<le> 67)"
proof
  show "timer_flush 1 (timer_new 0 (- 5) 7) = None"
    using timer_flush_catches_up [of "timer_new 0 (- 5) 7" 1] by (simp add: timer_new_def)
  have "\<exists>c'. timer_flush 57 (timer_new 0 10 100) = Some c' \<and> t_open c'"
    by (simp add: timer_flush_def timer_defs c_div_nonneg)
  then show "\<exists>c'. timer_flush 57 (timer_new 0 10 100) = Some c' \<and> 57 < t_next_tick c' \<and> t_next_tick c' \<le> 67"
    using timer_flush_catches_up [of "timer_new 0 10 100" 57] by (auto simp: timer_new_def)
qed

end
