(* ===== verification/Uri_Codec.thy ===== *)
theory Uri_Codec
  imports Prelude
begin

text \<open>
  The percent encoding and the query strings of \<open>uri.cpp\<close> and \<open>uri.hpp\<close>: \<open>encode\<close>, \<open>decode\<close>,
  \<open>make_query\<close>, \<open>parse_query\<close>. The functions of the rs-format library they call are not part of
  the repository: they are the fields of a record \<open>fmt\<close>, an argument of every definition that
  uses them, and \<open>fmt_ok\<close> names what the code relies on. \<open>ascii_fmt\<close> is a concrete instance.
\<close>

section \<open>The functions of rs-format\<close>

record fmt =
  isalnum_w :: "char \<Rightarrow> bool"
  isxdigit :: "char \<Rightarrow> bool"
  iscntrl :: "char \<Rightarrow> bool"
  lowercase :: "string \<Rightarrow> string"
  hex8 :: "8 word \<Rightarrow> string"
  to_uint8 :: "string \<Rightarrow> nat \<Rightarrow> 8 word"
  split_at :: "string \<Rightarrow> string \<Rightarrow> string list"
  partition_at :: "string \<Rightarrow> string \<Rightarrow> string \<times> string"

fun join_with :: "char \<Rightarrow> string list \<Rightarrow> string" where
  "join_with d [] = []"
| "join_with d [e] = e"
| "join_with d (e # es) = e @ d # join_with d es"

definition word_chars :: "char set" where
  "word_chars = set ''0123456789ABCDEFGHIJKLMNOPQRSTUVWXYZ_abcdefghijklmnopqrstuvwxyz''"

definition xdigit_chars :: "char set" where
  "xdigit_chars = set ''0123456789ABCDEFabcdef''"

definition fmt_ok :: "fmt \<Rightarrow> bool" where
  "fmt_ok F \<longleftrightarrow>
     (\<forall>b. length (hex8 F b) = 2 \<and> (\<forall>c \<in> set (hex8 F b). isxdigit F c) \<and> to_uint8 F (hex8 F b) 16 = b)
     \<and> (\<forall>c. isalnum_w F c \<longleftrightarrow> c \<in> word_chars)
     \<and> (\<forall>c. isxdigit F c \<longleftrightarrow> c \<in> xdigit_chars)
     \<and> (\<forall>c. iscntrl F c \<longleftrightarrow> (of_char c :: nat) < 32 \<or> (of_char c :: nat) = 127)
     \<and> (\<forall>d es. es \<noteq> [] \<and> (\<forall>e \<in> set es. e \<noteq> [] \<and> d \<notin> set e) \<longrightarrow> split_at F (join_with d es) [d] = es)
     \<and> (\<forall>d k v. d \<notin> set k \<and> d \<notin> set v \<longrightarrow>
          partition_at F (k @ d # v) [d] = (k, v) \<and> partition_at F k [d] = (k, []))"

lemma fmt_ok_hex8:
  "fmt_ok F \<Longrightarrow> length (hex8 F b) = 2 \<and> (\<forall>c \<in> set (hex8 F b). isxdigit F c) \<and> to_uint8 F (hex8 F b) 16 = b"
  unfolding fmt_ok_def by blast

lemma fmt_ok_alnum: "fmt_ok F \<Longrightarrow> isalnum_w F c \<longleftrightarrow> c \<in> word_chars"
  unfolding fmt_ok_def by blast

lemma fmt_ok_xdigit: "fmt_ok F \<Longrightarrow> isxdigit F c \<longleftrightarrow> c \<in> xdigit_chars"
  unfolding fmt_ok_def by blast

lemma fmt_ok_cntrl: "fmt_ok F \<Longrightarrow> iscntrl F c \<longleftrightarrow> (of_char c :: nat) < 32 \<or> (of_char c :: nat) = 127"
  unfolding fmt_ok_def by blast

lemma fmt_ok_split:
  "fmt_ok F \<Longrightarrow> es \<noteq> [] \<Longrightarrow> \<forall>e \<in> set es. e \<noteq> [] \<and> d \<notin> set e \<Longrightarrow> split_at F (join_with d es) [d] = es"
  unfolding fmt_ok_def by blast

lemma fmt_ok_partition:
  assumes "fmt_ok F" "d \<notin> set k" "d \<notin> set v"
  shows "partition_at F (k @ d # v) [d] = (k, v)" "partition_at F k [d] = (k, [])"
  using assms unfolding fmt_ok_def by blast+

lemma xdigit_word: "c \<in> xdigit_chars \<Longrightarrow> c \<in> word_chars"
  by (auto simp: xdigit_chars_def word_chars_def)

text \<open>The punctuation the code relies on: none of it is a word character.\<close>

lemma punct_not_word [simp]:
  "CHR ''%'' \<notin> word_chars" "CHR ''/'' \<notin> word_chars" "CHR '':'' \<notin> word_chars" "CHR ''@'' \<notin> word_chars"
  "CHR ''?'' \<notin> word_chars" "CHR ''#'' \<notin> word_chars" "CHR ''='' \<notin> word_chars" "CHR ''&'' \<notin> word_chars"
  "CHR '';'' \<notin> word_chars" "CHR '' '' \<notin> word_chars"
  by (simp_all add: word_chars_def)

section \<open>Percent encoding\<close>

definition is_safe :: "fmt \<Rightarrow> string \<Rightarrow> char \<Rightarrow> bool" where
  "is_safe F ex c \<longleftrightarrow>
     isalnum_w F c \<or> c = CHR ''-'' \<or> c = CHR ''.'' \<or> c = CHR ''~'' \<or> c \<in> set ex"

text \<open>Each round of the loop copies the run of safe characters and encodes the next one.\<close>

function encode :: "fmt \<Rightarrow> string \<Rightarrow> string \<Rightarrow> string" where
  "encode F ex s =
     takeWhile (is_safe F ex) s
     @ (case dropWhile (is_safe F ex) s of
          [] \<Rightarrow> []
        | c # r \<Rightarrow> CHR ''%'' # hex8 F (byte_of_char c) @ encode F ex r)"
  by auto

termination
proof (relation "measure (\<lambda>(F, ex, s). length s)")
  fix F :: fmt and ex s :: string and c r
  assume "dropWhile (is_safe F ex) s = c # r"
  then have "length (c # r) \<le> length s" by (metis length_dropWhile_le)
  then show "((F, ex, r), F, ex, s) \<in> measure (\<lambda>(F, ex, s). length s)" by simp
qed simp

declare encode.simps [simp del]

text \<open>\<open>decode\<close> works by positions: \<open>decode_from s i\<close> is what the loop appends from \<open>i\<close> on.\<close>

function decode_from :: "fmt \<Rightarrow> string \<Rightarrow> nat \<Rightarrow> string" where
  "decode_from F s i =
     (if length s \<le> i then []
      else case find_from ((=) CHR ''%'') s i of
          None \<Rightarrow> drop i s
        | Some j \<Rightarrow>
            if length s - 3 < j then drop i s
            else substr s i (j - i)
              @ (if isxdigit F (s ! (j + 1)) \<and> isxdigit F (s ! (j + 2))
                 then char_of_byte (to_uint8 F (substr s (j + 1) 2) 16) # decode_from F s (j + 3)
                 else CHR ''%'' # decode_from F s (j + 1)))"
  by auto

termination
proof (relation "measure (\<lambda>(F, s, i). length s - i)")
  fix F :: fmt and s :: string and i j
  assume "\<not> length s \<le> i" and "find_from ((=) CHR ''%'') s i = Some j"
  moreover from find_from_Some [OF this(2)] have "i \<le> j" by simp
  ultimately show "((F, s, j + 3), F, s, i) \<in> measure (\<lambda>(F, s, i). length s - i)"
    and "((F, s, j + 1), F, s, i) \<in> measure (\<lambda>(F, s, i). length s - i)"
    by auto
qed simp

declare decode_from.simps [simp del]

definition decode :: "fmt \<Rightarrow> string \<Rightarrow> string" where
  "decode F s = (if length s < 3 then s else decode_from F s 0)"

subsection \<open>Reference versions, one character at a time\<close>

definition enc_char :: "fmt \<Rightarrow> string \<Rightarrow> char \<Rightarrow> string" where
  "enc_char F ex c = (if is_safe F ex c then [c] else CHR ''%'' # hex8 F (byte_of_char c))"

fun dec :: "fmt \<Rightarrow> string \<Rightarrow> string" where
  "dec F (c # a # b # r) =
     (if c = CHR ''%'' \<and> isxdigit F a \<and> isxdigit F b
      then char_of_byte (to_uint8 F [a, b] 16) # dec F r
      else c # dec F (a # b # r))"
| "dec F s = s"

lemma encode_concat: "encode F ex s = concat (map (enc_char F ex) s)"
proof (induction "length s" arbitrary: s rule: less_induct)
  case less
  let ?t = "takeWhile (is_safe F ex) s"
  have safe: "concat (map (enc_char F ex) t) = t" if "\<forall>c \<in> set t. is_safe F ex c" for t
    using that by (induction t) (simp_all add: enc_char_def)
  have t: "concat (map (enc_char F ex) ?t) = ?t"
    by (rule safe) (auto dest: set_takeWhileD)
  show ?case
  proof (cases "dropWhile (is_safe F ex) s")
    case Nil
    then have "s = ?t" by (metis append_Nil2 takeWhile_dropWhile_id)
    with t show ?thesis by (subst encode.simps) (simp add: Nil)
  next
    case (Cons c r)
    then have s: "s = ?t @ c # r" by (metis takeWhile_dropWhile_id)
    then have "length r < length s" by (metis length_append length_Cons less_add_Suc2 add.commute
          add_Suc_right less_Suc_eq_le le_add1)
    from less [OF this] have r: "encode F ex r = concat (map (enc_char F ex) r)" .
    have c: "\<not> is_safe F ex c" using Cons by (simp add: dropWhile_eq_Cons_conv)
    have "concat (map (enc_char F ex) s) = ?t @ enc_char F ex c @ concat (map (enc_char F ex) r)"
      by (subst s) (simp add: t)
    with r c show ?thesis
      by (subst encode.simps) (simp add: Cons enc_char_def)
  qed
qed

lemma dec_short [simp]: "length s < 3 \<Longrightarrow> dec F s = s"
  by (cases "(F, s)" rule: dec.cases) auto

lemma dec_plain: "c \<noteq> CHR ''%'' \<Longrightarrow> dec F (c # s) = c # dec F s"
  by (cases "(F, c # s)" rule: dec.cases) auto

lemma dec_plain_run: "CHR ''%'' \<notin> set t \<Longrightarrow> dec F (t @ s) = t @ dec F s"
  by (induction t) (auto simp: dec_plain simp del: dec.simps)

lemma decode_from_dec: "3 \<le> length s \<Longrightarrow> decode_from F s i = dec F (drop i s)"
proof (induction F s i rule: decode_from.induct)
  case (1 F s i)
  show ?case
  proof (cases "length s \<le> i")
    case True
    then show ?thesis by (simp add: decode_from.simps)
  next
    case False
    show ?thesis
    proof (cases "find_from ((=) CHR ''%'') s i")
      case None
      have "CHR ''%'' \<notin> set (drop i s)"
      proof
        assume "CHR ''%'' \<in> set (drop i s)"
        then obtain n where "n < length s - i" "s ! (i + n) = CHR ''%''" by (auto simp: in_set_conv_nth)
        with find_from_None [OF None] show False by (metis le_add1 less_diff_conv add.commute)
      qed
      from dec_plain_run [OF this, of F "[]"] have "dec F (drop i s) = drop i s" by simp
      with None False show ?thesis by (simp add: decode_from.simps [of F s i])
    next
      case (Some j)
      note j = find_from_Some [OF Some]
      define t where "t = substr s i (j - i)"
      have split: "drop i s = t @ drop j s"
      proof -
        have "drop (j - i) (drop i s) = drop j s" using j by simp
        then show ?thesis unfolding t_def substr_def by (metis append_take_drop_id)
      qed
      have "CHR ''%'' \<notin> set t"
      proof
        assume "CHR ''%'' \<in> set t"
        then obtain n where "n < length t" "t ! n = CHR ''%''" by (auto simp: in_set_conv_nth)
        then have "i + n < j" "s ! (i + n) = CHR ''%''" using j by (auto simp: t_def substr_def)
        with j show False by (metis le_add1)
      qed
      note plain = dec_plain_run [OF this, of F "drop j s"]
      show ?thesis
      proof (cases "length s - 3 < j")
        case True
        then have "length (drop j s) < 3" by simp
        with plain split have "dec F (drop i s) = drop i s" by simp
        with Some False True show ?thesis by (simp add: decode_from.simps [of F s i])
      next
        case ok: False
        have dj: "drop j s = CHR ''%'' # s ! (j + 1) # s ! (j + 2) # drop (j + 3) s"
        proof -
          have "drop j s = s ! j # drop (Suc j) s" using j by (simp add: Cons_nth_drop_Suc)
          moreover have "drop (Suc j) s = s ! (Suc j) # drop (Suc (Suc j)) s"
            using "1.prems" j ok False by (simp add: Cons_nth_drop_Suc)
          moreover have "drop (Suc (Suc j)) s = s ! (Suc (Suc j)) # drop (Suc (Suc (Suc j))) s"
            using "1.prems" j ok False by (simp add: Cons_nth_drop_Suc)
          ultimately show ?thesis using j by (simp add: numeral_3_eq_3)
        qed
        then have dj1: "drop (j + 1) s = s ! (j + 1) # s ! (j + 2) # drop (j + 3) s"
          by (metis add.commute drop_drop drop0 drop_Suc_Cons One_nat_def)
        have sub: "substr s (j + 1) 2 = [s ! (j + 1), s ! (j + 2)]"
          unfolding substr_def dj1 by simp
        show ?thesis
        proof (cases "isxdigit F (s ! (j + 1)) \<and> isxdigit F (s ! (j + 2))")
          case True
          have "dec F (drop i s) = t @ char_of_byte (to_uint8 F (substr s (j + 1) 2) 16) # dec F (drop (j + 3) s)"
            unfolding split plain unfolding dj sub using True by simp
          moreover have "decode_from F s (j + 3) = dec F (drop (j + 3) s)"
            using "1.IH" [OF False Some ok] True "1.prems" by simp
          ultimately show ?thesis
            using True Some False ok by (simp add: decode_from.simps [of F s i] t_def)
        next
          case no: False
          have "dec F (drop i s) = t @ CHR ''%'' # dec F (drop (j + 1) s)"
            unfolding split plain unfolding dj dj1 using no by auto
          moreover have "decode_from F s (j + 1) = dec F (drop (j + 1) s)"
            using "1.IH" [OF False Some ok] no "1.prems" by simp
          ultimately show ?thesis
            using no Some False ok by (auto simp: decode_from.simps [of F s i] t_def)
        qed
      qed
    qed
  qed
qed

lemma decode_dec: "decode F s = dec F s"
  by (simp add: decode_def decode_from_dec)

lemma length_dec: "length (dec F s) \<le> length s"
  by (induction F s rule: dec.induct) auto

text \<open>
  The loop of \<open>decode\<close>, which searches for the next percent sign and stops two characters
  before the end, is the plain left-to-right replacement of \<open>%XX\<close>; a percent sign that does
  not start an escape stays, and decoding never makes a string longer.
\<close>

theorem decode_spec:
  "decode F s = dec F s \<and> length (decode F s) \<le> length s"
  by (simp add: decode_dec length_dec)

subsection \<open>Round trip\<close>

lemma fmt_ok_hex:
  assumes "fmt_ok F"
  obtains a b where "hex8 F w = [a, b]" "isxdigit F a" "isxdigit F b" "to_uint8 F [a, b] 16 = w"
proof -
  note h = fmt_ok_hex8 [OF assms, of w]
  then obtain a b where "hex8 F w = [a, b]" by (auto simp: length_Suc_conv numeral_2_eq_2)
  with h that show thesis by simp
qed

lemma dec_enc_char:
  assumes "fmt_ok F" and "CHR ''%'' \<notin> set ex"
  shows "dec F (enc_char F ex c @ s) = c # dec F s"
proof (cases "is_safe F ex c")
  case True
  have "\<not> isalnum_w F (CHR ''%'')" using fmt_ok_alnum [OF assms(1)] by simp
  with assms(2) have "\<not> is_safe F ex (CHR ''%'')" by (simp add: is_safe_def)
  with True have "c \<noteq> CHR ''%''" by auto
  with True show ?thesis by (simp add: enc_char_def dec_plain)
next
  case False
  obtain a b where "hex8 F (byte_of_char c) = [a, b]" "isxdigit F a" "isxdigit F b"
      "to_uint8 F [a, b] 16 = byte_of_char c"
    using fmt_ok_hex [OF assms(1), of "byte_of_char c"] .
  with False show ?thesis by (simp add: enc_char_def)
qed

lemma decode_encode:
  assumes "fmt_ok F" and "CHR ''%'' \<notin> set ex"
  shows "decode F (encode F ex s) = s"
  using assms by (induction s) (simp_all add: decode_dec encode_concat dec_enc_char)

lemma encode_chars:
  assumes "fmt_ok F" and "c \<in> set (encode F ex s)"
  shows "c = CHR ''%'' \<or> is_safe F ex c"
proof -
  from assms(2) obtain d where d: "c \<in> set (enc_char F ex d)" by (auto simp: encode_concat)
  obtain a b where h: "hex8 F (byte_of_char d) = [a, b]" "isxdigit F a" "isxdigit F b"
    using fmt_ok_hex [OF assms(1), of "byte_of_char d"] .
  have "isxdigit F x \<longrightarrow> isalnum_w F x" for x
    using fmt_ok_alnum [OF assms(1)] fmt_ok_xdigit [OF assms(1)] xdigit_word by simp
  with d h show ?thesis by (auto simp: enc_char_def is_safe_def split: if_splits)
qed

lemma encode_clean:
  assumes "fmt_ok F" and "c \<notin> set ex" and "c \<noteq> CHR ''%''" and "c \<noteq> CHR ''-''" and "c \<noteq> CHR ''.''"
    and "c \<noteq> CHR ''~''" and "\<not> isalnum_w F c"
  shows "c \<notin> set (encode F ex s)"
  using encode_chars [OF assms(1)] assms(2-) by (auto simp: is_safe_def)

lemma encode_Nil_iff [simp]: "encode F ex s = [] \<longleftrightarrow> s = []"
  by (cases s) (auto simp: encode_concat enc_char_def)

lemma encode_Nil [simp]: "encode F ex [] = []"
  by simp

section \<open>A concrete rs-format\<close>

definition nibble :: "nat \<Rightarrow> char" where
  "nibble n = ''0123456789abcdef'' ! n"

definition nibble_val :: "char \<Rightarrow> nat" where
  "nibble_val c =
     (let n = of_char c in if n < 58 then n - 48 else if n < 97 then n - 55 else n - 87)"

fun split_char :: "char \<Rightarrow> string \<Rightarrow> string \<Rightarrow> string list" where
  "split_char d acc [] = (if acc = [] then [] else [acc])"
| "split_char d acc (c # s) =
     (if c = d then (if acc = [] then [] else [acc]) @ split_char d [] s
      else split_char d (acc @ [c]) s)"

definition ascii_fmt :: fmt where
  "ascii_fmt =
     \<lparr>isalnum_w = (\<lambda>c. c \<in> word_chars),
      isxdigit = (\<lambda>c. c \<in> xdigit_chars),
      iscntrl = (\<lambda>c. (of_char c :: nat) < 32 \<or> (of_char c :: nat) = 127),
      lowercase = map (\<lambda>c. if 65 \<le> (of_char c :: nat) \<and> (of_char c :: nat) \<le> 90 then char_of (of_char c + 32 :: nat) else c),
      hex8 = (\<lambda>b. [nibble (unat b div 16), nibble (unat b mod 16)]),
      to_uint8 = (\<lambda>s n. of_nat (foldl (\<lambda>a c. a * n + nibble_val c) 0 s)),
      split_at = (\<lambda>s ds. split_char (hd ds) [] s),
      partition_at = (\<lambda>s ds. (takeWhile (\<lambda>c. c \<noteq> hd ds) s, dropWhile (\<lambda>c. c = hd ds) (dropWhile (\<lambda>c. c \<noteq> hd ds) s)))\<rparr>"

lemma nibble_props: "n < 16 \<Longrightarrow> nibble n \<in> xdigit_chars \<and> nibble_val (nibble n) = n"
proof -
  assume "n < 16"
  then have "n \<in> set [0..<16]" by simp
  moreover have "\<forall>m \<in> set [0..<16]. nibble m \<in> xdigit_chars \<and> nibble_val (nibble m) = m"
    by code_simp
  ultimately show ?thesis by blast
qed

lemma split_char_plain: "d \<notin> set t \<Longrightarrow> split_char d acc (t @ s) = split_char d (acc @ t) s"
  by (induction t arbitrary: acc) auto

lemma split_char_join:
  "es \<noteq> [] \<Longrightarrow> \<forall>e \<in> set es. e \<noteq> [] \<and> d \<notin> set e \<Longrightarrow> split_char d [] (join_with d es) = es"
proof (induction d es rule: join_with.induct)
  case (2 d e)
  then show ?case using split_char_plain [of d e "[]" "[]"] by simp
next
  case (3 d e f es)
  then show ?case using split_char_plain [of d e "[]"] by simp
qed simp

lemma ascii_fmt_ok: "fmt_ok ascii_fmt"
proof -
  have hex: "length (hex8 ascii_fmt b) = 2 \<and> (\<forall>c \<in> set (hex8 ascii_fmt b). isxdigit ascii_fmt c)
      \<and> to_uint8 ascii_fmt (hex8 ascii_fmt b) 16 = b" for b
  proof -
    have "unat b < 256" using unsigned_less [of b] by simp
    then have "unat b div 16 < 16" "unat b mod 16 < 16" by auto
    note n = nibble_props [OF this(1)] nibble_props [OF this(2)]
    have "unat b div 16 * 16 + unat b mod 16 = unat b" by simp
    then have "of_nat (unat b div 16 * 16 + unat b mod 16) = b" by (simp only: of_nat_unat ucast_id)
    then have "word_of_nat (unat b div 16) * 16 + word_of_nat (unat b mod 16) = b"
      by (simp only: of_nat_add of_nat_mult of_nat_numeral)
    with n show ?thesis by (simp add: ascii_fmt_def)
  qed
  have split: "split_at ascii_fmt (join_with d es) [d] = es"
    if "es \<noteq> [] \<and> (\<forall>e \<in> set es. e \<noteq> [] \<and> d \<notin> set e)" for d es
    using split_char_join [of es d] that by (simp add: ascii_fmt_def)
  have part: "partition_at ascii_fmt (k @ d # v) [d] = (k, v) \<and> partition_at ascii_fmt k [d] = (k, [])"
    if "d \<notin> set k \<and> d \<notin> set v" for d k v
  proof -
    from that have "\<forall>c \<in> set k. c \<noteq> d" "\<forall>c \<in> set v. c \<noteq> d" by auto
    moreover from this(2) have "dropWhile (\<lambda>c. c = d) v = v" by (cases v) auto
    ultimately show ?thesis
      by (simp add: ascii_fmt_def takeWhile_append2 dropWhile_append2 takeWhile_eq_all_conv [THEN iffD2]
          dropWhile_eq_Nil_conv [THEN iffD2])
  qed
  have chars: "isalnum_w ascii_fmt c \<longleftrightarrow> c \<in> word_chars" "isxdigit ascii_fmt c \<longleftrightarrow> c \<in> xdigit_chars"
    "iscntrl ascii_fmt c \<longleftrightarrow> (of_char c :: nat) < 32 \<or> (of_char c :: nat) = 127" for c
    by (simp_all add: ascii_fmt_def)
  show ?thesis
    unfolding fmt_ok_def by (intro conjI allI impI hex chars split part) auto
qed

text \<open>
  C9. Decoding undoes encoding, as long as the percent sign itself is not exempted, and the
  encoded text contains nothing but safe characters and percent signs.
\<close>

theorem decode_encode_roundtrip:
  assumes "fmt_ok F" and "CHR ''%'' \<notin> set ex"
  shows "decode F (encode F ex s) = s \<and> (\<forall>c \<in> set (encode F ex s). c = CHR ''%'' \<or> is_safe F ex c)"
  using decode_encode [OF assms] encode_chars [OF assms(1)] by blast

theorem decode_encode_roundtrip_witness:
  "decode ascii_fmt (encode ascii_fmt '':/'' ''/a b/%41?'') = ''/a b/%41?''
   \<and> encode ascii_fmt '':/'' ''/a b/%41?'' = ''/a%20b/%2541%3f''"
proof
  show "decode ascii_fmt (encode ascii_fmt '':/'' ''/a b/%41?'') = ''/a b/%41?''"
    using decode_encode_roundtrip [OF ascii_fmt_ok, of "'':/''"] by simp
  show "encode ascii_fmt '':/'' ''/a b/%41?'' = ''/a%20b/%2541%3f''"
    by (simp add: encode_concat enc_char_def is_safe_def ascii_fmt_def nibble_def byte_of_char_def word_chars_def)
qed

section \<open>Query strings\<close>

definition lone_keys :: int where
  "lone_keys = 1"

fun query_loop :: "fmt \<Rightarrow> char \<Rightarrow> bool \<Rightarrow> string \<Rightarrow> (string \<times> string) list \<Rightarrow> string" where
  "query_loop F delimiter lone q [] = q"
| "query_loop F delimiter lone q ((k, v) # kvs) =
     query_loop F delimiter lone
       (q @ encode F [] k @ (if \<not> lone \<or> v \<noteq> [] then ''='' else []) @ encode F [] v @ [delimiter]) kvs"

definition make_query :: "fmt \<Rightarrow> (string \<times> string) list \<Rightarrow> char \<Rightarrow> int \<Rightarrow> string" where
  "make_query F kvs delimiter flags =
     (let lone = (and flags lone_keys \<noteq> 0);
          q = query_loop F delimiter lone [] kvs
      in if q \<noteq> [] then butlast q else q)"

definition parse_query :: "fmt \<Rightarrow> string \<Rightarrow> char \<Rightarrow> (string \<times> string) list" where
  "parse_query F query delimiter =
     (let delimiter' =
            (if delimiter = CHR 0x00
             then (case find_from (\<lambda>c. c \<in> set ''&;'') query 0 of None \<Rightarrow> CHR ''&'' | Some pos \<Rightarrow> query ! pos)
             else delimiter)
      in map (\<lambda>entry. let kv = partition_at F entry ''='' in (decode F (fst kv), decode F (snd kv)))
           (split_at F query [delimiter']))"

text \<open>One entry of the query string.\<close>

definition query_entry :: "fmt \<Rightarrow> bool \<Rightarrow> string \<times> string \<Rightarrow> string" where
  "query_entry F lone = (\<lambda>(k, v). encode F [] k @ (if \<not> lone \<or> v \<noteq> [] then ''='' else []) @ encode F [] v)"

lemma query_loop_concat:
  "query_loop F d lone q kvs = q @ concat (map (\<lambda>kv. query_entry F lone kv @ [d]) kvs)"
  by (induction F d lone q kvs rule: query_loop.induct) (simp_all add: query_entry_def)

lemma butlast_join: "es \<noteq> [] \<Longrightarrow> butlast (concat (map (\<lambda>e. e @ [d]) es)) = join_with d es"
  by (induction d es rule: join_with.induct) (simp_all add: butlast_append)

lemma make_query_join:
  "make_query F kvs d flags = join_with d (map (query_entry F (and flags lone_keys \<noteq> 0)) kvs)"
proof (cases "kvs = []")
  case True
  then show ?thesis by (simp add: make_query_def)
next
  case False
  let ?es = "map (query_entry F (and flags lone_keys \<noteq> 0)) kvs"
  have q: "query_loop F d (and flags lone_keys \<noteq> 0) [] kvs = concat (map (\<lambda>e. e @ [d]) ?es)"
    by (simp add: query_loop_concat o_def)
  have "concat (map (\<lambda>e. e @ [d]) ?es) \<noteq> []" using False by (cases kvs) auto
  then show ?thesis using False butlast_join [of ?es d] by (simp add: make_query_def Let_def q)
qed

lemma encode_key_chars:
  assumes "fmt_ok F" and "c \<in> set ''&;=/:@?#''"
  shows "c \<notin> set (encode F [] s)"
  using assms(2) by (intro encode_clean [OF assms(1)]) (auto simp: fmt_ok_alnum [OF assms(1)])

lemma query_entry_clean:
  assumes "fmt_ok F" and "e = query_entry F lone kv" and "c \<in> set e"
  shows "c \<notin> set ''&;/:@?#''"
proof
  assume c: "c \<in> set ''&;/:@?#''"
  then have "c \<notin> set (encode F [] s)" for s by (intro encode_key_chars [OF assms(1)]) auto
  with assms(2,3) have "c = CHR ''=''" by (cases kv) (auto simp: query_entry_def split: if_splits)
  with c show False by simp
qed

lemma join_with_first:
  "\<forall>e \<in> set es. \<forall>c \<in> set e. \<not> P c \<Longrightarrow> P d \<Longrightarrow>
     find_from P (join_with d es) 0 = None \<and> length es \<le> 1 \<or> (\<exists>pos. find_from P (join_with d es) 0 = Some pos \<and> join_with d es ! pos = d)"
proof (induction d es rule: join_with.induct)
  case (3 d e f es)
  then have "find_from P (e @ d # join_with d (f # es)) 0 = Some (length e)"
    by (intro find_from_0_append) auto
  then show ?case by simp
qed auto

lemma split_query:
  assumes "fmt_ok F" and "kvs \<noteq> []" and "d \<in> set ''&;/:@?#''"
    and "and flags lone_keys \<noteq> 0 \<longrightarrow> ([], []) \<notin> set kvs"
  shows "split_at F (make_query F kvs d flags) [d] = map (query_entry F (and flags lone_keys \<noteq> 0)) kvs"
  unfolding make_query_join
proof (rule fmt_ok_split [OF assms(1)])
  show "\<forall>e \<in> set (map (query_entry F (and flags lone_keys \<noteq> 0)) kvs). e \<noteq> [] \<and> d \<notin> set e"
  proof
    fix e assume "e \<in> set (map (query_entry F (and flags lone_keys \<noteq> 0)) kvs)"
  then obtain k v where e: "e = query_entry F (and flags lone_keys \<noteq> 0) (k, v)" "(k, v) \<in> set kvs"
    by auto
  then have "d \<notin> set e" using query_entry_clean [OF assms(1)] assms(3) by blast
  with e assms(4) show "e \<noteq> [] \<and> d \<notin> set e" by (auto simp: query_entry_def)
  qed
qed (use assms(2) in simp)

lemma parse_entry:
  assumes "fmt_ok F"
  shows "(let kv' = partition_at F (query_entry F lone kv) ''='' in (decode F (fst kv'), decode F (snd kv'))) = kv"
proof -
  obtain k v where kv: "kv = (k, v)" by (cases kv)
  have clean: "CHR ''='' \<notin> set (encode F [] s)" for s by (rule encode_key_chars [OF assms]) simp
  have nil: "decode F [] = []" by (simp add: decode_dec)
  from fmt_ok_partition [OF assms clean [of k] clean [of v]] decode_encode [OF assms, of "[]"] nil
  show ?thesis unfolding kv query_entry_def by auto
qed

text \<open>
  C10. Parsing the query string made from a list of keys and values gives the list back: with the
  delimiter it was made with, and for the two usual delimiters also without naming it. Entries with
  nothing in them are the exception when keys are allowed to stand alone.
\<close>

theorem query_roundtrip:
  assumes "fmt_ok F" and "kvs \<noteq> []" and "d \<in> set ''&;/:@?#''"
    and "and flags lone_keys \<noteq> 0 \<longrightarrow> ([], []) \<notin> set kvs"
  shows "parse_query F (make_query F kvs d flags) d = kvs
    \<and> (d \<in> set ''&;'' \<longrightarrow> parse_query F (make_query F kvs d flags) CHR 0x00 = kvs)"
proof -
  let ?lone = "and flags lone_keys \<noteq> 0"
  have "d \<noteq> CHR 0x00" using assms(3) by auto
  then have "parse_query F (make_query F kvs d flags) d = kvs"
    using split_query [OF assms] parse_entry [OF assms(1)] by (simp add: parse_query_def o_def)
  moreover have "parse_query F (make_query F kvs d flags) CHR 0x00 = kvs" if d: "d \<in> set ''&;''"
  proof -
    let ?P = "\<lambda>c. c \<in> set ''&;''"
    have "\<forall>e \<in> set (map (query_entry F ?lone) kvs). \<forall>c \<in> set e. \<not> ?P c"
      using query_entry_clean [OF assms(1)] by auto
    from join_with_first [of _ ?P, OF this d] consider
        (one) "find_from ?P (make_query F kvs d flags) 0 = None" "length kvs \<le> 1"
      | (more) pos where "find_from ?P (make_query F kvs d flags) 0 = Some pos" "make_query F kvs d flags ! pos = d"
      unfolding make_query_join by fastforce
    then show ?thesis
    proof cases
      case one
      then have "length kvs = 1" using assms(2) by (cases kvs) auto
      then have "make_query F kvs d flags = make_query F kvs CHR ''&'' flags"
        by (auto simp: make_query_join length_Suc_conv)
      moreover have "CHR ''&'' \<in> set ''&;/:@?#''" by simp
      ultimately show ?thesis
        using one split_query [OF assms(1,2) _ assms(4), of "CHR ''&''"] parse_entry [OF assms(1)]
        by (simp add: parse_query_def o_def)
    next
      case more
      then show ?thesis
        using split_query [OF assms] parse_entry [OF assms(1)] by (simp add: parse_query_def o_def)
    qed
  qed
  ultimately show ?thesis by blast
qed

theorem query_roundtrip_witness:
  "parse_query ascii_fmt (make_query ascii_fmt [(''a'', ''1 2''), (''b'', []), (''&'', ''x=y'')] CHR '';'' lone_keys) CHR 0x00
     = [(''a'', ''1 2''), (''b'', []), (''&'', ''x=y'')]"
  using query_roundtrip [OF ascii_fmt_ok, of "[(''a'', ''1 2''), (''b'', []), (''&'', ''x=y'')]" "CHR '';''" lone_keys]
  by simp

end
