(* ===== verification/Numeric_Text.thy ===== *)
theory Numeric_Text
  imports Prelude
begin

text \<open>
  The numeric conversions of the standard library the sources use: \<open>std::to_string\<close> of an
  unsigned integer and \<open>std::strtoul\<close>/\<open>strtoull\<close> with base ten (64 bits), the latter with its
  skipped white space, optional sign, saturation and end position.
\<close>

definition digit_char :: "nat \<Rightarrow> char" where
  "digit_char n = char_of (48 + n)"

definition is_digit :: "char \<Rightarrow> bool" where
  "is_digit c \<longleftrightarrow> 48 \<le> (of_char c :: nat) \<and> (of_char c :: nat) \<le> 57"

definition digit_val :: "char \<Rightarrow> nat" where
  "digit_val c = of_char c - 48"

definition is_space :: "char \<Rightarrow> bool" where
  "is_space c \<longleftrightarrow> c = CHR '' '' \<or> 9 \<le> (of_char c :: nat) \<and> (of_char c :: nat) \<le> 13"

fun to_string :: "nat \<Rightarrow> string" where
  "to_string n = (if n < 10 then [digit_char n] else to_string (n div 10) @ [digit_char (n mod 10)])"

declare to_string.simps [simp del]

definition digits_val :: "string \<Rightarrow> nat" where
  "digits_val s = foldl (\<lambda>a c. a * 10 + digit_val c) 0 s"

text \<open>The value and the number of characters consumed.\<close>

definition strtoull :: "string \<Rightarrow> nat \<times> nat" where
  "strtoull s =
     (let ws = takeWhile is_space s;
          s1 = drop (length ws) s;
          sign = (case s1 of c # _ \<Rightarrow> if c = CHR ''-'' \<or> c = CHR ''+'' then [c] else [] | [] \<Rightarrow> []);
          ds = takeWhile is_digit (drop (length sign) s1);
          v = digits_val ds;
          w = (if 2 ^ 64 \<le> v then 2 ^ 64 - 1 else if sign = ''-'' then (2 ^ 64 - v) mod 2 ^ 64 else v)
      in if ds = [] then (0, 0) else (w, length ws + length sign + length ds))"

lemma digit_props:
  assumes "n < 10"
  shows "is_digit (digit_char n)" "digit_val (digit_char n) = n" "\<not> is_space (digit_char n)"
    "digit_char n \<noteq> CHR ''-''" "digit_char n \<noteq> CHR ''+''"
proof -
  have "\<forall>m \<in> set [0..<10]. is_digit (digit_char m) \<and> digit_val (digit_char m) = m \<and> \<not> is_space (digit_char m)
      \<and> digit_char m \<noteq> CHR ''-'' \<and> digit_char m \<noteq> CHR ''+''"
    by code_simp
  moreover from assms have "n \<in> set [0..<10]" by simp
  ultimately show "is_digit (digit_char n)" "digit_val (digit_char n) = n" "\<not> is_space (digit_char n)"
    "digit_char n \<noteq> CHR ''-''" "digit_char n \<noteq> CHR ''+''" by blast+
qed

lemma digits_val_snoc: "digits_val (s @ [c]) = digits_val s * 10 + digit_val c"
  by (simp add: digits_val_def)

lemma to_string_digits: "\<forall>c \<in> set (to_string n). is_digit c"
proof (induction n rule: to_string.induct)
  case (1 n)
  then show ?case by (subst to_string.simps) (auto simp: digit_props)
qed

lemma to_string_nonempty [simp]: "to_string n \<noteq> []"
  by (subst to_string.simps) simp

lemma digits_val_to_string [simp]: "digits_val (to_string n) = n"
proof (induction n rule: to_string.induct)
  case (1 n)
  show ?case
  proof (cases "n < 10")
    case True
    then show ?thesis by (subst to_string.simps) (simp add: digits_val_def digit_props)
  next
    case False
    with 1 have "digits_val (to_string (n div 10)) = n div 10" by simp
    with False show ?thesis
      by (subst to_string.simps) (simp add: digits_val_snoc digit_props)
  qed
qed

lemma to_string_inj: "to_string m = to_string n \<longleftrightarrow> m = n"
  by (metis digits_val_to_string)

lemma digit_not_space: "is_digit c \<Longrightarrow> \<not> is_space c"
  by (auto simp: is_digit_def is_space_def)

lemma digit_not_sign: "is_digit c \<Longrightarrow> c \<noteq> CHR ''-'' \<and> c \<noteq> CHR ''+''"
  by (auto simp: is_digit_def)

lemma strtoull_digits:
  assumes "ds \<noteq> []" and "\<forall>c \<in> set ds. is_digit c" and "r = [] \<or> \<not> is_digit (hd r)" and "digits_val ds < 2 ^ 64"
  shows "strtoull (ds @ r) = (digits_val ds, length ds)"
proof -
  obtain c t where ds: "ds = c # t" using assms(1) by (cases ds) auto
  then have c: "\<not> is_space c" "c \<noteq> CHR ''-''" "c \<noteq> CHR ''+''"
    using assms(2) digit_not_space digit_not_sign by auto
  have run: "takeWhile is_digit (ds @ r) = ds"
    using assms(2,3) by (cases r) (auto simp: takeWhile_append2 takeWhile_eq_all_conv)
  from c ds have "takeWhile is_space (ds @ r) = []" by simp
  with run c ds assms(1,4) show ?thesis by (simp add: strtoull_def Let_def)
qed

lemma strtoull_to_string:
  "n < 2 ^ 64 \<Longrightarrow> r = [] \<or> \<not> is_digit (hd r) \<Longrightarrow> strtoull (to_string n @ r) = (n, length (to_string n))"
  using strtoull_digits [of "to_string n" r] to_string_digits by simp

end
