(* ===== verification/Uri.thy ===== *)
theory Uri
  imports Uri_Codec Numeric_Text
begin

text \<open>
  Class \<open>Uri\<close> of \<open>uri.hpp\<close> and \<open>uri.cpp\<close>: the text and the seven offsets into it, every accessor
  and every operation that changes them. A URI is
  \<open>scheme:[//][[user[:password]@]host[:port]][/path][?query][#fragment]\<close>; the offsets are the
  starts of user, \<open>:password@\<close>, host, \<open>:port\<close>, \<open>/path\<close>, \<open>?query\<close> and \<open>#fragment\<close>.
  The rs-format functions are the parameter \<open>fmt\<close> of \<open>Uri_Codec\<close>; the two regular expressions
  are matched by the rs-regex library, so the matchers are parameters too.
\<close>

section \<open>State\<close>

record uri =
  u_text :: string
  ofs_user :: int
  ofs_password :: int
  ofs_host :: int
  ofs_port :: int
  ofs_path :: int
  ofs_query :: int
  ofs_fragment :: int

definition uri_empty :: uri where
  "uri_empty = \<lparr>u_text = [], ofs_user = 0, ofs_password = 0, ofs_host = 0, ofs_port = 0, ofs_path = 0,
     ofs_query = 0, ofs_fragment = 0\<rparr>"

text \<open>\<open>text_[i]\<close>, and \<open>text_.substr(a, b - a)\<close>.\<close>

definition uri_char :: "uri \<Rightarrow> int \<Rightarrow> char" where
  "uri_char u i = u_text u ! nat i"

definition uri_sub :: "uri \<Rightarrow> int \<Rightarrow> int \<Rightarrow> string" where
  "uri_sub u a b = substr (u_text u) (nat a) (nat (b - a))"

section \<open>Accessors\<close>

definition is_empty :: "uri \<Rightarrow> bool" where
  "is_empty u = (u_text u = [])"

definition has_slashes :: "uri \<Rightarrow> bool" where
  "has_slashes u = (\<not> is_empty u \<and> uri_char u (ofs_user u - 1) = CHR ''/'')"

definition has_user :: "uri \<Rightarrow> bool" where
  "has_user u = (\<not> is_empty u \<and> ofs_password u > ofs_user u)"

definition has_password :: "uri \<Rightarrow> bool" where
  "has_password u = (\<not> is_empty u \<and> ofs_host u - ofs_password u > 1)"

definition has_host :: "uri \<Rightarrow> bool" where
  "has_host u = (\<not> is_empty u \<and> ofs_port u > ofs_host u)"

definition has_port :: "uri \<Rightarrow> bool" where
  "has_port u = (\<not> is_empty u \<and> ofs_path u > ofs_port u)"

definition has_path :: "uri \<Rightarrow> bool" where
  "has_path u = (\<not> is_empty u \<and> ofs_query u - ofs_path u > 1)"

definition has_query :: "uri \<Rightarrow> bool" where
  "has_query u = (\<not> is_empty u \<and> ofs_fragment u > ofs_query u)"

definition has_fragment :: "uri \<Rightarrow> bool" where
  "has_fragment u = (\<not> is_empty u \<and> int (length (u_text u)) > ofs_fragment u)"

definition scheme :: "fmt \<Rightarrow> uri \<Rightarrow> string" where
  "scheme F u =
     (if is_empty u then []
      else lowercase F (substr (u_text u) 0 (nat (ofs_user u - (if has_slashes u then 3 else 1)))))"

definition user :: "fmt \<Rightarrow> uri \<Rightarrow> string" where
  "user F u = decode F (uri_sub u (ofs_user u) (ofs_password u))"

definition password :: "fmt \<Rightarrow> uri \<Rightarrow> string" where
  "password F u = (if has_password u then decode F (uri_sub u (ofs_password u + 1) (ofs_host u - 1)) else [])"

definition host :: "fmt \<Rightarrow> uri \<Rightarrow> string" where
  "host F u = decode F (uri_sub u (ofs_host u) (ofs_port u))"

definition port :: "uri \<Rightarrow> 16 word" where
  "port u = (if has_port u then of_nat (fst (strtoull (drop (nat (ofs_port u + 1)) (u_text u)))) else 0)"

definition path :: "fmt \<Rightarrow> uri \<Rightarrow> string" where
  "path F u = decode F (uri_sub u (ofs_path u) (ofs_query u))"

definition query :: "fmt \<Rightarrow> uri \<Rightarrow> string" where
  "query F u = (if has_query u then decode F (uri_sub u (ofs_query u + 1) (ofs_fragment u)) else [])"

definition fragment :: "fmt \<Rightarrow> uri \<Rightarrow> string" where
  "fragment F u = (if has_fragment u then decode F (drop (nat (ofs_fragment u + 1)) (u_text u)) else [])"

definition is_root :: "uri \<Rightarrow> bool" where
  "is_root u = (\<not> is_empty u \<and> \<not> has_path u \<and> \<not> has_query u \<and> \<not> has_fragment u)"

text \<open>The scan of \<open>find_path_cut\<close> from the end of the path; \<open>n\<close> is how far it may still go.\<close>

fun scan_cut :: "uri \<Rightarrow> nat \<Rightarrow> int \<Rightarrow> int" where
  "scan_cut u 0 i = i + 1"
| "scan_cut u (Suc n) i = (if uri_char u i \<noteq> CHR ''/'' then scan_cut u n (i - 1) else i + 1)"

definition find_path_cut :: "uri \<Rightarrow> int" where
  "find_path_cut u = scan_cut u (nat (ofs_query u - ofs_path u)) (ofs_query u - 1)"

definition path_dir :: "fmt \<Rightarrow> uri \<Rightarrow> string" where
  "path_dir F u = decode F (uri_sub u (ofs_path u) (find_path_cut u))"

definition path_leaf :: "fmt \<Rightarrow> uri \<Rightarrow> string" where
  "path_leaf F u = decode F (uri_sub u (find_path_cut u) (ofs_query u))"

section \<open>Clearing\<close>

definition clear_user :: "uri \<Rightarrow> uri" where
  "clear_user u =
     (if \<not> has_user u then u
      else let delta = ofs_host u - ofs_user u
           in u\<lparr>u_text := str_erase (u_text u) (nat (ofs_user u)) (nat delta),
                ofs_host := ofs_user u, ofs_password := ofs_user u,
                ofs_port := ofs_port u - delta, ofs_path := ofs_path u - delta,
                ofs_query := ofs_query u - delta, ofs_fragment := ofs_fragment u - delta\<rparr>)"

definition clear_password :: "uri \<Rightarrow> uri" where
  "clear_password u =
     (if \<not> has_password u then u
      else let delta = ofs_host u - ofs_password u - 1
           in u\<lparr>u_text := str_replace (u_text u) (nat (ofs_password u)) (nat (ofs_host u - ofs_password u)) ''@'',
                ofs_host := ofs_host u - delta, ofs_port := ofs_port u - delta, ofs_path := ofs_path u - delta,
                ofs_query := ofs_query u - delta, ofs_fragment := ofs_fragment u - delta\<rparr>)"

definition clear_host :: "uri \<Rightarrow> uri" where
  "clear_host u =
     (if \<not> has_host u then u
      else let delta = ofs_port u - ofs_host u
           in u\<lparr>u_text := str_erase (u_text u) (nat (ofs_host u)) (nat delta),
                ofs_port := ofs_port u - delta, ofs_path := ofs_path u - delta,
                ofs_query := ofs_query u - delta, ofs_fragment := ofs_fragment u - delta\<rparr>)"

definition clear_port :: "uri \<Rightarrow> uri" where
  "clear_port u =
     (if \<not> has_port u then u
      else let delta = ofs_path u - ofs_port u
           in u\<lparr>u_text := str_erase (u_text u) (nat (ofs_port u)) (nat delta),
                ofs_path := ofs_path u - delta, ofs_query := ofs_query u - delta,
                ofs_fragment := ofs_fragment u - delta\<rparr>)"

definition clear_path :: "uri \<Rightarrow> uri" where
  "clear_path u =
     (if \<not> has_path u then u
      else let delta = ofs_query u - ofs_path u
           in u\<lparr>u_text := str_erase (u_text u) (nat (ofs_path u)) (nat delta),
                ofs_query := ofs_query u - delta, ofs_fragment := ofs_fragment u - delta\<rparr>)"

definition clear_query :: "uri \<Rightarrow> uri" where
  "clear_query u =
     (if \<not> has_query u then u
      else u\<lparr>u_text := str_erase (u_text u) (nat (ofs_query u)) (nat (ofs_fragment u - ofs_query u)),
             ofs_fragment := ofs_query u\<rparr>)"

definition clear_fragment :: "uri \<Rightarrow> uri" where
  "clear_fragment u =
     (if has_fragment u then u\<lparr>u_text := str_resize (u_text u) (nat (ofs_fragment u)) CHR 0x00\<rparr> else u)"

definition clear :: "uri \<Rightarrow> uri" where
  "clear u = uri_empty"

section \<open>Setting\<close>

definition nonempty_error :: exn where
  "nonempty_error = Invalid_argument ''Individual URI elements can't be set on an empty URI''"

text \<open>\<open>rx_scheme\<close> matches \<open>[a-z][a-z0-9.+-]*(:(//)?)?\<close>: whether groups 1 and 2 took part.\<close>

definition set_scheme :: "fmt \<Rightarrow> (string \<Rightarrow> (bool \<times> bool) option) \<Rightarrow> string \<Rightarrow> bool \<Rightarrow> uri \<Rightarrow> uri res" where
  "set_scheme F rx_scheme new_scheme smart u =
     (let scheme_text = lowercase F new_scheme
      in case rx_scheme scheme_text of
           None \<Rightarrow> Inl (Invalid_argument ''Invalid URI scheme'')
         | Some (m1, m2) \<Rightarrow>
             let scheme_text = (if \<not> m1 then scheme_text @ '':'' else scheme_text);
                 scheme_text = (if smart \<and> \<not> m2 \<and> scheme_text \<noteq> ''mailto:'' then scheme_text @ ''//'' else scheme_text);
                 delta = int (length scheme_text) - ofs_user u
             in Inr (u\<lparr>u_text := str_replace (u_text u) 0 (nat (ofs_user u)) scheme_text,
                       ofs_user := ofs_user u + delta, ofs_password := ofs_password u + delta,
                       ofs_host := ofs_host u + delta, ofs_port := ofs_port u + delta,
                       ofs_path := ofs_path u + delta, ofs_query := ofs_query u + delta,
                       ofs_fragment := ofs_fragment u + delta\<rparr>))"

definition set_user :: "fmt \<Rightarrow> string \<Rightarrow> uri \<Rightarrow> uri res" where
  "set_user F new_user u =
     (if is_empty u then Inl nonempty_error
      else if new_user = [] then Inr (clear_user u)
      else if \<not> has_host u then Inl (Invalid_argument ''Can't set user on URI with no host'')
      else let user_text = encode F [] new_user;
               delta = int (length user_text) - (ofs_password u - ofs_user u)
           in if has_user u
              then Inr (u\<lparr>u_text := str_replace (u_text u) (nat (ofs_user u)) (nat (ofs_password u - ofs_user u)) user_text,
                          ofs_password := ofs_password u + delta, ofs_host := ofs_host u + delta,
                          ofs_port := ofs_port u + delta, ofs_path := ofs_path u + delta,
                          ofs_query := ofs_query u + delta, ofs_fragment := ofs_fragment u + delta\<rparr>)
              else let delta = delta + 1;
                       h = ofs_host u + delta
                   in Inr (u\<lparr>u_text := str_replace (u_text u) (nat (ofs_user u)) (nat (ofs_password u - ofs_user u)) (user_text @ ''@''),
                             ofs_host := h, ofs_password := h - 1,
                             ofs_port := ofs_port u + delta, ofs_path := ofs_path u + delta,
                             ofs_query := ofs_query u + delta, ofs_fragment := ofs_fragment u + delta\<rparr>))"

definition set_password :: "fmt \<Rightarrow> string \<Rightarrow> uri \<Rightarrow> uri res" where
  "set_password F new_password u =
     (if is_empty u then Inl nonempty_error
      else if new_password = [] then Inr (clear_password u)
      else if \<not> has_user u then Inl (Invalid_argument ''Can't set password on URI with no user'')
      else let password_text = '':'' @ encode F [] new_password @ ''@'';
               delta = int (length password_text) - (ofs_host u - ofs_password u)
           in Inr (u\<lparr>u_text := str_replace (u_text u) (nat (ofs_password u)) (nat (ofs_host u - ofs_password u)) password_text,
                     ofs_host := ofs_host u + delta, ofs_port := ofs_port u + delta, ofs_path := ofs_path u + delta,
                     ofs_query := ofs_query u + delta, ofs_fragment := ofs_fragment u + delta\<rparr>))"

definition set_host :: "fmt \<Rightarrow> string \<Rightarrow> uri \<Rightarrow> uri res" where
  "set_host F new_host u =
     (if is_empty u then Inl nonempty_error
      else if new_host = [] then Inr (clear_host u)
      else let host_text = encode F [] new_host;
               delta = int (length host_text) - (ofs_port u - ofs_host u)
           in Inr (u\<lparr>u_text := str_replace (u_text u) (nat (ofs_host u)) (nat (ofs_port u - ofs_host u)) host_text,
                     ofs_port := ofs_port u + delta, ofs_path := ofs_path u + delta,
                     ofs_query := ofs_query u + delta, ofs_fragment := ofs_fragment u + delta\<rparr>))"

definition set_port :: "16 word \<Rightarrow> uri \<Rightarrow> uri res" where
  "set_port new_port u =
     (if is_empty u then Inl nonempty_error
      else if new_port = 0 then Inr (clear_port u)
      else if \<not> has_host u then Inl (Invalid_argument ''Can't set port on URI with no host'')
      else let port_text = '':'' @ to_string (unat new_port);
               delta = int (length port_text) - (ofs_path u - ofs_port u)
           in Inr (u\<lparr>u_text := str_replace (u_text u) (nat (ofs_port u)) (nat (ofs_path u - ofs_port u)) port_text,
                     ofs_path := ofs_path u + delta, ofs_query := ofs_query u + delta,
                     ofs_fragment := ofs_fragment u + delta\<rparr>))"

definition set_path :: "fmt \<Rightarrow> string \<Rightarrow> uri \<Rightarrow> uri res" where
  "set_path F new_path u =
     (if is_empty u then Inl nonempty_error
      else if new_path = [] then Inr (clear_path u)
      else if find_str new_path ''//'' 0 \<noteq> None then Inl (Invalid_argument ''Invalid URI path'')
      else let path_text = encode F '':/'' new_path;
               path_text = (if path_text \<noteq> [] \<and> path_text ! 0 \<noteq> CHR ''/'' then str_insert path_text 0 ''/'' else path_text);
               delta = int (length path_text) - (ofs_query u - ofs_path u)
           in Inr (u\<lparr>u_text := str_replace (u_text u) (nat (ofs_path u)) (nat (ofs_query u - ofs_path u)) path_text,
                     ofs_query := ofs_query u + delta, ofs_fragment := ofs_fragment u + delta\<rparr>))"

definition set_query :: "string \<Rightarrow> uri \<Rightarrow> uri res" where
  "set_query new_query u =
     (if is_empty u then Inl nonempty_error
      else if new_query = [] then Inr (clear_query u)
      else let delta = int (length new_query + 1) - (ofs_fragment u - ofs_query u);
               q = ''?'' @ new_query
           in Inr (u\<lparr>u_text := str_replace (u_text u) (nat (ofs_query u)) (nat (ofs_fragment u - ofs_query u)) q,
                     ofs_fragment := ofs_fragment u + delta\<rparr>))"

definition set_fragment :: "fmt \<Rightarrow> string \<Rightarrow> uri \<Rightarrow> uri res" where
  "set_fragment F new_fragment u =
     (if is_empty u then Inl nonempty_error
      else if new_fragment = [] then Inr (clear_fragment u)
      else Inr (u\<lparr>u_text := str_replace (u_text u) (nat (ofs_fragment u)) (length (u_text u) - nat (ofs_fragment u))
                     (''#'' @ encode F [] new_fragment)\<rparr>))"

definition append_path :: "fmt \<Rightarrow> string \<Rightarrow> uri \<Rightarrow> uri res" where
  "append_path F new_path u =
     (if new_path = [] then Inr u
      else if is_empty u then Inl nonempty_error
      else if new_path ! 0 = CHR ''/'' \<or> \<not> has_path u then set_path F new_path u
      else if find_str new_path ''//'' 0 \<noteq> None then Inl (Invalid_argument ''Invalid URI path'')
      else let path_text = encode F '':/'' new_path;
               path_text = (if uri_char u (ofs_query u - 1) \<noteq> CHR ''/'' then str_insert path_text 0 ''/'' else path_text);
               delta = int (length path_text)
           in Inr (u\<lparr>u_text := str_insert (u_text u) (nat (ofs_query u)) path_text,
                     ofs_query := ofs_query u + delta, ofs_fragment := ofs_fragment u + delta\<rparr>))"

text \<open>The constructor from elements: the setters in the order of the code.\<close>

definition uri_make ::
  "fmt \<Rightarrow> (string \<Rightarrow> (bool \<times> bool) option) \<Rightarrow> string \<Rightarrow> string \<Rightarrow> string \<Rightarrow> string \<Rightarrow> 16 word \<Rightarrow> string \<Rightarrow> string \<Rightarrow> string \<Rightarrow> uri res"
  where
  "uri_make F rx_scheme sch usr pwd hst prt pth qry frg =
     res_bind (set_scheme F rx_scheme sch True uri_empty) (\<lambda>u.
     res_bind (set_host F hst u) (\<lambda>u.
     res_bind (set_user F usr u) (\<lambda>u.
     res_bind (set_password F pwd u) (\<lambda>u.
     res_bind (set_port prt u) (\<lambda>u.
     res_bind (set_path F pth u) (\<lambda>u.
     res_bind (set_query qry u) (\<lambda>u.
     set_fragment F frg u)))))))"

section \<open>Derived URIs\<close>

definition doc :: "uri \<Rightarrow> uri" where
  "doc u = u\<lparr>u_text := str_resize (u_text u) (nat (ofs_fragment u)) CHR 0x00\<rparr>"

definition base :: "uri \<Rightarrow> uri" where
  "base u = u\<lparr>u_text := str_resize (u_text u) (nat (ofs_query u)) CHR 0x00, ofs_fragment := ofs_query u\<rparr>"

text \<open>\<open>while (p > ofs_path_ && text_[p] != '/') --p\<close>; \<open>n\<close> is \<open>p - ofs_path_\<close>.\<close>

fun scan_slash :: "uri \<Rightarrow> nat \<Rightarrow> int \<Rightarrow> int" where
  "scan_slash u 0 p = p"
| "scan_slash u (Suc n) p = (if uri_char u p \<noteq> CHR ''/'' then scan_slash u n (p - 1) else p)"

definition parent :: "uri \<Rightarrow> uri" where
  "parent v =
     (let u = base v
      in if ofs_query u - ofs_path u > 1
         then let p = ofs_query u - 1;
                  p = (if uri_char u p = CHR ''/'' then p - 1 else p);
                  p = scan_slash u (nat (p - ofs_path u)) p;
                  p = (if uri_char u p = CHR ''/'' then p + 1 else p)
              in u\<lparr>u_text := str_resize (u_text u) (nat p) CHR 0x00, ofs_query := p, ofs_fragment := p\<rparr>
         else u)"

definition root :: "uri \<Rightarrow> uri" where
  "root v =
     (let u = v\<lparr>u_text := str_resize (u_text v) (nat (ofs_path v)) CHR 0x00\<rparr>;
          u = u\<lparr>ofs_path := int (length (u_text u))\<rparr>;
          u = (if ofs_query v > ofs_path v then u\<lparr>u_text := u_text u @ ''/''\<rparr> else u)
      in u\<lparr>ofs_query := int (length (u_text u)), ofs_fragment := int (length (u_text u))\<rparr>)"

definition uri_eq :: "uri \<Rightarrow> uri \<Rightarrow> bool" where
  "uri_eq u v = (u_text u = u_text v)"

definition uri_less :: "uri \<Rightarrow> uri \<Rightarrow> bool" where
  "uri_less u v = string_less (u_text u) (u_text v)"

text \<open>\<open>hash_mix\<close> over the hashes of its arguments; \<open>hs\<close> and \<open>hi\<close> are \<open>std::hash\<close> of a string and of an \<open>int\<close>.\<close>

fun hash_mix :: "64 word list \<Rightarrow> 64 word" where
  "hash_mix [] = 0"
| "hash_mix [h] = h"
| "hash_mix (h # hs) = xor h (push_bit 6 h + drop_bit 2 h + hash_mix hs + 0x9e3779b9)"

definition uri_hash :: "(string \<Rightarrow> 64 word) \<Rightarrow> (int \<Rightarrow> 64 word) \<Rightarrow> uri \<Rightarrow> 64 word" where
  "uri_hash hs hi u = hash_mix [hs (u_text u), hi (ofs_user u), hi (ofs_password u), hi (ofs_host u), hi (ofs_port u),
     hi (ofs_path u), hi (ofs_query u), hi (ofs_fragment u)]"

end
