(* ===== verification/Uri_Parts.thy ===== *)
theory Uri_Parts
  imports Uri
begin

text \<open>
  The specification of \<open>Uri\<close>: eight pieces of text. \<open>conc\<close> lays the pieces out as the class
  does, one string and seven offsets; every operation of \<open>Uri\<close> on a laid-out value is the simple
  operation on the pieces.
\<close>

section \<open>The eight parts\<close>

record parts =
  p_scheme :: string
  p_user :: string
  p_password :: string
  p_host :: string
  p_port :: string
  p_path :: string
  p_query :: string
  p_fragment :: string

definition parts_empty :: parts where
  "parts_empty = \<lparr>p_scheme = [], p_user = [], p_password = [], p_host = [], p_port = [], p_path = [],
     p_query = [], p_fragment = []\<rparr>"

definition p_text :: "parts \<Rightarrow> string" where
  "p_text p = p_scheme p @ p_user p @ p_password p @ p_host p @ p_port p @ p_path p @ p_query p @ p_fragment p"

definition conc :: "parts \<Rightarrow> uri" where
  "conc p =
     \<lparr>u_text = p_text p,
      ofs_user = int (length (p_scheme p)),
      ofs_password = int (length (p_scheme p) + length (p_user p)),
      ofs_host = int (length (p_scheme p) + length (p_user p) + length (p_password p)),
      ofs_port = int (length (p_scheme p) + length (p_user p) + length (p_password p) + length (p_host p)),
      ofs_path = int (length (p_scheme p) + length (p_user p) + length (p_password p) + length (p_host p)
                 + length (p_port p)),
      ofs_query = int (length (p_scheme p) + length (p_user p) + length (p_password p) + length (p_host p)
                 + length (p_port p) + length (p_path p)),
      ofs_fragment = int (length (p_scheme p) + length (p_user p) + length (p_password p) + length (p_host p)
                 + length (p_port p) + length (p_path p) + length (p_query p))\<rparr>"

text \<open>The invariant of the class: the offsets are ordered and inside the text.\<close>

definition uri_ok :: "uri \<Rightarrow> bool" where
  "uri_ok u \<longleftrightarrow>
     0 \<le> ofs_user u \<and> ofs_user u \<le> ofs_password u \<and> ofs_password u \<le> ofs_host u \<and> ofs_host u \<le> ofs_port u
     \<and> ofs_port u \<le> ofs_path u \<and> ofs_path u \<le> ofs_query u \<and> ofs_query u \<le> ofs_fragment u
     \<and> ofs_fragment u \<le> int (length (u_text u))"

definition parts_of :: "uri \<Rightarrow> parts" where
  "parts_of u =
     \<lparr>p_scheme = uri_sub u 0 (ofs_user u), p_user = uri_sub u (ofs_user u) (ofs_password u),
      p_password = uri_sub u (ofs_password u) (ofs_host u), p_host = uri_sub u (ofs_host u) (ofs_port u),
      p_port = uri_sub u (ofs_port u) (ofs_path u), p_path = uri_sub u (ofs_path u) (ofs_query u),
      p_query = uri_sub u (ofs_query u) (ofs_fragment u), p_fragment = drop (nat (ofs_fragment u)) (u_text u)\<rparr>"

lemma uri_ok_conc [simp]: "uri_ok (conc p)"
  by (simp add: uri_ok_def conc_def p_text_def)

lemma nat_sums [simp]: "nat (int a + int b) = a + b"
  by simp

lemma parts_of_conc [simp]: "parts_of (conc p) = p"
  by (simp add: parts_of_def conc_def p_text_def uri_sub_def substr_def nat_int_add)

lemma conc_inj: "conc p = conc q \<longleftrightarrow> p = q"
  by (metis parts_of_conc)

lemma uri_sub_append:
  assumes "0 \<le> a" and "a \<le> b" and "b \<le> c"
  shows "uri_sub u a b @ uri_sub u b c = uri_sub u a c"
proof -
  obtain m k l where "nat a = m" "nat b = m + k" "nat c = m + k + l"
    using assms by (metis le_Suc_ex nat_mono)
  then show ?thesis using assms
    by (simp add: uri_sub_def substr_def nat_diff_distrib take_add add.commute)
qed

lemma length_uri_sub:
  "0 \<le> a \<Longrightarrow> a \<le> b \<Longrightarrow> b \<le> int (length (u_text u)) \<Longrightarrow> length (uri_sub u a b) = nat (b - a)"
  by (simp add: uri_sub_def substr_def nat_diff_distrib)

lemma conc_parts_of:
  assumes "uri_ok u"
  shows "conc (parts_of u) = u"
proof -
  note ok = assms [unfolded uri_ok_def]
  have rest: "uri_sub u 0 a @ drop (nat a) (u_text u) = u_text u" if "0 \<le> a" for a
    by (simp add: uri_sub_def substr_def)
  have "p_text (parts_of u) = u_text u"
    using ok rest [of "ofs_fragment u"] by (simp add: p_text_def parts_of_def flip: append_assoc)
      (simp add: uri_sub_append)
  then show ?thesis using ok
    by (simp add: conc_def parts_of_def length_uri_sub)
qed

lemma uri_ok_iff: "uri_ok u \<longleftrightarrow> (\<exists>p. u = conc p)"
  by (metis conc_parts_of uri_ok_conc)

text \<open>What the grammar and the setters keep true: user and \<open>:password@\<close> are both there or
  both missing.\<close>

definition parts_ok :: "parts \<Rightarrow> bool" where
  "parts_ok p \<longleftrightarrow> (p_user p = [] \<longleftrightarrow> p_password p = [])"

section \<open>The operations on parts\<close>

definition parts_nonempty :: "parts \<Rightarrow> bool" where
  "parts_nonempty p = (p_text p \<noteq> [])"

definition a_set_scheme :: "fmt \<Rightarrow> (string \<Rightarrow> (bool \<times> bool) option) \<Rightarrow> string \<Rightarrow> bool \<Rightarrow> parts \<Rightarrow> parts res" where
  "a_set_scheme F rx_scheme s smart p =
     (let t = lowercase F s
      in case rx_scheme t of
           None \<Rightarrow> Inl (Invalid_argument ''Invalid URI scheme'')
         | Some (m1, m2) \<Rightarrow>
             let t1 = (if m1 then t else t @ '':'')
             in Inr (p\<lparr>p_scheme := (if smart \<and> \<not> m2 \<and> t1 \<noteq> ''mailto:'' then t1 @ ''//'' else t1)\<rparr>))"

definition a_clear_user :: "parts \<Rightarrow> parts" where
  "a_clear_user p = (if p_user p = [] then p else p\<lparr>p_user := [], p_password := []\<rparr>)"

definition a_set_user :: "fmt \<Rightarrow> string \<Rightarrow> parts \<Rightarrow> parts res" where
  "a_set_user F s p =
     (if \<not> parts_nonempty p then Inl nonempty_error
      else if s = [] then Inr (a_clear_user p)
      else if p_host p = [] then Inl (Invalid_argument ''Can't set user on URI with no host'')
      else if p_user p = [] then Inr (p\<lparr>p_user := encode F [] s, p_password := ''@''\<rparr>)
      else Inr (p\<lparr>p_user := encode F [] s\<rparr>))"

definition a_clear_password :: "parts \<Rightarrow> parts" where
  "a_clear_password p = (if length (p_password p) \<le> 1 then p else p\<lparr>p_password := ''@''\<rparr>)"

definition a_set_password :: "fmt \<Rightarrow> string \<Rightarrow> parts \<Rightarrow> parts res" where
  "a_set_password F s p =
     (if \<not> parts_nonempty p then Inl nonempty_error
      else if s = [] then Inr (a_clear_password p)
      else if p_user p = [] then Inl (Invalid_argument ''Can't set password on URI with no user'')
      else Inr (p\<lparr>p_password := '':'' @ encode F [] s @ ''@''\<rparr>))"

definition a_set_host :: "fmt \<Rightarrow> string \<Rightarrow> parts \<Rightarrow> parts res" where
  "a_set_host F s p =
     (if \<not> parts_nonempty p then Inl nonempty_error else Inr (p\<lparr>p_host := encode F [] s\<rparr>))"

definition port_text :: "16 word \<Rightarrow> string" where
  "port_text n = (if n = 0 then [] else '':'' @ to_string (unat n))"

definition a_set_port :: "16 word \<Rightarrow> parts \<Rightarrow> parts res" where
  "a_set_port n p =
     (if \<not> parts_nonempty p then Inl nonempty_error
      else if n \<noteq> 0 \<and> p_host p = [] then Inl (Invalid_argument ''Can't set port on URI with no host'')
      else Inr (p\<lparr>p_port := port_text n\<rparr>))"

definition a_clear_path :: "parts \<Rightarrow> parts" where
  "a_clear_path p = (if length (p_path p) \<le> 1 then p else p\<lparr>p_path := []\<rparr>)"

definition slashed :: "string \<Rightarrow> string" where
  "slashed s = (if s \<noteq> [] \<and> hd s \<noteq> CHR ''/'' then CHR ''/'' # s else s)"

definition a_set_path :: "fmt \<Rightarrow> string \<Rightarrow> parts \<Rightarrow> parts res" where
  "a_set_path F s p =
     (if \<not> parts_nonempty p then Inl nonempty_error
      else if s = [] then Inr (a_clear_path p)
      else if find_str s ''//'' 0 \<noteq> None then Inl (Invalid_argument ''Invalid URI path'')
      else Inr (p\<lparr>p_path := slashed (encode F '':/'' s)\<rparr>))"

definition a_append_path :: "fmt \<Rightarrow> string \<Rightarrow> parts \<Rightarrow> parts res" where
  "a_append_path F s p =
     (if s = [] then Inr p
      else if \<not> parts_nonempty p then Inl nonempty_error
      else if hd s = CHR ''/'' \<or> length (p_path p) \<le> 1 then a_set_path F s p
      else if find_str s ''//'' 0 \<noteq> None then Inl (Invalid_argument ''Invalid URI path'')
      else Inr (p\<lparr>p_path := p_path p
        @ (if last (p_path p) = CHR ''/'' then encode F '':/'' s else CHR ''/'' # encode F '':/'' s)\<rparr>))"

definition a_set_query :: "string \<Rightarrow> parts \<Rightarrow> parts res" where
  "a_set_query s p =
     (if \<not> parts_nonempty p then Inl nonempty_error
      else Inr (p\<lparr>p_query := (if s = [] then [] else CHR ''?'' # s)\<rparr>))"

definition a_set_fragment :: "fmt \<Rightarrow> string \<Rightarrow> parts \<Rightarrow> parts res" where
  "a_set_fragment F s p =
     (if \<not> parts_nonempty p then Inl nonempty_error
      else Inr (p\<lparr>p_fragment := (if s = [] then [] else CHR ''#'' # encode F [] s)\<rparr>))"

definition up_to_slash :: "string \<Rightarrow> string" where
  "up_to_slash s = rev (dropWhile (\<lambda>c. c \<noteq> CHR ''/'') (rev s))"

text \<open>The parent of a path: one trailing slash is ignored, then the last element goes.\<close>

definition parent_path :: "string \<Rightarrow> string" where
  "parent_path s =
     (if length s \<le> 1 then s
      else up_to_slash (if last s = CHR ''/'' then butlast s else s))"

section \<open>Refinement\<close>

named_theorems uri_defs

lemmas uri_accessor_defs = is_empty_def has_slashes_def has_user_def has_password_def has_host_def has_port_def
  has_path_def has_query_def has_fragment_def

lemma p_text_simps: "p_text p = [] \<longleftrightarrow> p = parts_empty"
  by (cases p) (auto simp: p_text_def parts_empty_def)

lemma has_conc [simp]:
  "is_empty (conc p) \<longleftrightarrow> \<not> parts_nonempty p"
  "has_user (conc p) \<longleftrightarrow> p_user p \<noteq> []"
  "has_password (conc p) \<longleftrightarrow> \<not> length (p_password p) \<le> 1"
  "has_host (conc p) \<longleftrightarrow> p_host p \<noteq> []"
  "has_port (conc p) \<longleftrightarrow> p_port p \<noteq> []"
  "has_path (conc p) \<longleftrightarrow> \<not> length (p_path p) \<le> 1"
  "has_query (conc p) \<longleftrightarrow> p_query p \<noteq> []"
  "has_fragment (conc p) \<longleftrightarrow> p_fragment p \<noteq> []"
  by (auto simp: uri_accessor_defs conc_def p_text_def parts_nonempty_def)

text \<open>Replacing one part in the laid-out text.\<close>

lemma str_edit_simps:
  "str_replace (a @ b @ c) (length a) (length b) r = a @ r @ c"
  "str_erase (a @ b @ c) (length a) (length b) = a @ c"
  by (simp_all add: cxx_str)

lemma set_scheme_conc:
  "set_scheme F rx s smart (conc p) = map_sum id conc (a_set_scheme F rx s smart p)"
  by (auto simp: set_scheme_def a_set_scheme_def Let_def conc_def p_text_def str_replace_def split: option.splits)

lemma clear_user_conc: "clear_user (conc p) = conc (a_clear_user p)"
  by (simp add: clear_user_def a_clear_user_def) (auto simp: Let_def conc_def p_text_def str_erase_def)

lemma set_user_conc: "parts_ok p \<Longrightarrow> set_user F s (conc p) = map_sum id conc (a_set_user F s p)"
  unfolding parts_ok_def
  by (simp add: set_user_def a_set_user_def clear_user_conc)
    (auto simp: Let_def conc_def p_text_def str_replace_def)

lemma clear_password_conc: "clear_password (conc p) = conc (a_clear_password p)"
  by (simp add: clear_password_def a_clear_password_def) (auto simp: Let_def conc_def p_text_def str_replace_def)

lemma set_password_conc: "set_password F s (conc p) = map_sum id conc (a_set_password F s p)"
  by (simp add: set_password_def a_set_password_def clear_password_conc)
    (auto simp: Let_def conc_def p_text_def str_replace_def)

lemma clear_host_conc: "clear_host (conc p) = conc (p\<lparr>p_host := []\<rparr>)"
  by (simp add: clear_host_def) (auto simp: Let_def conc_def p_text_def str_erase_def)

lemma set_host_conc: "set_host F s (conc p) = map_sum id conc (a_set_host F s p)"
  by (simp add: set_host_def a_set_host_def clear_host_conc)
    (auto simp: Let_def conc_def p_text_def str_replace_def)

lemma clear_port_conc: "clear_port (conc p) = conc (p\<lparr>p_port := []\<rparr>)"
  by (simp add: clear_port_def) (auto simp: Let_def conc_def p_text_def str_erase_def)

lemma set_port_conc: "set_port n (conc p) = map_sum id conc (a_set_port n p)"
  by (simp add: set_port_def a_set_port_def clear_port_conc port_text_def)
    (auto simp: Let_def conc_def p_text_def str_replace_def)

lemma clear_path_conc: "clear_path (conc p) = conc (a_clear_path p)"
  by (simp add: clear_path_def a_clear_path_def) (auto simp: Let_def conc_def p_text_def str_erase_def)

lemma slashed_if:
  "(if s \<noteq> [] \<and> s ! 0 \<noteq> CHR ''/'' then str_insert s 0 ''/'' else s) = slashed s"
  by (cases s) (simp_all add: slashed_def str_insert_def)

lemma set_path_conc: "set_path F s (conc p) = map_sum id conc (a_set_path F s p)"
  by (simp add: set_path_def a_set_path_def clear_path_conc slashed_if del: encode_Nil_iff)
    (auto simp: Let_def conc_def p_text_def str_replace_def)

lemma append_path_conc: "append_path F s (conc p) = map_sum id conc (a_append_path F s p)"
proof -
  have last: "uri_char (conc p) (ofs_query (conc p) - 1) = last (p_path p)" if ne: "p_path p \<noteq> []"
  proof -
    obtain ys y where ys: "p_path p = ys @ [y]" using ne by (cases "p_path p" rule: rev_cases) auto
    define A where "A = p_scheme p @ p_user p @ p_password p @ p_host p @ p_port p @ ys"
    have "u_text (conc p) = A @ y # p_query p @ p_fragment p"
      by (simp add: conc_def p_text_def A_def ys)
    moreover have "ofs_query (conc p) - 1 = int (length A)" by (simp add: conc_def A_def ys)
    ultimately show ?thesis by (simp add: uri_char_def ys)
  qed
  have ins: "(conc p)\<lparr>u_text := str_insert (u_text (conc p)) (nat (ofs_query (conc p))) t,
      ofs_query := ofs_query (conc p) + int (length t), ofs_fragment := ofs_fragment (conc p) + int (length t)\<rparr>
    = conc (p\<lparr>p_path := p_path p @ t\<rparr>)" for t
    by (simp add: conc_def p_text_def str_insert_def nat_int_add)
  show ?thesis
  proof (cases "s = [] \<or> \<not> parts_nonempty p \<or> length (p_path p) \<le> 1")
    case True
    then show ?thesis
      by (cases s) (auto simp: append_path_def a_append_path_def set_path_conc)
  next
    case False
    then have "p_path p \<noteq> []" by auto
    note last = last [OF this]
    have "str_insert x 0 y = y @ x" for x y :: string by (simp add: str_insert_def)
    with False show ?thesis
      by (cases s) (simp_all add: append_path_def a_append_path_def set_path_conc Let_def last ins)
  qed
qed

lemma clear_query_conc: "clear_query (conc p) = conc (p\<lparr>p_query := []\<rparr>)"
  by (simp add: clear_query_def) (auto simp: Let_def conc_def p_text_def str_erase_def)

lemma set_query_conc: "set_query s (conc p) = map_sum id conc (a_set_query s p)"
  by (simp add: set_query_def a_set_query_def clear_query_conc)
    (auto simp: Let_def conc_def p_text_def str_replace_def)

lemma clear_fragment_conc: "clear_fragment (conc p) = conc (p\<lparr>p_fragment := []\<rparr>)"
  by (simp add: clear_fragment_def) (auto simp: Let_def conc_def p_text_def str_resize_def)

lemma set_fragment_conc: "set_fragment F s (conc p) = map_sum id conc (a_set_fragment F s p)"
  by (simp add: set_fragment_def a_set_fragment_def clear_fragment_conc)
    (auto simp: Let_def conc_def p_text_def str_replace_def)

text \<open>Accessors.\<close>

lemma sub_conc:
  "uri_sub (conc p) (ofs_user (conc p)) (ofs_password (conc p)) = p_user p"
  "uri_sub (conc p) (ofs_host (conc p)) (ofs_port (conc p)) = p_host p"
  "uri_sub (conc p) (ofs_path (conc p)) (ofs_query (conc p)) = p_path p"
  "drop (nat (ofs_fragment (conc p))) (u_text (conc p)) = p_fragment p"
  "drop (nat (ofs_port (conc p))) (u_text (conc p)) = p_port p @ p_path p @ p_query p @ p_fragment p"
  by (simp_all add: conc_def p_text_def uri_sub_def substr_def nat_int_add)

lemma user_conc [simp]: "user F (conc p) = decode F (p_user p)"
  by (simp add: user_def sub_conc)

lemma host_conc [simp]: "host F (conc p) = decode F (p_host p)"
  by (simp add: host_def sub_conc)

lemma path_conc [simp]: "path F (conc p) = decode F (p_path p)"
  by (simp add: path_def sub_conc)

lemma drop_next:
  assumes "drop (nat i) s = c # r" and "0 \<le> i"
  shows "drop (nat (i + 1)) s = r"
proof -
  have "drop (Suc (nat i)) s = r" using assms(1) by (metis drop_Suc tl_drop list.sel(3))
  then show ?thesis using assms(2) by (simp add: Suc_nat_eq_nat_zadd1 add.commute)
qed

lemma fragment_conc [simp]: "fragment F (conc p) = (if p_fragment p = [] then [] else decode F (tl (p_fragment p)))"
proof (cases "p_fragment p")
  case (Cons c r)
  then have "drop (nat (ofs_fragment (conc p))) (u_text (conc p)) = c # r" by (simp add: sub_conc)
  moreover have "0 \<le> ofs_fragment (conc p)" by (simp add: conc_def)
  ultimately show ?thesis using Cons by (simp add: fragment_def drop_next)
qed (simp add: fragment_def)

lemma query_conc [simp]: "query F (conc p) = (if p_query p = [] then [] else decode F (tl (p_query p)))"
proof (cases "p_query p")
  case (Cons c r)
  have "drop (nat (ofs_query (conc p))) (u_text (conc p)) = c # r @ p_fragment p"
    using Cons by (simp add: conc_def p_text_def nat_int_add)
  moreover have "0 \<le> ofs_query (conc p)" by (simp add: conc_def)
  ultimately have "drop (nat (ofs_query (conc p) + 1)) (u_text (conc p)) = r @ p_fragment p"
    by (rule drop_next)
  moreover have "nat (ofs_fragment (conc p) - (ofs_query (conc p) + 1)) = length r"
    using Cons by (simp add: conc_def)
  ultimately show ?thesis using Cons by (simp add: query_def uri_sub_def substr_def)
qed (simp add: query_def)

lemma password_conc [simp]:
  "password F (conc p) = (if length (p_password p) \<le> 1 then [] else decode F (butlast (tl (p_password p))))"
proof (cases "length (p_password p) \<le> 1")
  case False
  then obtain c r where r: "p_password p = c # r" "r \<noteq> []"
    by (cases "p_password p"; cases "tl (p_password p)") auto
  have "drop (nat (ofs_password (conc p))) (u_text (conc p))
      = c # r @ p_host p @ p_port p @ p_path p @ p_query p @ p_fragment p"
    using r by (simp add: conc_def p_text_def nat_int_add)
  moreover have "0 \<le> ofs_password (conc p)" by (simp add: conc_def)
  ultimately have "drop (nat (ofs_password (conc p) + 1)) (u_text (conc p))
      = r @ p_host p @ p_port p @ p_path p @ p_query p @ p_fragment p"
    by (rule drop_next)
  moreover have "nat (ofs_host (conc p) - 1 - (ofs_password (conc p) + 1)) = length r - 1"
    using r by (simp add: conc_def)
  ultimately show ?thesis using r False
    by (simp add: password_def uri_sub_def substr_def butlast_conv_take)
qed (simp add: password_def)

lemma port_conc [simp]:
  "port (conc p) = (if p_port p = [] then 0
     else of_nat (fst (strtoull (tl (p_port p) @ p_path p @ p_query p @ p_fragment p))))"
proof (cases "p_port p")
  case (Cons c r)
  then have "drop (nat (ofs_port (conc p))) (u_text (conc p)) = c # r @ p_path p @ p_query p @ p_fragment p"
    by (simp add: sub_conc)
  moreover have "0 \<le> ofs_port (conc p)" by (simp add: conc_def)
  ultimately have "drop (nat (ofs_port (conc p) + 1)) (u_text (conc p)) = r @ p_path p @ p_query p @ p_fragment p"
    by (rule drop_next)
  then show ?thesis using Cons by (simp add: port_def)
qed (simp add: port_def)

text \<open>The derived URIs.\<close>

lemma doc_conc: "doc (conc p) = conc (p\<lparr>p_fragment := []\<rparr>)"
  by (simp add: doc_def conc_def p_text_def str_resize_def nat_int_add)

lemma base_conc: "base (conc p) = conc (p\<lparr>p_query := [], p_fragment := []\<rparr>)"
  by (simp add: base_def conc_def p_text_def str_resize_def nat_int_add)

lemma root_conc:
  "root (conc p) = conc (p\<lparr>p_path := (if p_path p = [] then [] else ''/''), p_query := [], p_fragment := []\<rparr>)"
  by (simp add: root_def Let_def conc_def p_text_def str_resize_def nat_int_add)

text \<open>A scan inside the path looks at the path only.\<close>

lemma uri_char_path:
  assumes "k < length (p_path p)"
  shows "uri_char (conc p) (ofs_path (conc p) + int k) = p_path p ! k"
proof -
  define A where "A = p_scheme p @ p_user p @ p_password p @ p_host p @ p_port p"
  have t: "u_text (conc p) = A @ p_path p @ p_query p @ p_fragment p"
    by (simp add: conc_def p_text_def A_def)
  have "ofs_path (conc p) = int (length A)" by (simp add: conc_def A_def)
  then have "nat (ofs_path (conc p) + int k) = length A + k" by simp
  then show ?thesis using assms by (simp add: uri_char_def t nth_append)
qed

lemma up_to_slash_snoc: "up_to_slash (s @ [c]) = (if c = CHR ''/'' then s @ [c] else up_to_slash s)"
  by (simp add: up_to_slash_def)

lemma scan_cut_conc:
  "n \<le> length (p_path p) \<Longrightarrow>
     scan_cut (conc p) n (ofs_path (conc p) + int n - 1)
     = ofs_path (conc p) + int (length (up_to_slash (take n (p_path p))))"
proof (induction n)
  case 0
  then show ?case by (simp add: up_to_slash_def)
next
  case (Suc n)
  then have c: "uri_char (conc p) (ofs_path (conc p) + int n) = p_path p ! n"
    by (intro uri_char_path) simp
  have "take (Suc n) (p_path p) = take n (p_path p) @ [p_path p ! n]"
    using Suc.prems by (simp add: take_Suc_conv_app_nth)
  with c Suc show ?case by (simp add: up_to_slash_snoc)
qed

lemma find_path_cut_conc:
  "find_path_cut (conc p) = ofs_path (conc p) + int (length (up_to_slash (p_path p)))"
proof -
  have "ofs_query (conc p) - ofs_path (conc p) = int (length (p_path p))" by (simp add: conc_def)
  then have "nat (ofs_query (conc p) - ofs_path (conc p)) = length (p_path p)"
    and "ofs_query (conc p) - 1 = ofs_path (conc p) + int (length (p_path p)) - 1" by simp_all
  then show ?thesis using scan_cut_conc [of "length (p_path p)" p] by (simp add: find_path_cut_def)
qed

lemma up_to_slash_prefix: "\<exists>t. s = up_to_slash s @ t \<and> CHR ''/'' \<notin> set t"
proof (intro exI conjI)
  let ?P = "\<lambda>c. c \<noteq> CHR ''/''"
  show "s = up_to_slash s @ rev (takeWhile ?P (rev s))"
    unfolding up_to_slash_def by (metis rev_append rev_rev_ident takeWhile_dropWhile_id)
  show "CHR ''/'' \<notin> set (rev (takeWhile ?P (rev s)))" by (auto dest: set_takeWhileD)
qed

definition leaf_of :: "string \<Rightarrow> string" where
  "leaf_of s = drop (length (up_to_slash s)) s"

lemma find_path_cut_sub:
  "uri_sub (conc p) (ofs_path (conc p)) (find_path_cut (conc p)) = up_to_slash (p_path p)
   \<and> uri_sub (conc p) (find_path_cut (conc p)) (ofs_query (conc p)) = leaf_of (p_path p)"
proof -
  obtain t where t: "p_path p = up_to_slash (p_path p) @ t" using up_to_slash_prefix by blast
  define A where "A = p_scheme p @ p_user p @ p_password p @ p_host p @ p_port p"
  have tx: "u_text (conc p) = A @ p_path p @ p_query p @ p_fragment p"
    by (simp add: conc_def p_text_def A_def)
  have A: "ofs_path (conc p) = int (length A)" "ofs_query (conc p) = int (length A + length (p_path p))"
    by (simp_all add: conc_def A_def)
  have len: "length (up_to_slash (p_path p)) \<le> length (p_path p)"
    using t by (metis length_append le_add1)
  have "uri_sub (conc p) (ofs_path (conc p)) (find_path_cut (conc p)) = take (length (up_to_slash (p_path p))) (p_path p)"
    using len by (simp add: uri_sub_def substr_def find_path_cut_conc A tx)
  also have "\<dots> = up_to_slash (p_path p)" using t by (metis append_eq_conv_conj)
  finally show ?thesis
    using len by (simp add: uri_sub_def substr_def find_path_cut_conc A tx nat_int_add leaf_of_def nat_diff_distrib)
qed

lemma path_dir_conc [simp]: "path_dir F (conc p) = decode F (up_to_slash (p_path p))"
  by (simp add: path_dir_def find_path_cut_sub)

lemma path_leaf_conc [simp]: "path_leaf F (conc p) = decode F (leaf_of (p_path p))"
  by (simp add: path_leaf_def find_path_cut_sub)

lemma scan_slash_conc:
  "k < length (p_path p) \<Longrightarrow>
     (let r = scan_slash (conc p) k (ofs_path (conc p) + int k)
      in if uri_char (conc p) r = CHR ''/'' then r + 1 else r)
     = ofs_path (conc p) + int (length (up_to_slash (take (Suc k) (p_path p))))"
proof (induction k)
  case 0
  then have "take (Suc 0) (p_path p) = [p_path p ! 0]" by (cases "p_path p") auto
  then have "up_to_slash (take (Suc 0) (p_path p)) = (if p_path p ! 0 = CHR ''/'' then [p_path p ! 0] else [])"
    by (simp add: up_to_slash_def)
  then show ?case using uri_char_path [OF 0] by simp
next
  case (Suc k)
  note c = uri_char_path [OF Suc.prems]
  have IH: "(let r = scan_slash (conc p) k (ofs_path (conc p) + int k)
      in if uri_char (conc p) r = CHR ''/'' then r + 1 else r)
     = ofs_path (conc p) + int (length (up_to_slash (take (Suc k) (p_path p))))"
    using Suc by simp
  have "take (Suc (Suc k)) (p_path p) = take (Suc k) (p_path p) @ [p_path p ! Suc k]"
    using Suc.prems by (simp add: take_Suc_conv_app_nth)
  then have u: "up_to_slash (take (Suc (Suc k)) (p_path p)) =
      (if p_path p ! Suc k = CHR ''/'' then take (Suc (Suc k)) (p_path p) else up_to_slash (take (Suc k) (p_path p)))"
    by (simp add: up_to_slash_snoc)
  show ?case
  proof (cases "p_path p ! Suc k = CHR ''/''")
    case True
    with c u Suc.prems show ?thesis by simp
  next
    case False
    with c have "scan_slash (conc p) (Suc k) (ofs_path (conc p) + int (Suc k))
        = scan_slash (conc p) k (ofs_path (conc p) + int k)" by simp
    with False u IH show ?thesis by (simp only: if_False)
  qed
qed

lemma truncate_conc:
  assumes "m \<le> length (p_path p)"
  shows "(conc p)\<lparr>u_text := str_resize (u_text (conc p)) (nat (ofs_path (conc p) + int m)) CHR 0x00,
      ofs_query := ofs_path (conc p) + int m, ofs_fragment := ofs_path (conc p) + int m\<rparr>
    = conc (p\<lparr>p_path := take m (p_path p), p_query := [], p_fragment := []\<rparr>)"
proof -
  have "nat (ofs_path (conc p) + int m)
      = length (p_scheme p) + length (p_user p) + length (p_password p) + length (p_host p) + length (p_port p) + m"
    by (simp add: conc_def)
  with assms show ?thesis by (simp add: conc_def p_text_def str_resize_def)
qed

lemma up_to_slash_take: "up_to_slash s = take (length (up_to_slash s)) s"
  using up_to_slash_prefix [of s] by (metis append_eq_conv_conj)

lemma length_up_to_slash: "length (up_to_slash s) \<le> length s"
  using up_to_slash_prefix [of s] by (metis length_append le_add1)

lemma parent_conc:
  "parent (conc p) = conc (p\<lparr>p_path := parent_path (p_path p), p_query := [], p_fragment := []\<rparr>)"
proof -
  define q where "q = p\<lparr>p_query := [], p_fragment := []\<rparr>"
  let ?s = "p_path p"
  have base: "base (conc p) = conc q" by (simp add: base_conc q_def)
  have len: "ofs_query (conc q) - ofs_path (conc q) = int (length ?s)" by (simp add: conc_def q_def)
  show ?thesis
  proof (cases "length ?s \<le> 1")
    case True
    with len show ?thesis by (simp add: parent_def base parent_path_def Let_def) (simp add: q_def)
  next
    case False
    define e where "e = (if last ?s = CHR ''/'' then length ?s - 2 else length ?s - 1)"
    have e: "e < length ?s" using False by (auto simp: e_def)
    have "ofs_query (conc q) - 1 = ofs_path (conc q) + int (length ?s - 1)" using len False by simp
    moreover have "uri_char (conc q) (ofs_path (conc q) + int (length ?s - 1)) = last ?s"
    proof -
      have "?s \<noteq> []" using False by auto
      then have "last ?s = p_path q ! (length ?s - 1)" by (simp add: last_conv_nth q_def)
      moreover have "length ?s - 1 < length (p_path q)" using False by (simp add: q_def)
      ultimately show ?thesis using uri_char_path by metis
    qed
    ultimately have start: "(let p = ofs_query (conc q) - 1 in if uri_char (conc q) p = CHR ''/'' then p - 1 else p)
        = ofs_path (conc q) + int e" using False by (auto simp: e_def Let_def algebra_simps)
    have cut: "up_to_slash (take (Suc e) ?s) = parent_path ?s"
      using False by (auto simp: e_def parent_path_def butlast_conv_take Suc_diff_Suc numeral_2_eq_2)
    let ?m = "length (parent_path ?s)"
    have m: "?m \<le> length ?s" using length_up_to_slash [of "take (Suc e) ?s"] e by (simp add: cut)
    have t: "take ?m ?s = parent_path ?s"
      using up_to_slash_take [of "take (Suc e) ?s"] length_up_to_slash [of "take (Suc e) ?s"]
      by (simp add: cut min_def split: if_splits)
    have "e < length (p_path q)" using e by (simp add: q_def)
    have pq: "p_path q = ?s" by (simp add: q_def)
    note scan = scan_slash_conc [OF \<open>e < length (p_path q)\<close>, unfolded Let_def pq cut]
    have idx: "nat (ofs_path (conc q) + int e - ofs_path (conc q)) = e" by simp
    have gt: "(ofs_query (conc q) - ofs_path (conc q) > 1) = True" using len False by simp
    have "parent (conc p) = (let p = ofs_path (conc q) + int ?m
        in (conc q)\<lparr>u_text := str_resize (u_text (conc q)) (nat p) CHR 0x00, ofs_query := p, ofs_fragment := p\<rparr>)"
      by (simp only: parent_def base Let_def start [unfolded Let_def] scan idx gt if_True)
    then show ?thesis using truncate_conc [of ?m q] m t by (simp add: q_def Let_def)
  qed
qed

end
