(* ===== verification/Uri_Correct.thy ===== *)
theory Uri_Correct
  imports Uri_Parts
begin

text \<open>
  What holds of every \<open>Uri\<close> object: the operations of the class as one type, the refinement of
  their effect on the text and the offsets to their effect on the eight parts, the invariant they
  keep, and what the accessors return after the setters.
\<close>

section \<open>The operations of the class\<close>





lemma uri_empty_conc: "uri_empty = conc parts_empty"
  by (simp add: uri_empty_def conc_def parts_empty_def p_text_def)


section \<open>The invariant\<close>

text \<open>Each part has the marker its place in the grammar asks for.\<close>

definition marked :: "char \<Rightarrow> string \<Rightarrow> bool" where
  "marked c s \<longleftrightarrow> s = [] \<or> hd s = c"

definition port_ok :: "string \<Rightarrow> bool" where
  "port_ok s \<longleftrightarrow> s = [] \<or> hd s = CHR '':'' \<and> tl s \<noteq> [] \<and> (\<forall>c \<in> set (tl s). is_digit c)"

definition pwd_ok :: "string \<Rightarrow> bool" where
  "pwd_ok s \<longleftrightarrow> s = [] \<or> last s = CHR ''@''"

definition parts_marked :: "parts \<Rightarrow> bool" where
  "parts_marked p \<longleftrightarrow>
     parts_ok p \<and> pwd_ok (p_password p) \<and> port_ok (p_port p) \<and> marked CHR ''/'' (p_path p)
     \<and> marked CHR ''?'' (p_query p) \<and> marked CHR ''#'' (p_fragment p)"

definition uri_inv :: "uri \<Rightarrow> bool" where
  "uri_inv u \<longleftrightarrow> uri_ok u \<and> parts_marked (parts_of u)"

lemma uri_inv_conc: "uri_inv (conc p) \<longleftrightarrow> parts_marked p"
  by (simp add: uri_inv_def)

lemma uri_invE:
  assumes "uri_inv u"
  obtains p where "u = conc p" "parts_marked p" "parts_ok p" "parts_of u = p"
proof (rule that)
  show "u = conc (parts_of u)" using assms conc_parts_of [of u] by (simp add: uri_inv_def)
  show "parts_marked (parts_of u)" using assms by (simp add: uri_inv_def)
  then show "parts_ok (parts_of u)" by (simp add: parts_marked_def)
qed simp

lemma marked_simps [simp]: "marked c []" "marked c (c # s)"
  by (simp_all add: marked_def)

lemma port_ok_text [simp]: "port_ok (port_text n)" "port_ok []"
  using to_string_digits by (auto simp: port_ok_def port_text_def)

lemma pwd_ok_simps [simp]: "pwd_ok []" "pwd_ok ''@''" "pwd_ok (c # s @ ''@'')"
  by (simp_all add: pwd_ok_def)


lemma marked_slashed [simp]: "marked CHR ''/'' (slashed s)"
  by (auto simp: slashed_def marked_def)

lemma marked_prefix: "marked c (t @ u) \<Longrightarrow> marked c t"
  by (cases t) (auto simp: marked_def)

lemma parent_path_prefix: "\<exists>t. s = parent_path s @ t"
proof (cases "length s \<le> 1")
  case False
  then have s: "s = butlast s @ [last s]" by (cases s rule: rev_cases) auto
  show ?thesis
  proof (cases "last s = CHR ''/''")
    case True
    obtain t where "butlast s = up_to_slash (butlast s) @ t" using up_to_slash_prefix by blast
    then have "s = up_to_slash (butlast s) @ t @ [last s]" using s by (metis append_assoc)
    with True False show ?thesis by (auto simp: parent_path_def)
  next
    case no: False
    obtain t where "s = up_to_slash s @ t" using up_to_slash_prefix by blast
    with no False show ?thesis by (auto simp: parent_path_def)
  qed
qed (simp add: parent_path_def)

lemma marked_parent [simp]: "marked c s \<Longrightarrow> marked c (parent_path s)"
  using parent_path_prefix [of s] marked_prefix by metis






lemma uri_inv_empty: "uri_inv uri_empty"
  by (simp add: uri_empty_conc uri_inv_conc parts_marked_def parts_ok_def parts_empty_def)


section \<open>Setting and getting\<close>





section \<open>Derived URIs\<close>

lemma up_to_slash_last: "up_to_slash s = [] \<or> last (up_to_slash s) = CHR ''/''"
proof (cases "up_to_slash s = []")
  case False
  then have "dropWhile (\<lambda>c. c \<noteq> CHR ''/'') (rev s) \<noteq> []" by (auto simp: up_to_slash_def)
  from hd_dropWhile [OF this] show ?thesis by (simp add: up_to_slash_def last_rev)
qed simp

lemma parent_path_shrinks:
  assumes "1 < length s"
  shows "length (parent_path s) < length s"
proof (cases "last s = CHR ''/''")
  case True
  then have "length (parent_path s) \<le> length (butlast s)"
    using assms length_up_to_slash [of "butlast s"] by (simp add: parent_path_def)
  then show ?thesis using assms by simp
next
  case False
  have "parent_path s = up_to_slash s" using False assms by (simp add: parent_path_def)
  moreover have "up_to_slash s \<noteq> s" using up_to_slash_last [of s] assms False by auto
  moreover obtain t where "s = up_to_slash s @ t" using up_to_slash_prefix by blast
  ultimately show ?thesis by (metis append_Nil2 length_append length_greater_0_conv less_add_same_cancel1)
qed

text \<open>
  \<open>parent\<close> climbs: on a URI with a path it gives a URI with a strictly shorter path that is a
  prefix of the old one and ends in a slash, without query and fragment; on a URI without one it
  is \<open>base\<close>, and the root is its own parent. The directory and the leaf of a path make the path.
\<close>

theorem uri_parent_climbs:
  assumes "uri_inv u"
  shows "(has_path u \<longrightarrow> length (p_path (parts_of (parent u))) < length (p_path (parts_of u))
        \<and> (\<exists>t. p_path (parts_of u) = p_path (parts_of (parent u)) @ t)
        \<and> last (p_path (parts_of (parent u))) = CHR ''/'' \<and> p_path (parts_of (parent u)) \<noteq> [])
    \<and> (\<not> has_path u \<longrightarrow> parent u = base u) \<and> \<not> has_query (parent u) \<and> \<not> has_fragment (parent u)
    \<and> parent (root u) = root u
    \<and> uri_sub u (ofs_path u) (find_path_cut u) @ uri_sub u (find_path_cut u) (ofs_query u) = p_path (parts_of u)"
proof -
  obtain p where p: "u = conc p" "parts_marked p" using uri_invE [OF assms] by metis
  let ?s = "p_path p"
  have up: "up_to_slash ?s @ leaf_of ?s = ?s"
    using up_to_slash_prefix [of ?s] by (metis append_eq_conv_conj leaf_of_def)
  have "last (parent_path ?s) = CHR ''/'' \<and> parent_path ?s \<noteq> []" if l: "\<not> length ?s \<le> 1"
  proof -
    from l p(2) obtain r where s: "?s = CHR ''/'' # r" "r \<noteq> []" by (cases ?s) (auto simp: parts_marked_def marked_def)
    let ?w = "if last ?s = CHR ''/'' then butlast ?s else ?s"
    have w: "parent_path ?s = up_to_slash ?w" using l by (simp add: parent_path_def)
    have "CHR ''/'' \<in> set ?w" using s by auto
    then have "up_to_slash ?w \<noteq> []" by (auto simp: up_to_slash_def dropWhile_eq_Nil_conv)
    then show ?thesis using w up_to_slash_last by metis
  qed
  moreover have "parent_path [] = []" "parent_path ''/'' = ''/''" by (simp_all add: parent_path_def)
  ultimately show ?thesis
    using parent_path_shrinks [of ?s] parent_path_prefix [of ?s] up
    by (auto simp: p(1) parent_conc base_conc root_conc find_path_cut_sub parent_path_def)
qed

theorem uri_parent_climbs_witness:
  "let u = conc (parts_empty\<lparr>p_scheme := ''file:'', p_path := ''/a/b/'', p_query := ''?q''\<rparr>)
   in has_path u \<and> p_path (parts_of (parent u)) = ''/a/'' \<and> last (p_path (parts_of (parent u))) = CHR ''/''"
proof -
  let ?p = "parts_empty\<lparr>p_scheme := ''file:'', p_path := ''/a/b/'', p_query := ''?q''\<rparr>"
  have inv: "uri_inv (conc ?p)" by (simp add: uri_inv_conc parts_marked_def parts_ok_def parts_empty_def)
  have path: "has_path (conc ?p)" by simp
  have "p_path (parts_of (parent (conc ?p))) = ''/a/''"
    by (simp add: parent_conc parent_path_def up_to_slash_def)
  with path uri_parent_climbs [OF inv] show ?thesis by (simp add: Let_def)
qed

end
