(* ===== verification/Rx_Match.thy ===== *)
theory Rx_Match
  imports Prelude
begin

text \<open>
  Regular expressions as functions that give the ways to match, the preferred one first. The patterns of the sources are
  written with them; what rs-regex finds is a parameter of the operations, with the hypothesis that it is the first way.
\<close>

section \<open>Matching in priority order\<close>

text \<open>A matcher gives the ways to match a prefix, best first: what was matched and what is left.\<close>

type_synonym matcher = "string \<Rightarrow> (string \<times> string) list"

definition rx_one :: "(char \<Rightarrow> bool) \<Rightarrow> matcher" where
  "rx_one P s = (case s of c # r \<Rightarrow> if P c then [([c], r)] else [] | [] \<Rightarrow> [])"

definition rx_star :: "(char \<Rightarrow> bool) \<Rightarrow> matcher" where
  "rx_star P s = map (\<lambda>n. (take n s, drop n s)) (rev [0..<Suc (length (takeWhile P s))])"

definition rx_plus :: "(char \<Rightarrow> bool) \<Rightarrow> matcher" where
  "rx_plus P s = map (\<lambda>n. (take n s, drop n s)) (rev [1..<Suc (length (takeWhile P s))])"

definition rx_seq :: "matcher \<Rightarrow> matcher \<Rightarrow> matcher" where
  "rx_seq m1 m2 s = concat (map (\<lambda>(a, r). map (\<lambda>(b, r'). (a @ b, r')) (m2 r)) (m1 s))"

definition rx_opt :: "matcher \<Rightarrow> matcher" where
  "rx_opt m s = m s @ [([], s)]"

definition rx_alt :: "matcher \<Rightarrow> matcher \<Rightarrow> matcher" where
  "rx_alt m1 m2 s = m1 s @ m2 s"

definition rx_two_or_more :: "(char \<Rightarrow> bool) \<Rightarrow> matcher" where
  "rx_two_or_more P = rx_seq (rx_one P) (rx_plus P)"

definition rx_ahead :: "(char \<Rightarrow> bool) \<Rightarrow> matcher" where
  "rx_ahead P s = (case s of c # r \<Rightarrow> if P c then [([], s)] else [] | [] \<Rightarrow> [])"

definition rx_lit :: "char \<Rightarrow> matcher" where
  "rx_lit c = rx_one ((=) c)"

definition is_alpha :: "char \<Rightarrow> bool" where
  "is_alpha c \<longleftrightarrow> c \<in> set ''abcdefghijklmnopqrstuvwxyzABCDEFGHIJKLMNOPQRSTUVWXYZ''"

text \<open>The length of the match at the start of a text.\<close>

definition match_count :: "matcher \<Rightarrow> string \<Rightarrow> nat option" where
  "match_count m s = (case m s of [] \<Rightarrow> None | (a, r) # _ \<Rightarrow> Some (length a))"

end
