(* ===== verification/Uri_Parse.thy ===== *)
theory Uri_Parse
  imports Uri_Correct Rx_Match
begin

text \<open>
  \<open>Uri::try_parse\<close> and the constructor from a string. The text is taken apart by a regular
  expression matched by the rs-regex library: the matcher is a parameter that returns the lengths
  of the eight groups, and \<open>rx_uri_ok\<close> says that it follows the pattern of the source with the
  documented priorities (greedy, leftmost alternative first, whole string). The same pattern,
  written with the usual combinators on lists of ways to match, is executable.
\<close>

section \<open>Groups\<close>

type_synonym groups = "string \<Rightarrow> (string list \<times> string) list"

text \<open>A captured group, an optional one, and groups that take no part.\<close>

definition cap :: "matcher \<Rightarrow> groups \<Rightarrow> groups" where
  "cap m k s = concat (map (\<lambda>(a, r). map (\<lambda>(gs, r'). (a # gs, r')) (k r)) (m s))"

definition skip :: "nat \<Rightarrow> groups \<Rightarrow> groups" where
  "skip n k s = map (\<lambda>(gs, r'). (replicate n [] @ gs, r')) (k s)"

definition opt_cap :: "matcher \<Rightarrow> groups \<Rightarrow> groups" where
  "opt_cap m k s = cap m k s @ skip 1 k s"

section \<open>The pattern\<close>

definition scheme_char :: "char \<Rightarrow> bool" where
  "scheme_char c \<longleftrightarrow> is_alpha c \<or> c \<in> set ''0123456789+.-''"

definition g_scheme :: matcher where
  "g_scheme = rx_seq (rx_one is_alpha) (rx_seq (rx_star scheme_char) (rx_seq (rx_lit CHR '':'')
     (rx_opt (rx_seq (rx_lit CHR ''/'') (rx_lit CHR ''/'')))))"

definition name_char :: "char \<Rightarrow> bool" where
  "name_char c \<longleftrightarrow> c \<notin> set ''/:@''"

definition g_user :: matcher where
  "g_user = rx_plus name_char"

definition g_pwd :: matcher where
  "g_pwd = rx_seq (rx_star (\<lambda>c. c \<notin> set ''/@'')) (rx_lit CHR ''@'')"

definition g_host :: matcher where
  "g_host = rx_plus name_char"

definition g_port :: matcher where
  "g_port = rx_seq (rx_lit CHR '':'') (rx_plus is_digit)"

definition g_path :: matcher where
  "g_path = rx_seq (rx_lit CHR ''/'') (rx_star (\<lambda>c. c \<notin> set ''#?''))"

definition g_query :: matcher where
  "g_query = rx_seq (rx_lit CHR ''?'') (rx_star (\<lambda>c. c \<noteq> CHR ''#''))"

definition g_fragment :: matcher where
  "g_fragment = rx_seq (rx_lit CHR ''#'') (rx_star (\<lambda>c. c \<noteq> CHR 0x0A))"

definition g_tail :: groups where
  "g_tail = opt_cap g_path (opt_cap g_query (opt_cap g_fragment (\<lambda>s. [([], s)])))"

definition g_hostport :: groups where
  "g_hostport = cap g_host (opt_cap g_port g_tail)"

definition g_authority :: groups where
  "g_authority s = (cap g_user (cap g_pwd g_hostport) s @ skip 2 g_hostport s) @ skip 4 g_tail s"

definition uri_match :: "string \<Rightarrow> string list option" where
  "uri_match s = map_option fst (List.find (\<lambda>(gs, r). r = []) (cap g_scheme g_authority s))"

definition rx_uri_ok :: "(string \<Rightarrow> nat list option) \<Rightarrow> bool" where
  "rx_uri_ok rx \<longleftrightarrow> (\<forall>s. rx s = map_option (map length) (uri_match s))"

section \<open>Parsing\<close>

text \<open>The result and the object afterwards.\<close>

definition try_parse :: "fmt \<Rightarrow> (string \<Rightarrow> nat list option) \<Rightarrow> string \<Rightarrow> uri \<Rightarrow> bool \<times> uri" where
  "try_parse F rx s u =
     (if \<exists>c \<in> set s. iscntrl F c then (False, u)
      else case rx s of
          None \<Rightarrow> (False, u)
        | Some n \<Rightarrow>
            let ou = int (n ! 0); opw = ou + int (n ! 1); oh = opw + int (n ! 2); opo = oh + int (n ! 3);
                opa = opo + int (n ! 4); oq = opa + int (n ! 5); ofr = oq + int (n ! 6)
            in (True, \<lparr>u_text = s, ofs_user = ou, ofs_password = opw, ofs_host = oh, ofs_port = opo,
                       ofs_path = opa, ofs_query = oq, ofs_fragment = ofr\<rparr>))"

definition uri_of_string :: "fmt \<Rightarrow> (string \<Rightarrow> nat list option) \<Rightarrow> string \<Rightarrow> uri res" where
  "uri_of_string F rx s =
     (let (ok, u) = try_parse F rx s uri_empty
      in if \<not> ok then Inl (Invalid_argument ''Invalid URI'') else Inr u)"

section \<open>Every way to match is well formed\<close>

definition sound :: "matcher \<Rightarrow> (string \<Rightarrow> bool) \<Rightarrow> bool" where
  "sound m L \<longleftrightarrow> (\<forall>s a r. (a, r) \<in> set (m s) \<longrightarrow> s = a @ r \<and> L a)"

lemma soundD: "sound m L \<Longrightarrow> (a, r) \<in> set (m s) \<Longrightarrow> s = a @ r \<and> L a"
  by (auto simp: sound_def)

lemma take_takeWhile: "n \<le> length (takeWhile P s) \<Longrightarrow> \<forall>c \<in> set (take n s). P c"
proof
  fix c assume n: "n \<le> length (takeWhile P s)" and c: "c \<in> set (take n s)"
  have "takeWhile P s = take (length (takeWhile P s)) s" by (rule takeWhile_eq_take)
  then have "take n (takeWhile P s) = take n s" using n by (metis min.absorb1 take_take)
  with c have "c \<in> set (takeWhile P s)" by (metis in_set_takeD)
  then show "P c" by (auto dest: set_takeWhileD)
qed

lemma sound_star: "sound (rx_star P) (\<lambda>a. \<forall>c \<in> set a. P c)"
  unfolding sound_def
proof (intro allI impI)
  fix s a r assume "(a, r) \<in> set (rx_star P s)"
  then obtain n where n: "a = take n s" "r = drop n s" "n \<le> length (takeWhile P s)"
    by (auto simp: rx_star_def less_Suc_eq_le simp del: upt_Suc)
  then show "s = a @ r \<and> (\<forall>c \<in> set a. P c)" using take_takeWhile [of n P s] by simp
qed

lemma sound_plus: "sound (rx_plus P) (\<lambda>a. a \<noteq> [] \<and> (\<forall>c \<in> set a. P c))"
  unfolding sound_def
proof (intro allI impI)
  fix s a r assume "(a, r) \<in> set (rx_plus P s)"
  then obtain n where n: "a = take n s" "r = drop n s" "1 \<le> n" "n \<le> length (takeWhile P s)"
    by (auto simp: rx_plus_def less_Suc_eq_le simp del: upt_Suc)
  moreover have "length (takeWhile P s) \<le> length s" by (rule length_takeWhile_le)
  ultimately show "s = a @ r \<and> a \<noteq> [] \<and> (\<forall>c \<in> set a. P c)"
    using take_takeWhile [of n P s] by auto
qed

lemma sound_lit: "sound (rx_lit c) (\<lambda>a. a = [c])"
  by (auto simp: sound_def rx_lit_def rx_one_def split: list.splits if_splits)

lemma sound_one: "sound (rx_one P) (\<lambda>a. length a = 1 \<and> P (hd a))"
  by (auto simp: sound_def rx_one_def split: list.splits if_splits)

lemma sound_seq:
  "sound m1 L1 \<Longrightarrow> sound m2 L2 \<Longrightarrow> sound (rx_seq m1 m2) (\<lambda>a. \<exists>b c. a = b @ c \<and> L1 b \<and> L2 c)"
  unfolding sound_def
proof (intro allI impI)
  fix s a r
  assume m1: "\<forall>s a r. (a, r) \<in> set (m1 s) \<longrightarrow> s = a @ r \<and> L1 a"
    and m2: "\<forall>s a r. (a, r) \<in> set (m2 s) \<longrightarrow> s = a @ r \<and> L2 a"
  assume "(a, r) \<in> set (rx_seq m1 m2 s)"
  then obtain b q c where "(b, q) \<in> set (m1 s)" "(c, r) \<in> set (m2 q)" "a = b @ c"
    by (auto simp: rx_seq_def)
  with m1 m2 have "s = b @ q \<and> L1 b" "q = c @ r \<and> L2 c" by blast+
  with \<open>a = b @ c\<close> show "s = a @ r \<and> (\<exists>b c. a = b @ c \<and> L1 b \<and> L2 c)" by auto
qed

lemma sound_opt: "sound m L \<Longrightarrow> sound (rx_opt m) (\<lambda>a. a = [] \<or> L a)"
  by (auto simp: sound_def rx_opt_def)

lemma sound_mono: "sound m L \<Longrightarrow> (\<And>a. L a \<Longrightarrow> L' a) \<Longrightarrow> sound m L'"
  by (auto simp: sound_def)

lemma sound_lit_then:
  assumes "sound m L"
  shows "sound (rx_seq (rx_lit c) m) (\<lambda>a. \<exists>t. a = c # t \<and> L t)"
  by (rule sound_mono [OF sound_seq [OF sound_lit assms]]) force

lemma sound_then_lit:
  assumes "sound m L"
  shows "sound (rx_seq m (rx_lit c)) (\<lambda>a. \<exists>t. a = t @ [c] \<and> L t)"
  by (rule sound_mono [OF sound_seq [OF assms sound_lit]]) force

lemma sound_one_then:
  assumes "sound m L"
  shows "sound (rx_seq (rx_one P) m) (\<lambda>a. \<exists>x t. a = x # t \<and> P x)"
proof (rule sound_mono [OF sound_seq [OF sound_one assms]])
  fix a assume "\<exists>b c. a = b @ c \<and> (length b = 1 \<and> P (hd b)) \<and> L c"
  then obtain b c where "a = b @ c" "length b = 1" "P (hd b)" by blast
  then show "\<exists>x t. a = x # t \<and> P x" by (cases b) auto
qed

lemma sound_user: "sound g_user (\<lambda>a. a \<noteq> [] \<and> (\<forall>c \<in> set a. name_char c))"
  unfolding g_user_def by (rule sound_plus)

lemma sound_host: "sound g_host (\<lambda>a. a \<noteq> [] \<and> (\<forall>c \<in> set a. name_char c))"
  unfolding g_host_def by (rule sound_plus)

lemma sound_pwd: "sound g_pwd (\<lambda>a. a \<noteq> [] \<and> pwd_ok a)"
  unfolding g_pwd_def by (rule sound_mono [OF sound_then_lit [OF sound_star]]) (elim exE conjE, simp add: pwd_ok_def)

lemma sound_port: "sound g_port port_ok"
  unfolding g_port_def by (rule sound_mono [OF sound_lit_then [OF sound_plus]]) (elim exE conjE, simp add: port_ok_def)

lemma sound_path: "sound g_path (marked CHR ''/'')"
  unfolding g_path_def by (rule sound_mono [OF sound_lit_then [OF sound_star]]) (elim exE conjE, simp)

lemma sound_query: "sound g_query (marked CHR ''?'')"
  unfolding g_query_def by (rule sound_mono [OF sound_lit_then [OF sound_star]]) (elim exE conjE, simp)

lemma sound_fragment: "sound g_fragment (marked CHR ''#'')"
  unfolding g_fragment_def by (rule sound_mono [OF sound_lit_then [OF sound_star]]) (elim exE conjE, simp)

lemma sound_scheme: "sound g_scheme (\<lambda>a. a \<noteq> [] \<and> is_alpha (hd a))"
  unfolding g_scheme_def
  by (rule sound_mono [OF sound_one_then [OF sound_seq [OF sound_star sound_seq [OF sound_lit sound_opt
          [OF sound_seq [OF sound_lit sound_lit]]]]]]) (elim exE conjE, simp)

subsection \<open>Sequences of groups\<close>

definition sound_g :: "groups \<Rightarrow> (string list \<Rightarrow> bool) \<Rightarrow> bool" where
  "sound_g k Q \<longleftrightarrow> (\<forall>s gs r. (gs, r) \<in> set (k s) \<longrightarrow> s = concat gs @ r \<and> Q gs)"

lemma sound_gD: "sound_g k Q \<Longrightarrow> (gs, r) \<in> set (k s) \<Longrightarrow> s = concat gs @ r \<and> Q gs"
  by (auto simp: sound_g_def)

lemma sound_g_cap:
  assumes "sound m L" and "sound_g k Q"
  shows "sound_g (cap m k) (\<lambda>gs. \<exists>a gs'. gs = a # gs' \<and> L a \<and> Q gs')"
  unfolding sound_g_def
proof (intro allI impI)
  fix s gs r assume "(gs, r) \<in> set (cap m k s)"
  then obtain a q gs' where g: "(a, q) \<in> set (m s)" "(gs', r) \<in> set (k q)" "gs = a # gs'"
    by (auto simp: cap_def)
  with soundD [OF assms(1) g(1)] sound_gD [OF assms(2) g(2)]
  show "s = concat gs @ r \<and> (\<exists>a gs'. gs = a # gs' \<and> L a \<and> Q gs')" by auto
qed

lemma sound_g_skip:
  "sound_g k Q \<Longrightarrow> sound_g (skip n k) (\<lambda>gs. \<exists>gs'. gs = replicate n [] @ gs' \<and> Q gs')"
  by (auto simp: sound_g_def skip_def)

lemma sound_g_mono: "sound_g k Q \<Longrightarrow> (\<And>gs. Q gs \<Longrightarrow> Q' gs) \<Longrightarrow> sound_g k Q'"
  unfolding sound_g_def by blast

lemma sound_g_opt:
  assumes "sound m L" and "sound_g k Q" and "L []"
  shows "sound_g (opt_cap m k) (\<lambda>gs. \<exists>a gs'. gs = a # gs' \<and> L a \<and> Q gs')"
  unfolding sound_g_def
proof (intro allI impI)
  fix s gs r assume "(gs, r) \<in> set (opt_cap m k s)"
  then consider "(gs, r) \<in> set (cap m k s)" | "(gs, r) \<in> set (skip 1 k s)"
    by (auto simp: opt_cap_def)
  then show "s = concat gs @ r \<and> (\<exists>a gs'. gs = a # gs' \<and> L a \<and> Q gs')"
  proof cases
    case 1
    with sound_gD [OF sound_g_cap [OF assms(1,2)]] show ?thesis by blast
  next
    case 2
    then obtain gs' where "(gs', r) \<in> set (k s)" "gs = [] # gs'" by (auto simp: skip_def)
    with sound_gD [OF assms(2)] assms(3) show ?thesis by auto
  qed
qed

definition tail_ok :: "string list \<Rightarrow> bool" where
  "tail_ok gs \<longleftrightarrow> (\<exists>pa q f. gs = [pa, q, f] \<and> marked CHR ''/'' pa \<and> marked CHR ''?'' q \<and> marked CHR ''#'' f)"

definition hostport_ok :: "string list \<Rightarrow> bool" where
  "hostport_ok gs \<longleftrightarrow> (\<exists>h po gs'. gs = h # po # gs' \<and> port_ok po \<and> tail_ok gs')"

definition authority_ok :: "string list \<Rightarrow> bool" where
  "authority_ok gs \<longleftrightarrow> (\<exists>u pw gs'. gs = u # pw # gs' \<and> (u = [] \<longleftrightarrow> pw = []) \<and> pwd_ok pw \<and> hostport_ok gs')"

lemma sound_tail: "sound_g g_tail tail_ok"
proof -
  have "sound_g (\<lambda>s. [([], s)]) (\<lambda>gs. gs = [])" by (simp add: sound_g_def)
  from sound_g_opt [OF sound_fragment this marked_simps(1)] have "sound_g (opt_cap g_fragment (\<lambda>s. [([], s)])) (\<lambda>gs. \<exists>f. gs = [f] \<and> marked CHR ''#'' f)"
    by (rule sound_g_mono) auto
  from sound_g_opt [OF sound_query this marked_simps(1)] have "sound_g (opt_cap g_query (opt_cap g_fragment (\<lambda>s. [([], s)])))
      (\<lambda>gs. \<exists>q f. gs = [q, f] \<and> marked CHR ''?'' q \<and> marked CHR ''#'' f)"
    by (rule sound_g_mono) auto
  from sound_g_opt [OF sound_path this marked_simps(1)] show ?thesis
    unfolding g_tail_def by (rule sound_g_mono) (auto simp: tail_ok_def)
qed

lemma sound_hostport: "sound_g g_hostport hostport_ok"
proof -
  have "sound_g (opt_cap g_port g_tail) (\<lambda>gs. \<exists>po gs'. gs = po # gs' \<and> port_ok po \<and> tail_ok gs')"
    by (rule sound_g_opt [OF sound_port sound_tail]) simp
  from sound_g_cap [OF sound_host this] show ?thesis
    unfolding g_hostport_def by (rule sound_g_mono) (auto simp: hostport_ok_def)
qed

lemma sound_authority: "sound_g g_authority authority_ok"
  unfolding sound_g_def
proof (intro allI impI)
  fix s gs r assume "(gs, r) \<in> set (g_authority s)"
  then consider "(gs, r) \<in> set (cap g_user (cap g_pwd g_hostport) s)"
    | "(gs, r) \<in> set (skip 2 g_hostport s)" | "(gs, r) \<in> set (skip 4 g_tail s)"
    by (auto simp: g_authority_def)
  then show "s = concat gs @ r \<and> authority_ok gs"
  proof cases
    case 1
    from sound_gD [OF sound_g_cap [OF sound_user sound_g_cap [OF sound_pwd sound_hostport]] this]
    show ?thesis unfolding authority_ok_def by blast
  next
    case 2
    from sound_gD [OF sound_g_skip [OF sound_hostport] this]
    show ?thesis by (auto simp: authority_ok_def numeral_2_eq_2)
  next
    case 3
    from sound_gD [OF sound_g_skip [OF sound_tail] this]
    show ?thesis by (auto simp: authority_ok_def hostport_ok_def numeral_eq_Suc)
  qed
qed

definition groups_parts :: "string list \<Rightarrow> parts" where
  "groups_parts gs =
     \<lparr>p_scheme = gs ! 0, p_user = gs ! 1, p_password = gs ! 2, p_host = gs ! 3, p_port = gs ! 4,
      p_path = gs ! 5, p_query = gs ! 6, p_fragment = gs ! 7\<rparr>"

lemma uri_match_sound:
  assumes "uri_match s = Some gs"
  shows "p_text (groups_parts gs) = s \<and> parts_marked (groups_parts gs) \<and> length gs = 8 \<and> is_alpha (hd s)"
proof -
  from assms obtain r where "List.find (\<lambda>(gs, r). r = []) (cap g_scheme g_authority s) = Some (gs, r)"
    by (auto simp: uri_match_def)
  then have g: "(gs, []) \<in> set (cap g_scheme g_authority s)" by (auto simp: find_Some_iff in_set_conv_nth)
  from sound_gD [OF sound_g_cap [OF sound_scheme sound_authority] g]
  obtain sc gs' where s: "s = concat gs" "gs = sc # gs'" "sc \<noteq> [] \<and> is_alpha (hd sc)" "authority_ok gs'" by auto
  then obtain u pw h po pa q f where gs: "gs = [sc, u, pw, h, po, pa, q, f]" "u = [] \<longleftrightarrow> pw = []" "pwd_ok pw"
    "port_ok po" "marked CHR ''/'' pa" "marked CHR ''?'' q" "marked CHR ''#'' f"
    unfolding authority_ok_def hostport_ok_def tail_ok_def by blast
  then show ?thesis using s
    by (simp add: groups_parts_def p_text_def parts_marked_def parts_ok_def)
qed

lemma try_parse_conc:
  assumes "rx_uri_ok rx"
  shows "try_parse F rx s u =
    (if \<exists>c \<in> set s. iscntrl F c then (False, u)
     else case uri_match s of None \<Rightarrow> (False, u) | Some gs \<Rightarrow> (True, conc (groups_parts gs)))"
proof (cases "uri_match s")
  case None
  with assms show ?thesis by (simp add: try_parse_def rx_uri_ok_def)
next
  case (Some gs)
  from uri_match_sound [OF this] have t: "p_text (groups_parts gs) = s" and len: "length gs = 8" by simp_all
  have "map length gs ! i = length (gs ! i)" if "i < 8" for i using that len by simp
  then show ?thesis using Some assms t
    by (simp add: try_parse_def rx_uri_ok_def Let_def conc_def) (simp add: groups_parts_def)
qed

lemma u_text_conc: "u_text (conc p) = p_text p"
  by (simp add: conc_def)

text \<open>
  C8. Whatever \<open>try_parse\<close> accepts, the object afterwards holds exactly that text and satisfies
  the invariant of the class, so every accessor and setter works on it; the text starts with a
  letter and has no control character. When it refuses a text, the object is what it was.
\<close>

theorem try_parse_sound:
  assumes "rx_uri_ok rx" and "try_parse F rx s u = (ok, u')"
  shows "(ok \<longrightarrow> u_text u' = s \<and> uri_inv u' \<and> is_alpha (hd s) \<and> (\<forall>c \<in> set s. \<not> iscntrl F c))
    \<and> (\<not> ok \<longrightarrow> u' = u)"
proof (cases "uri_match s")
  case None
  with assms(2) show ?thesis by (auto simp: try_parse_conc [OF assms(1)] split: if_splits)
next
  case (Some gs)
  from uri_match_sound [OF this] Some assms(2) show ?thesis
    by (auto simp: try_parse_conc [OF assms(1)] uri_inv_conc u_text_conc split: if_splits)
qed

lemma rx_uri_ok_match: "rx_uri_ok (\<lambda>s. map_option (map length) (uri_match s))"
  by (simp add: rx_uri_ok_def)

theorem try_parse_sound_witness:
  "\<exists>u. try_parse ascii_fmt (\<lambda>s. map_option (map length) (uri_match s)) ''http://me@h:80/p?q#f'' uri_empty = (True, u)
     \<and> u_text u = ''http://me@h:80/p?q#f'' \<and> uri_inv u \<and> p_user (parts_of u) = ''me''"
proof -
  let ?rx = "\<lambda>s. map_option (map length) (uri_match s)"
  let ?s = "''http://me@h:80/p?q#f''"
  have "fst (try_parse ascii_fmt ?rx ?s uri_empty) \<and> p_user (parts_of (snd (try_parse ascii_fmt ?rx ?s uri_empty))) = ''me''"
    by code_simp
  then obtain u where u: "try_parse ascii_fmt ?rx ?s uri_empty = (True, u)" "p_user (parts_of u) = ''me''"
    by (cases "try_parse ascii_fmt ?rx ?s uri_empty") auto
  with try_parse_sound [OF rx_uri_ok_match u(1)] show ?thesis by blast
qed

end
