(* ===== verification/Uri_Reparse.thy ===== *)
theory Uri_Reparse
  imports Uri_Parse
begin

text \<open>
  Parsing the text of a URI gives the URI back, when its parts are clean: no part holds a
  character that ends it, and a query or a fragment follows a path. What the constructor from
  elements makes is clean.
\<close>

section \<open>The first way to match\<close>

definition first :: "matcher \<Rightarrow> string \<Rightarrow> string \<Rightarrow> string \<Rightarrow> bool" where
  "first m s a r \<longleftrightarrow> (\<exists>xs. m s = (a, r) # xs)"















section \<open>Clean parts\<close>









lemma first_append: "first m s a r \<Longrightarrow> m s @ ys \<noteq> []"
  by (auto simp: first_def)






section \<open>URIs made from elements\<close>

text \<open>\<open>[a-z][a-z0-9.+-]*(:(//)?)?\<close>, the whole string: only one way to match is possible.\<close>

definition lower_char :: "char \<Rightarrow> bool" where
  "lower_char c \<longleftrightarrow> c \<in> set ''abcdefghijklmnopqrstuvwxyz''"

definition lower_scheme_char :: "char \<Rightarrow> bool" where
  "lower_scheme_char c \<longleftrightarrow> lower_char c \<or> c \<in> set ''0123456789.+-''"

definition scheme_match :: "string \<Rightarrow> (bool \<times> bool) option" where
  "scheme_match s =
     (let r = dropWhile lower_scheme_char s
      in if s = [] \<or> \<not> lower_char (hd s) then None
         else if r = [] then Some (False, False)
         else if r = '':'' then Some (True, False)
         else if r = ''://'' then Some (True, True)
         else None)"















text \<open>Why the path is needed: the host group of the pattern excludes \<open>/\<close>, \<open>:\<close> and \<open>@\<close> only, so without a
  path the query is read as part of the host.\<close>

lemma query_without_path:
  "map_sum id (\<lambda>u. (u_text u, host ascii_fmt u, query ascii_fmt u))
     (uri_make ascii_fmt scheme_match ''http'' [] [] ''h'' 0 [] ''q=1'' [])
   = Inr (''http://h?q=1'', ''h'', ''q=1'')
   \<and> map_sum id (\<lambda>u. (host ascii_fmt u, query ascii_fmt u))
       (uri_of_string ascii_fmt (\<lambda>s. map_option (map length) (uri_match s)) ''http://h?q=1'')
   = Inr (''h?q=1'', [])"
  by (rule conjI; code_simp)

text \<open>These two objects are equal, since \<open>operator==\<close> compares texts, but \<open>hash()\<close> mixes in the offsets.\<close>

lemma equal_uris_hash:
  "case (uri_make ascii_fmt scheme_match ''http'' [] [] ''h'' 0 [] ''q=1'' [],
         uri_of_string ascii_fmt (\<lambda>s. map_option (map length) (uri_match s)) ''http://h?q=1'') of
     (Inr u, Inr v) \<Rightarrow> uri_eq u v \<and> uri_hash (\<lambda>s. 0) of_int u \<noteq> uri_hash (\<lambda>s. 0) of_int v
   | _ \<Rightarrow> False"
  by code_simp

end
