(* ===== verification/Path_Name.thy ===== *)
theory Path_Name
  imports Prelude
begin

text \<open>
  The path names of class \<open>Path\<close> (\<open>path.hpp\<close>, \<open>path.cpp\<close>), in the POSIX branch of the code: the
  canonical form every constructor establishes, and the operations on names that touch no file.
  A value of the class is its only member, the file name. A position \<open>npos\<close> is \<^const>\<open>None\<close>.
\<close>

section \<open>State and constants\<close>

record path =
  filename :: string

abbreviation native_delimiter :: char where "native_delimiter \<equiv> CHR ''/''"

datatype form = Form_empty | Form_absolute | Form_drive_absolute | Form_drive_relative | Form_relative

definition path_empty :: path where
  "path_empty = \<lparr>filename = []\<rparr>"

definition find_first_not :: "char \<Rightarrow> string \<Rightarrow> nat \<Rightarrow> nat option" where
  "find_first_not c s p = find_from (\<lambda>x. x \<noteq> c) s p"

definition or_size :: "nat option \<Rightarrow> string \<Rightarrow> nat" where
  "or_size p s = (case p of None \<Rightarrow> length s | Some i \<Rightarrow> i)"

section \<open>The canonical form\<close>

definition get_root :: "string \<Rightarrow> string" where
  "get_root s =
     (if s = [] then []
      else case find_first_not CHR ''/'' s 0 of None \<Rightarrow> s | Some pos \<Rightarrow> substr s 0 pos)"

definition trim_leading :: "string \<Rightarrow> string" where
  "trim_leading s = (let p = or_size (find_first_not native_delimiter s 0) s in if 1 < p then str_erase s 0 (p - 1) else s)"

text \<open>The loop that replaces \<open>/./\<close> by \<open>/\<close>, from position \<open>p\<close> on.\<close>

lemma find_str_SomeD:
  assumes "find_str s t p = Some k"
  shows "p \<le> k" and "k + length t \<le> length s" and "take (length t) (drop k s) = t"
    and "\<forall>i. p \<le> i \<and> i < k \<longrightarrow> take (length t) (drop i s) \<noteq> t"
proof -
  have first: "find_sub t r = Some j \<Longrightarrow> j + length t \<le> length r \<and> take (length t) (drop j r) = t
      \<and> (\<forall>i < j. take (length t) (drop i r) \<noteq> t)" for r j
  proof (induction r arbitrary: j)
    case Nil
    then show ?case by (simp add: find_sub.simps split: if_splits)
  next
    case (Cons x r)
    show ?case
    proof (cases "take (length t) (x # r) = t")
      case True
      then have "length t \<le> length (x # r)" by (metis length_take min.cobounded1)
      with True Cons.prems show ?thesis by (simp add: find_sub.simps [of t "x # r"])
    next
      case False
      then obtain i where i: "find_sub t r = Some i" "j = Suc i"
        using Cons.prems by (auto simp: find_sub.simps [of t "x # r"])
      note IH = Cons.IH [OF i(1)]
      have "take (length t) (drop m (x # r)) \<noteq> t" if "m < Suc i" for m
        using that False IH by (cases m) auto
      with IH i(2) show ?thesis by auto
    qed
  qed
  from assms obtain j where j: "find_sub t (drop p s) = Some j" "k = p + j" "p \<le> length s"
    by (auto simp: find_str_def split: if_splits)
  note f = first [OF j(1)]
  show "p \<le> k" using j(2) by simp
  show "k + length t \<le> length s" using conjunct1 [OF f] j(2,3) by (simp add: le_diff_conv2 add.commute add.left_commute)
  show "take (length t) (drop k s) = t" using f j(2) by (simp add: add.commute)
  show "\<forall>i. p \<le> i \<and> i < k \<longrightarrow> take (length t) (drop i s) \<noteq> t"
  proof (intro allI impI)
    fix i assume "p \<le> i \<and> i < k"
    then have "i - p < j" "i - p + p = i" using j(2) by auto
    with f show "take (length t) (drop i s) \<noteq> t" by (metis drop_drop)
  qed
qed

function undot_loop :: "string \<Rightarrow> nat \<Rightarrow> string" where
  "undot_loop s p =
     (case find_str s ''/./'' p of None \<Rightarrow> s | Some k \<Rightarrow> undot_loop (str_erase s k 2) k)"
  by auto

termination
proof (relation "measure (\<lambda>(s, p). length s)")
  fix s p k assume "find_str s ''/./'' p = Some k"
  from find_str_SomeD(2) [OF this] show "((str_erase s k 2, k), s, p) \<in> measure (\<lambda>(s, p). length s)"
    by (simp add: str_erase_def)
qed simp

declare undot_loop.simps [simp del]

text \<open>The loop that replaces runs of slashes by one.\<close>

function unslash_loop :: "string \<Rightarrow> nat \<Rightarrow> string" where
  "unslash_loop s p =
     (if length s \<le> p then s
      else case find_str s ''//'' p of
          None \<Rightarrow> s
        | Some k \<Rightarrow> let q = or_size (find_first_not native_delimiter s (k + 2)) s
                    in unslash_loop (str_erase s (k + 1) (q - k - 1)) (k + 1))"
  by auto

termination
proof (relation "measure (\<lambda>(s, p). length s)")
  fix s p k q
  assume k: "find_str s ''//'' p = Some k" and q: "q = or_size (find_first_not native_delimiter s (k + 2)) s"
  have "k + 2 \<le> length s" using find_str_SomeD(2) [OF k] by simp
  moreover have "k + 2 \<le> q"
    using calculation q find_from_Some [of _ s "k + 2"]
    by (auto simp: or_size_def find_first_not_def split: option.splits)
  ultimately show "((str_erase s (k + 1) (q - k - 1), k + 1), s, p) \<in> measure (\<lambda>(s, p). length s)"
    by (simp add: str_erase_def)
qed simp

declare unslash_loop.simps [simp del]

text \<open>The loop that pops trailing \<open>/\<close> and \<open>/.\<close>.\<close>

function trim_trailing :: "nat \<Rightarrow> string \<Rightarrow> string" where
  "trim_trailing min_root s =
     (if min_root < length s
         \<and> (last s = native_delimiter \<or> last s = CHR ''.'' \<and> s ! (length s - 2) = native_delimiter)
      then trim_trailing min_root (butlast s) else s)"
  by auto

termination by (relation "measure (\<lambda>(m, s). length s)") auto

declare trim_trailing.simps [simp del]

definition canonical :: "string \<Rightarrow> string" where
  "canonical s =
     (let s1 = trim_leading s;
          s2 = undot_loop s1 0;
          s3 = (case find_first_not CHR ''/'' s2 0 of None \<Rightarrow> s2 | Some p \<Rightarrow> unslash_loop s2 p)
      in trim_trailing (max (length (get_root s3)) 1) s3)"

definition is_legal :: "path \<Rightarrow> bool" where
  "is_legal p = (find_from ((=) CHR 0x00) (filename p) 0 = None)"

text \<open>\<open>make_canonical(flags)\<close>; \<open>legal\<close> is the flag \<open>legal_name\<close>.\<close>

definition make_canonical :: "bool \<Rightarrow> path \<Rightarrow> path res" where
  "make_canonical legal p =
     (let q = p\<lparr>filename := canonical (filename p)\<rparr>
      in if legal \<and> \<not> is_legal q then Inl (Invalid_argument ''Invalid file name'') else Inr q)"

definition mk_path :: "string \<Rightarrow> path" where
  "mk_path s = \<lparr>filename = canonical s\<rparr>"

lemma make_canonical_none: "make_canonical False \<lparr>filename = s\<rparr> = Inr (mk_path s)"
  by (simp add: make_canonical_def mk_path_def)

section \<open>Operations on names\<close>

definition p_empty :: "path \<Rightarrow> bool" where
  "p_empty p = (filename p = [])"

definition is_absolute :: "path \<Rightarrow> bool" where
  "is_absolute p = (filename p \<noteq> [] \<and> filename p ! 0 = CHR ''/'')"

definition is_drive_absolute :: "path \<Rightarrow> bool" where
  "is_drive_absolute p = False"

definition is_drive_relative :: "path \<Rightarrow> bool" where
  "is_drive_relative p = False"

definition is_relative :: "path \<Rightarrow> bool" where
  "is_relative p = (\<not> p_empty p \<and> \<not> is_absolute p \<and> \<not> is_drive_absolute p \<and> \<not> is_drive_relative p)"

definition is_leaf :: "path \<Rightarrow> bool" where
  "is_leaf p = (if filename p = [] then False else find_from ((=) CHR ''/'') (filename p) 0 = None)"

definition is_root :: "path \<Rightarrow> bool" where
  "is_root p = (filename p \<noteq> [] \<and> length (get_root (filename p)) = length (filename p))"

definition path_form :: "path \<Rightarrow> form" where
  "path_form p =
     (if filename p = [] then Form_empty
      else if is_drive_absolute p then Form_drive_absolute
      else if is_drive_relative p then Form_drive_relative
      else if is_absolute p then Form_absolute
      else Form_relative)"

definition as_url :: "path \<Rightarrow> string res" where
  "as_url p =
     (if \<not> is_absolute p then Inl (Invalid_argument ''File URL must be an absolute path'')
      else let suffix = filename p;
               prefix = (if suffix ! 0 \<noteq> CHR ''/'' then ''file:///'' else ''file://'')
           in Inr (prefix @ suffix))"

function breakdown_loop :: "string \<Rightarrow> nat \<Rightarrow> string list" where
  "breakdown_loop s p =
     (if length s \<le> p then []
      else let q = or_size (find_from ((=) native_delimiter) s p) s
           in substr s p (q - p) # breakdown_loop s (q + 1))"
  by auto

termination
proof (relation "measure (\<lambda>(s, p). length s - p)")
  fix s p q
  assume p: "\<not> length s \<le> p" and q: "q = or_size (find_from ((=) native_delimiter) s p) s"
  have "p \<le> q" using p q find_from_Some [of _ s p] by (auto simp: or_size_def split: option.splits)
  with p show "((s, q + 1), s, p) \<in> measure (\<lambda>(s, p). length s - p)" by simp
qed simp

declare breakdown_loop.simps [simp del]

definition os_breakdown :: "path \<Rightarrow> string list" where
  "os_breakdown p =
     (if p_empty p then []
      else let r = get_root (filename p)
           in (if r \<noteq> [] then [r] else []) @ breakdown_loop (filename p) (length r))"

definition leaf_start :: "string \<Rightarrow> nat" where
  "leaf_start s = (case find_last ((=) native_delimiter) s of None \<Rightarrow> 0 | Some k \<Rightarrow> k + 1)"

definition get_base_ext :: "path \<Rightarrow> string \<times> string" where
  "get_base_ext p =
     (let s = filename p
      in if s = [] then (s, s)
         else let start = leaf_start s;
                  dot = (if start < length s
                         then (case find_last ((=) CHR ''.'') s of
                                 None \<Rightarrow> None
                               | Some dot \<Rightarrow> if dot \<le> start \<or> length s - 1 \<le> dot then None else Some dot)
                         else None)
              in case dot of
                   None \<Rightarrow> (drop start s, [])
                 | Some dot \<Rightarrow> (substr s start (dot - start), drop dot s))"

definition get_leaf :: "path \<Rightarrow> string" where
  "get_leaf p =
     (if filename p = [] then filename p else drop (leaf_start (filename p)) (filename p))"

definition change_ext :: "string \<Rightarrow> path \<Rightarrow> path res" where
  "change_ext new_ext p =
     (if p_empty p \<or> length (get_root (filename p)) = length (filename p)
      then Inl (Invalid_argument ''Can't change file extension'')
      else let prefix = take (length (filename p) - length (snd (get_base_ext p))) (filename p);
               prefix = (if new_ext \<noteq> [] \<and> new_ext ! 0 \<noteq> CHR ''.'' then prefix @ ''.'' else prefix)
           in Inr (mk_path (prefix @ new_ext)))"

definition split_leaf :: "path \<Rightarrow> string \<times> string" where
  "split_leaf p = get_base_ext p"

definition split_path :: "path \<Rightarrow> path \<times> path" where
  "split_path p =
     (let leaf = get_leaf p;
          dir = substr (filename p) 0 (length (filename p) - length leaf)
      in (mk_path dir, mk_path leaf))"

definition split_root :: "path \<Rightarrow> path \<times> path" where
  "split_root p =
     (let r = get_root (filename p) in (mk_path r, mk_path (drop (length r) (filename p))))"

definition join :: "path \<Rightarrow> path \<Rightarrow> path" where
  "join lhs rhs =
     (if p_empty lhs \<or> is_absolute rhs then rhs
      else let result = filename lhs;
               r = get_root (filename lhs);
               result = (if length r < length result \<and> last result \<noteq> native_delimiter \<and> \<not> p_empty rhs
                         then result @ [native_delimiter] else result)
           in mk_path (result @ filename rhs))"

definition do_combine :: "path list \<Rightarrow> (path \<Rightarrow> path \<Rightarrow> path) \<Rightarrow> path" where
  "do_combine files f = (case files of [] \<Rightarrow> path_empty | p # ps \<Rightarrow> foldl f p ps)"

definition join_all :: "path list \<Rightarrow> path" where
  "join_all files = do_combine files join"

text \<open>\<open>std::mismatch\<close>: the length of the common prefix.\<close>

fun mismatch :: "'a list \<Rightarrow> 'a list \<Rightarrow> nat" where
  "mismatch (x # xs) (y # ys) = (if x = y then Suc (mismatch xs ys) else 0)"
| "mismatch _ _ = 0"

fun back_cut :: "string \<Rightarrow> nat \<Rightarrow> nat \<Rightarrow> nat" where
  "back_cut s r 0 = 0"
| "back_cut s r (Suc n) = (if r < n \<and> s ! n \<noteq> native_delimiter then back_cut s r n else n)"

definition common :: "path \<Rightarrow> path \<Rightarrow> path" where
  "common lhs rhs =
     (let l = filename lhs; r = filename rhs; root1 = get_root l; root2 = get_root r
      in if root1 \<noteq> root2 then path_empty
         else let cut = mismatch l r
              in if cut = length root1 then mk_path (substr l 0 cut)
                 else if (cut = length l \<or> l ! cut = native_delimiter) \<and> (cut = length r \<or> r ! cut = native_delimiter)
                 then mk_path (substr l 0 cut)
                 else mk_path (substr l 0 (back_cut l (length root1) cut)))"

definition common_all :: "path list \<Rightarrow> path" where
  "common_all files = do_combine files common"

text \<open>\<open>prefix.filename_.assign(len, '.')\<close> with a delimiter at every third place.\<close>

definition dots :: "nat \<Rightarrow> string" where
  "dots n = (let len = 3 * n - 1
             in map (\<lambda>i. if i mod 3 = 2 then native_delimiter else CHR ''.'') [0..<len])"

definition relative_to :: "path \<Rightarrow> path \<Rightarrow> path res" where
  "relative_to p base =
     (let base_form = path_form base; this_form = path_form p
      in if \<not> (base_form = Form_absolute \<and> this_form = Form_absolute)
            \<and> \<not> (base_form = Form_relative \<and> this_form = Form_relative)
         then Inl (Invalid_argument ''Invalid combination of arguments to Path::relative_to()'')
         else let base_vec = os_breakdown base; this_vec = os_breakdown p
              in if this_form = Form_absolute \<and> base_vec ! 0 \<noteq> this_vec ! 0 then Inr p
                 else let cut = mismatch base_vec this_vec;
                          prefix = (if cut < length base_vec then \<lparr>filename = dots (length base_vec - cut)\<rparr> else path_empty);
                          suffix = join_all (map mk_path (drop cut this_vec));
                          rel_path = join prefix suffix
                      in Inr (if p_empty rel_path then mk_path ''.'' else rel_path))"

definition path_eq :: "path \<Rightarrow> path \<Rightarrow> bool" where
  "path_eq lhs rhs = (filename lhs = filename rhs)"

definition is_hidden :: "path \<Rightarrow> bool" where
  "is_hidden p =
     (if filename p = [] \<or> filename p = ''.'' \<or> filename p = ''..'' then False
      else let leaf = get_leaf p in leaf \<noteq> [] \<and> leaf ! 0 = CHR ''.'')"

definition form_text :: "form \<Rightarrow> string" where
  "form_text f = (case f of
      Form_empty \<Rightarrow> ''empty''
    | Form_absolute \<Rightarrow> ''absolute''
    | Form_relative \<Rightarrow> ''relative''
    | Form_drive_absolute \<Rightarrow> ''drive_absolute''
    | Form_drive_relative \<Rightarrow> ''drive_relative'')"

section \<open>Comparison\<close>

text \<open>
  \<open>icase_equal\<close> and \<open>icase_less\<close> are \<open>AsciiIcaseEqual\<close> and \<open>AsciiIcaseLess\<close> of rs-format. The default mode of a
  comparison object is the native one, which is \<open>cased\<close> where names are case sensitive.
\<close>

datatype cmp_mode = Cased | Icase

definition native_cmp :: "bool \<Rightarrow> cmp_mode" where
  "native_cmp native_case = (if native_case then Cased else Icase)"

definition path_less :: "path \<Rightarrow> path \<Rightarrow> bool" where
  "path_less lhs rhs = string_less (filename lhs) (filename rhs)"

definition path_equal_by :: "(string \<Rightarrow> string \<Rightarrow> bool) \<Rightarrow> cmp_mode \<Rightarrow> path \<Rightarrow> path \<Rightarrow> bool" where
  "path_equal_by icase_equal m lhs rhs =
     (if m = Icase then icase_equal (filename lhs) (filename rhs) else path_eq lhs rhs)"

definition path_less_by :: "(string \<Rightarrow> string \<Rightarrow> bool) \<Rightarrow> cmp_mode \<Rightarrow> path \<Rightarrow> path \<Rightarrow> bool" where
  "path_less_by icase_less m lhs rhs =
     (if m = Icase then icase_less (filename lhs) (filename rhs) else path_less lhs rhs)"

text \<open>Exactly one of \<open>p < q\<close>, \<open>p == q\<close>, \<open>q < p\<close> holds.\<close>

lemma path_less_total: "path_eq p q \<or> path_less p q \<or> path_less q p"
  using string_less_total by (simp add: path_eq_def path_less_def)

lemma path_less_not_eq: "path_less p q \<Longrightarrow> \<not> path_eq p q \<and> \<not> path_less q p"
  using string_less_trans [of "filename p" "filename q" "filename p"] by (auto simp: path_eq_def path_less_def)

definition join_assign :: "path \<Rightarrow> path \<Rightarrow> path" where
  "join_assign lhs rhs = join lhs rhs"

end
