(* ===== verification/Path_Canon.thy ===== *)
theory Path_Canon
  imports Path_Name
begin

text \<open>
  What the canonical form of a path name is: the name is cut at the slashes, the empty elements
  and the elements \<open>.\<close> go (a leading \<open>.\<close> of a relative name stays), the rest is joined again. The
  loops of \<open>make_canonical\<close> compute that, except for absolute names with \<open>./\<close> right after the root
  and another slash after it, where the code leaves more than one leading slash.
\<close>

section \<open>Elements\<close>

fun split_slash :: "string \<Rightarrow> string list" where
  "split_slash [] = [[]]"
| "split_slash (c # s) =
     (if c = CHR ''/'' then [] # split_slash s
      else (case split_slash s of d # ds \<Rightarrow> (c # d) # ds | [] \<Rightarrow> [[c]]))"

definition slash_tail :: "string list \<Rightarrow> string" where
  "slash_tail cs = concat (map ((#) CHR ''/'') cs)"

definition join_slash :: "string list \<Rightarrow> string" where
  "join_slash cs = (case cs of [] \<Rightarrow> [] | c # ds \<Rightarrow> c @ slash_tail ds)"

abbreviation nosl :: "string \<Rightarrow> bool" where "nosl c \<equiv> CHR ''/'' \<notin> set c"

definition proper :: "string \<Rightarrow> bool" where
  "proper c \<longleftrightarrow> c \<noteq> [] \<and> c \<noteq> ''.''"

lemma slash_tail_simps [simp]:
  "slash_tail [] = []" "slash_tail (c # cs) = CHR ''/'' # c @ slash_tail cs"
  "slash_tail (cs @ ds) = slash_tail cs @ slash_tail ds"
  by (simp_all add: slash_tail_def)

lemma slash_tail_Nil_iff [simp]: "slash_tail cs = [] \<longleftrightarrow> cs = []"
  by (cases cs) simp_all

lemma join_slash_simps [simp]: "join_slash [] = []" "join_slash (c # cs) = c @ slash_tail cs"
  by (simp_all add: join_slash_def)

lemma split_slash_nonempty [simp]: "split_slash s \<noteq> []"
  by (induction s) (auto split: list.splits)

lemma join_split [simp]: "join_slash (split_slash s) = s"
  by (induction s) (auto simp: join_slash_def split: list.splits)

lemma split_slash_nosl: "c \<in> set (split_slash s) \<Longrightarrow> nosl c"
  by (induction s arbitrary: c) (auto split: list.splits if_splits)

lemma split_nosl_append: "nosl c \<Longrightarrow> split_slash (c @ s) = (c @ hd (split_slash s)) # tl (split_slash s)"
  by (induction c) (auto split: list.splits)

lemma split_join: "nosl c \<Longrightarrow> \<forall>d \<in> set cs. nosl d \<Longrightarrow> split_slash (c @ slash_tail cs) = c # cs"
proof (induction cs arbitrary: c)
  case Nil
  then show ?case using split_nosl_append [of c "[]"] by simp
next
  case (Cons d cs)
  then show ?case using split_nosl_append [of c "CHR ''/'' # d @ slash_tail cs"] by simp
qed

lemma split_cases:
  obtains c cs where "split_slash s = c # cs" "s = c @ slash_tail cs" "nosl c" "\<forall>d \<in> set cs. nosl d"
proof -
  obtain c cs where c: "split_slash s = c # cs" by (cases "split_slash s") auto
  have "nosl d" if "d \<in> set (c # cs)" for d using that split_slash_nosl [of d s] c by simp
  moreover have "s = c @ slash_tail cs" using join_split [of s] c by simp
  ultimately show thesis using that c by simp
qed

section \<open>The loops, one character at a time\<close>

fun undot :: "string \<Rightarrow> string" where
  "undot (a # b # c # r) =
     (if a = CHR ''/'' \<and> b = CHR ''.'' \<and> c = CHR ''/'' then undot (c # r) else a # undot (b # c # r))"
| "undot s = s"

fun unslash :: "string \<Rightarrow> string" where
  "unslash (a # b # r) = (if a = CHR ''/'' \<and> b = CHR ''/'' then unslash (b # r) else a # unslash (b # r))"
| "unslash s = s"

lemma undot_cons: "take 3 (c # u) \<noteq> ''/./'' \<Longrightarrow> undot (c # u) = c # undot u"
  by (cases "c # u" rule: undot.cases) (auto simp: numeral_3_eq_3)

lemma undot_append:
  "\<forall>i < length t. take 3 (drop i (t @ u)) \<noteq> ''/./'' \<Longrightarrow> undot (t @ u) = t @ undot u"
proof (induction t)
  case (Cons c t)
  from Cons.prems have "take 3 (c # t @ u) \<noteq> ''/./''" by (metis append_Cons drop0 length_greater_0_conv list.distinct(1))
  moreover have "\<forall>i < length t. take 3 (drop i (t @ u)) \<noteq> ''/./''"
  proof (intro allI impI)
    fix i assume "i < length t"
    then show "take 3 (drop i (t @ u)) \<noteq> ''/./''" using Cons.prems [rule_format, of "Suc i"] by simp
  qed
  ultimately show ?case using Cons.IH by (simp add: undot_cons)
qed simp

lemma find_str_NoneD:
  assumes "find_str s t p = None" and "p \<le> length s"
  shows "\<forall>i. p \<le> i \<longrightarrow> t \<noteq> [] \<longrightarrow> take (length t) (drop i s) \<noteq> t"
proof (intro allI impI notI)
  fix i assume i: "p \<le> i" "t \<noteq> []" and m: "take (length t) (drop i s) = t"
  have "drop p s = take (i - p) (drop p s) @ t @ drop (length t) (drop i s)"
  proof -
    have "drop p s = take (i - p) (drop p s) @ drop (i - p) (drop p s)" by (simp only: append_take_drop_id)
    also have "drop (i - p) (drop p s) = drop i s" using i(1) by simp
    also have "drop i s = t @ drop (length t) (drop i s)" using m by (metis append_take_drop_id)
    finally show ?thesis .
  qed
  then have "find_sub t (drop p s) \<noteq> None" using find_sub_None_iff [of t "drop p s"] by blast
  then show False using assms by (simp add: find_str_def)
qed

lemma undot_loop_undot: "p \<le> length s \<Longrightarrow> undot_loop s p = take p s @ undot (drop p s)"
proof (induction s p rule: undot_loop.induct)
  case (1 s p)
  show ?case
  proof (cases "find_str s ''/./'' p")
    case None
    have "\<forall>i < length (drop p s). take 3 (drop i (drop p s @ [])) \<noteq> ''/./''"
      using find_str_NoneD [OF None "1.prems"] by (simp add: numeral_3_eq_3)
    from undot_append [OF this] None show ?thesis by (simp add: undot_loop.simps [of s p])
  next
    case (Some k)
    note k = find_str_SomeD [OF Some]
    let ?t = "take (k - p) (drop p s)"
    have dk: "drop k s = CHR ''/'' # CHR ''.'' # drop (k + 2) s" "drop (k + 2) s = CHR ''/'' # drop (k + 3) s"
    proof -
      have m: "drop k s = ''/./'' @ drop 3 (drop k s)" using k(3) by (metis append_take_drop_id length_Cons list.size(3) numeral_3_eq_3)
      then have "drop 2 (drop k s) = CHR ''/'' # drop 3 (drop k s)" by (metis append_Cons append_Nil drop0 drop_Suc_Cons numeral_2_eq_2)
      then show two: "drop (k + 2) s = CHR ''/'' # drop (k + 3) s" by (simp add: add.commute)
      show "drop k s = CHR ''/'' # CHR ''.'' # drop (k + 2) s" using m two by (simp add: add.commute)
    qed
    have split: "drop p s = ?t @ drop k s" using k(1) by (metis append_take_drop_id drop_drop le_add_diff_inverse2)
    have "\<forall>i < length ?t. take 3 (drop i (?t @ drop k s)) \<noteq> ''/./''"
    proof (intro allI impI)
      fix i assume "i < length ?t"
      then have "p \<le> p + i \<and> p + i < k" using k(1,2) by auto
      with k(4) have "take 3 (drop (p + i) s) \<noteq> ''/./''" by (simp add: numeral_3_eq_3)
      then show "take 3 (drop i (?t @ drop k s)) \<noteq> ''/./''" using split by (simp add: add.commute)
    qed
    from undot_append [OF this] have "undot (drop p s) = ?t @ undot (drop (k + 2) s)"
      using split dk by simp
    moreover have "take p s @ ?t = take k s" using k(1) by (metis le_add_diff_inverse take_add)
    moreover have "k \<le> length (str_erase s k 2)" using k(2) by (simp add: str_erase_def)
    moreover have "take k (str_erase s k 2) = take k s" "drop k (str_erase s k 2) = drop (k + 2) s"
      using k(2) by (simp_all add: str_erase_def)
    ultimately show ?thesis
      using "1.IH" [OF Some] Some by (simp add: undot_loop.simps [of s p] flip: append_assoc)
  qed
qed

lemma unslash_cons: "take 2 (c # u) \<noteq> ''//'' \<Longrightarrow> unslash (c # u) = c # unslash u"
  by (cases "c # u" rule: unslash.cases) (auto simp: numeral_2_eq_2)

lemma unslash_append:
  "\<forall>i < length t. take 2 (drop i (t @ u)) \<noteq> ''//'' \<Longrightarrow> unslash (t @ u) = t @ unslash u"
proof (induction t)
  case (Cons c t)
  from Cons.prems have "take 2 (c # t @ u) \<noteq> ''//''" by (metis append_Cons drop0 length_greater_0_conv list.distinct(1))
  moreover have "\<forall>i < length t. take 2 (drop i (t @ u)) \<noteq> ''//''"
  proof (intro allI impI)
    fix i assume "i < length t"
    then show "take 2 (drop i (t @ u)) \<noteq> ''//''" using Cons.prems [rule_format, of "Suc i"] by simp
  qed
  ultimately show ?case using Cons.IH by (simp add: unslash_cons)
qed simp

lemma unslash_run: "unslash (replicate n CHR ''/'' @ CHR ''/'' # w) = unslash (CHR ''/'' # w)"
proof (induction n)
  case (Suc n)
  then show ?case by (cases n) simp_all
qed simp

lemma unslash_loop_unslash: "p \<le> length s \<Longrightarrow> unslash_loop s p = take p s @ unslash (drop p s)"
proof (induction s p rule: unslash_loop.induct)
  case (1 s p)
  show ?case
  proof (cases "length s \<le> p")
    case True
    with "1.prems" show ?thesis by (subst unslash_loop.simps) simp
  next
    case less: False
    show ?thesis
    proof (cases "find_str s ''//'' p")
      case None
      have "\<forall>i < length (drop p s). take 2 (drop i (drop p s @ [])) \<noteq> ''//''"
        using find_str_NoneD [OF None "1.prems"] by (simp add: numeral_2_eq_2)
      from unslash_append [OF this] None less show ?thesis by (simp add: unslash_loop.simps [of s p])
    next
      case (Some k)
      note k = find_str_SomeD [OF Some]
      define w where "w = dropWhile ((=) CHR ''/'') (drop (k + 2) s)"
      define n where "n = length (takeWhile ((=) CHR ''/'') (drop (k + 2) s))"
      have run: "takeWhile ((=) CHR ''/'') (drop (k + 2) s) = replicate n CHR ''/''"
        unfolding n_def by (rule replicate_eqI) (auto dest: set_takeWhileD)
      have dk2: "drop (k + 2) s = replicate n CHR ''/'' @ w"
        unfolding w_def run [symmetric] by simp
      have len: "n + length w = length s - (k + 2)" using arg_cong [OF dk2, of length] by simp
      define q where "q = or_size (find_first_not native_delimiter s (k + 2)) s"
      have tw: "takeWhile (\<lambda>x. \<not> x \<noteq> CHR ''/'') (drop (k + 2) s) = replicate n CHR ''/''"
        unfolding run [symmetric] by (rule arg_cong [where f = "\<lambda>P. takeWhile P (drop (k + 2) s)"]) auto
      have twl: "length (takeWhile (\<lambda>x. x = CHR ''/'') (drop (Suc (Suc k)) s)) = n" using tw by simp
      have q: "q = k + 2 + n"
        using k(2) len by (auto simp: q_def or_size_def find_first_not_def find_from_def Let_def twl)
      have "drop (k + 2 + n) s = drop n (drop (k + 2) s)" by (simp add: add.commute)
      also have "\<dots> = w" unfolding dk2 by simp
      finally have dq: "drop q s = w" unfolding q .
      have dk: "drop k s = CHR ''/'' # CHR ''/'' # replicate n CHR ''/'' @ w"
      proof -
        have "drop k s = ''//'' @ drop 2 (drop k s)" using k(3) by (metis append_take_drop_id length_Cons list.size(3) numeral_2_eq_2)
        then show ?thesis using dk2 by (simp add: add.commute)
      qed
      let ?t = "take (k - p) (drop p s)"
      have split: "drop p s = ?t @ drop k s" using k(1) by (metis append_take_drop_id drop_drop le_add_diff_inverse2)
      have "\<forall>i < length ?t. take 2 (drop i (?t @ drop k s)) \<noteq> ''//''"
      proof (intro allI impI)
        fix i assume "i < length ?t"
        then have "p \<le> p + i \<and> p + i < k" using k(1,2) by auto
        with k(4) have "take 2 (drop (p + i) s) \<noteq> ''//''" by (simp add: numeral_2_eq_2)
        then show "take 2 (drop i (?t @ drop k s)) \<noteq> ''//''" using split by (simp add: add.commute)
      qed
      from unslash_append [OF this] have "unslash (drop p s) = ?t @ unslash (drop k s)" using split by simp
      moreover have "unslash (drop k s) = unslash (CHR ''/'' # w)"
        unfolding dk using unslash_run [of "Suc n" w] by (metis append_Cons replicate_Suc replicate_app_Cons_same)
      moreover have "unslash (CHR ''/'' # w) = CHR ''/'' # unslash w"
      proof (rule unslash_cons)
        have "w = [] \<or> hd w \<noteq> CHR ''/''" 
        proof (cases "w = []")
          case False
          then have "\<not> CHR ''/'' = hd w" unfolding w_def by (rule hd_dropWhile)
          then show ?thesis by auto
        qed simp
        then show "take 2 (CHR ''/'' # w) \<noteq> ''//''" by (cases w) (auto simp: numeral_2_eq_2)
      qed
      ultimately have right: "unslash (drop p s) = ?t @ CHR ''/'' # unslash w" by simp
      have tp: "take p s @ ?t = take k s" using k(1) by (metis le_add_diff_inverse take_add)
      have er: "str_erase s (k + 1) (q - k - 1) = take (k + 1) s @ w"
        using q dq by (simp add: str_erase_def)
      have "s ! k = CHR ''/''" using dk k(2) by (metis hd_drop_conv_nth list.sel(1) add_lessD1 less_le_trans lessI
            length_Cons list.size(3) add_Suc_right add.right_neutral)
      then have tk: "take (k + 1) s = take k s @ [CHR ''/'']"
        using k(2) by (simp add: take_Suc_conv_app_nth)
      have lenk: "length (take (k + 1) s) = k + 1" using k(2) by simp
      have "unslash_loop s p = unslash_loop (take (k + 1) s @ w) (k + 1)"
        by (subst unslash_loop.simps) (simp only: less Some if_False option.case Let_def er flip: q_def)
      also have "\<dots> = take (k + 1) (take (k + 1) s @ w) @ unslash (drop (k + 1) (take (k + 1) s @ w))"
      proof -
        have "k + 1 \<le> length (take (k + 1) s @ w)" unfolding length_append lenk by simp
        then show ?thesis by (rule "1.IH" [OF less Some q_def, unfolded er])
      qed
      also have "\<dots> = take (k + 1) s @ unslash w" using lenk by simp
      also have "\<dots> = take p s @ unslash (drop p s)" unfolding right tk tp [symmetric] by simp
      finally show ?thesis .
    qed
  qed
qed

section \<open>The loops on elements\<close>

fun undot_elems :: "string list \<Rightarrow> string list" where
  "undot_elems (c # d # cs) = (if c = ''.'' then undot_elems (d # cs) else c # undot_elems (d # cs))"
| "undot_elems cs = cs"

fun unslash_elems :: "string list \<Rightarrow> string list" where
  "unslash_elems (c # d # cs) = (if c = [] then unslash_elems (d # cs) else c # unslash_elems (d # cs))"
| "unslash_elems cs = cs"

lemma undot_nosl: "nosl c \<Longrightarrow> undot (c @ u) = c @ undot u"
proof (induction c)
  case (Cons x c)
  then have "take 3 (x # c @ u) \<noteq> ''/./''" by (cases "c @ u") (auto simp: numeral_3_eq_3)
  with Cons show ?case by (simp add: undot_cons)
qed simp

lemma unslash_nosl: "nosl c \<Longrightarrow> unslash (c @ u) = c @ unslash u"
proof (induction c)
  case (Cons x c)
  then have "take 2 (x # c @ u) \<noteq> ''//''" by (cases "c @ u") (auto simp: numeral_2_eq_2)
  with Cons show ?case by (simp add: unslash_cons)
qed simp

lemma undot_tail: "\<forall>c \<in> set cs. nosl c \<Longrightarrow> undot (slash_tail cs) = slash_tail (undot_elems cs)"
proof (induction cs rule: undot_elems.induct [case_names more none one])
  case (more c d cs)
  show ?case
  proof (cases "c = ''.''")
    case True
    with more show ?thesis by simp
  next
    case False
    have "take 3 (CHR ''/'' # c @ slash_tail (d # cs)) \<noteq> ''/./''"
      using False more.prems by (cases c; cases "tl c") (auto simp: numeral_3_eq_3)
    from undot_cons [OF this] have "undot (slash_tail (c # d # cs)) = CHR ''/'' # undot (c @ slash_tail (d # cs))"
      by (simp only: slash_tail_simps)
    also have "\<dots> = CHR ''/'' # c @ undot (slash_tail (d # cs))"
      using more.prems undot_nosl [of c "slash_tail (d # cs)"] by simp
    finally show ?thesis using False more by simp
  qed
next
  case (one c)
  have "take 3 (CHR ''/'' # c) \<noteq> ''/./''" using one by (cases c; cases "tl c") (auto simp: numeral_3_eq_3)
  with one undot_nosl [of c "[]"] show ?case by (simp add: undot_cons)
qed simp

lemma unslash_elems_Nil_iff [simp]: "unslash_elems cs = [] \<longleftrightarrow> cs = []"
  by (induction cs rule: unslash_elems.induct) auto

lemma unslash_tail: "\<forall>c \<in> set cs. nosl c \<Longrightarrow> unslash (slash_tail cs) = slash_tail (unslash_elems cs)"
proof (induction cs rule: unslash_elems.induct [case_names more none one])
  case (more c d cs)
  show ?case
  proof (cases "c = []")
    case True
    with more show ?thesis by simp
  next
    case False
    have "take 2 (CHR ''/'' # c @ slash_tail (d # cs)) \<noteq> ''//''"
      using False more.prems by (cases c) (auto simp: numeral_2_eq_2)
    from unslash_cons [OF this] have "unslash (slash_tail (c # d # cs)) = CHR ''/'' # unslash (c @ slash_tail (d # cs))"
      by (simp only: slash_tail_simps)
    also have "\<dots> = CHR ''/'' # c @ unslash (slash_tail (d # cs))"
      using more.prems unslash_nosl [of c "slash_tail (d # cs)"] by simp
    finally show ?thesis using False more by simp
  qed
next
  case (one c)
  have "take 2 (CHR ''/'' # c) \<noteq> ''//''" using one by (cases c) (auto simp: numeral_2_eq_2)
  with one unslash_nosl [of c "[]"] show ?case by (simp add: unslash_cons)
qed simp

text \<open>After both loops every element but the last is proper.\<close>

lemma undot_elems_nonempty: "cs \<noteq> [] \<Longrightarrow> undot_elems cs \<noteq> []"
  by (induction cs rule: undot_elems.induct) auto

lemma elems_filter:
  "cs \<noteq> [] \<Longrightarrow> unslash_elems (undot_elems cs) = filter proper (butlast cs) @ [last cs]"
proof (induction cs rule: undot_elems.induct)
  case (1 c d cs)
  obtain e es where e: "undot_elems (d # cs) = e # es" using undot_elems_nonempty [of "d # cs"]
    by (cases "undot_elems (d # cs)") auto
  show ?case using 1 e by (auto simp: proper_def)
qed simp_all

lemma trim_keep:
  assumes "nosl l" and "proper l"
  shows "trim_trailing m (x @ CHR ''/'' # l) = x @ CHR ''/'' # l"
proof -
  obtain t z where l: "l = t @ [z]" using assms(2) by (cases l rule: rev_cases) (auto simp: proper_def)
  have "z \<noteq> CHR ''/''" using assms(1) l by auto
  moreover have "(x @ CHR ''/'' # l) ! (length (x @ CHR ''/'' # l) - 2) \<noteq> CHR ''/''" if "z = CHR ''.''"
  proof -
    have "t \<noteq> []" using that assms(2) l by (auto simp: proper_def)
    then obtain u y where t: "t = u @ [y]" by (cases t rule: rev_cases) auto
    have "x @ CHR ''/'' # l = (x @ CHR ''/'' # u) @ y # [z]" using l t by simp
    moreover have "length (x @ CHR ''/'' # l) - 2 = length (x @ CHR ''/'' # u)" using l t by simp
    ultimately have "(x @ CHR ''/'' # l) ! (length (x @ CHR ''/'' # l) - 2) = y" by (metis nth_append_length)
    moreover have "y \<noteq> CHR ''/''" using assms(1) l t by auto
    ultimately show ?thesis by simp
  qed
  ultimately show ?thesis using l by (subst trim_trailing.simps) auto
qed

lemma trim_slash: "m < length (x @ ''/'') \<Longrightarrow> trim_trailing m (x @ ''/'') = trim_trailing m x"
  by (subst trim_trailing.simps) (simp add: butlast_append)

lemma trim_dot: "m < length (x @ ''/.'') \<Longrightarrow> trim_trailing m (x @ ''/.'') = trim_trailing m (x @ ''/'')"
  by (subst trim_trailing.simps) (simp add: butlast_append nth_append)

lemma trim_nosl: "nosl c \<Longrightarrow> trim_trailing 1 c = c"
proof (cases "1 < length c")
  case True
  assume c: "nosl c"
  have "last c \<in> set c" "c ! (length c - 2) \<in> set c" using True by (auto intro: last_in_set)
  with c show ?thesis by (subst trim_trailing.simps) auto
qed (subst trim_trailing.simps, simp)

lemma trim_elems:
  assumes "\<forall>c \<in> set cs. nosl c \<and> proper c" and "nosl l" and "m < length (x @ ''/'')"
    and "cs = [] \<longrightarrow> trim_trailing m x = x"
  shows "trim_trailing m (x @ slash_tail cs @ CHR ''/'' # l) = x @ slash_tail (cs @ (if proper l then [l] else []))"
proof -
  let ?y = "x @ slash_tail cs"
  have y: "trim_trailing m ?y = ?y"
  proof (cases cs rule: rev_cases)
    case Nil
    with assms(4) show ?thesis by simp
  next
    case (snoc ds d)
    with assms(1) trim_keep [of d m "x @ slash_tail ds"] show ?thesis by simp
  qed
  have len: "m < length (?y @ ''/'')" using assms(3) by simp
  consider "proper l" | "l = []" | "l = ''.''" by (auto simp: proper_def)
  then show ?thesis
  proof cases
    case 1
    with trim_keep [OF assms(2), of m ?y] show ?thesis by simp
  next
    case 2
    with trim_slash [OF len] y show ?thesis by (simp add: proper_def)
  next
    case 3
    from len have "m < length (?y @ ''/.'')" by simp
    with 3 trim_slash [OF len] trim_dot [of m ?y] y show ?thesis by (simp add: proper_def)
  qed
qed

section \<open>The canonical form of a name\<close>

definition canon_ref :: "string \<Rightarrow> string" where
  "canon_ref s =
     (if s = [] then []
      else if hd s = CHR ''/'' then CHR ''/'' # join_slash (filter proper (split_slash s))
      else join_slash (hd (split_slash s) # filter proper (tl (split_slash s))))"

text \<open>An absolute name on which \<open>make_canonical\<close> leaves several leading slashes: after the root some \<open>./\<close>
  and then another slash.\<close>

fun dot_slashes :: "string \<Rightarrow> bool" where
  "dot_slashes (a # b # r) =
     (a = CHR ''.'' \<and> b = CHR ''/'' \<and> (r \<noteq> [] \<and> hd r = CHR ''/'' \<or> dot_slashes r))"
| "dot_slashes s = False"

definition bad_root :: "string \<Rightarrow> bool" where
  "bad_root s \<longleftrightarrow> s \<noteq> [] \<and> hd s = CHR ''/'' \<and> dot_slashes (dropWhile ((=) CHR ''/'') s)"

lemma first_not_slash:
  "find_first_not CHR ''/'' s 0 = (if \<forall>x \<in> set s. x = CHR ''/'' then None else Some (length (takeWhile (\<lambda>x. x = CHR ''/'') s)))"
proof (cases "\<forall>x \<in> set s. x = CHR ''/''")
  case True
  then show ?thesis unfolding find_first_not_def by simp
next
  case False
  have "dropWhile (\<lambda>x. x = CHR ''/'') s \<noteq> []" using False by (auto simp: dropWhile_eq_Nil_conv)
  then have "length (takeWhile (\<lambda>x. x = CHR ''/'') s) < length s"
    by (metis length_append length_greater_0_conv less_add_same_cancel1 takeWhile_dropWhile_id)
  with False show ?thesis by (simp add: find_first_not_def find_from_def Let_def)
qed

lemma first_not_slash_cons: "c \<noteq> CHR ''/'' \<Longrightarrow> find_first_not CHR ''/'' (c # s) 0 = Some 0"
  by (simp add: first_not_slash)

lemma trim_leading_rel: "s = [] \<or> hd s \<noteq> CHR ''/'' \<Longrightarrow> trim_leading s = s"
  by (cases s) (auto simp: trim_leading_def first_not_slash or_size_def Let_def)

lemma trim_leading_abs:
  assumes "s \<noteq> []" and "hd s = CHR ''/''"
  shows "trim_leading s = CHR ''/'' # dropWhile ((=) CHR ''/'') s"
proof -
  let ?w = "takeWhile ((=) CHR ''/'') s" and ?r = "dropWhile ((=) CHR ''/'') s"
  have eq: "(\<lambda>x. x = CHR ''/'') = (=) CHR ''/''" by auto
  have s: "s = ?w @ ?r" by simp
  have w: "?w \<noteq> []" using assms by (cases s) auto
  have last: "last ?w = CHR ''/''" using set_takeWhileD [OF last_in_set [OF w]] by simp
  have size: "or_size (find_first_not native_delimiter s 0) s = length ?w"
  proof (cases "\<forall>x \<in> set s. x = CHR ''/''")
    case True
    then have "?r = []" by (auto simp: dropWhile_eq_Nil_conv)
    with s have "length ?w = length s" by (metis append_Nil2)
    with True show ?thesis by (simp add: first_not_slash or_size_def)
  qed (auto simp: first_not_slash or_size_def eq)
  have "drop (length ?w - 1) s = last ?w # ?r"
  proof -
    have "s = butlast ?w @ last ?w # ?r"
      using s append_butlast_last_id [OF w] by (metis append.assoc append_Cons append_Nil)
    then have "drop (length (butlast ?w)) s = last ?w # ?r" by (metis append_eq_conv_conj)
    then show ?thesis by simp
  qed
  moreover have "drop 0 s = s" by simp
  ultimately show ?thesis
  proof (cases "1 < length ?w")
    case False
    then have "length ?w - 1 = 0" by simp
    with \<open>drop (length ?w - 1) s = last ?w # ?r\<close> last False size show ?thesis by (simp add: trim_leading_def)
  qed (simp add: trim_leading_def size str_erase_def last)
qed

lemma undot_split:
  assumes "nosl c" and "\<forall>d \<in> set cs. nosl d"
  shows "undot (c @ slash_tail cs) = c @ slash_tail (undot_elems cs)"
  using undot_nosl [OF assms(1)] undot_tail [OF assms(2)] by simp

lemma undot_elems_nosl: "\<forall>c \<in> set cs. nosl c \<Longrightarrow> \<forall>c \<in> set (undot_elems cs). nosl c"
  by (induction cs rule: undot_elems.induct) auto

lemma elems_decompose:
  assumes "cs \<noteq> []"
  shows "filter proper cs = filter proper (butlast cs) @ (if proper (last cs) then [last cs] else [])"
  using arg_cong [OF append_butlast_last_id [OF assms, symmetric], of "filter proper"] by (simp only: filter_append) simp

lemma canonical_rel:
  assumes "s \<noteq> []" and "hd s \<noteq> CHR ''/''"
  shows "canonical s = canon_ref s"
proof -
  obtain c cs where c: "split_slash s = c # cs" "s = c @ slash_tail cs" "nosl c" "\<forall>d \<in> set cs. nosl d"
    by (rule split_cases)
  have ne: "c \<noteq> []" using c(2) assms by (cases cs) auto
  have h: "find_first_not CHR ''/'' (c @ u) 0 = Some 0" for u
    using ne c(3) by (cases c) (auto simp: first_not_slash_cons)
  have root: "get_root (c @ u) = []" for u
    using h [of u] ne by (simp add: get_root_def substr_def)
  have s2: "undot_loop (trim_leading s) 0 = c @ slash_tail (undot_elems cs)"
    using undot_loop_undot [of 0 s] trim_leading_rel [of s] assms(2) undot_split [OF c(3,4)] c(2) by simp
  have s3: "unslash_loop (c @ slash_tail (undot_elems cs)) 0 = c @ slash_tail (unslash_elems (undot_elems cs))"
    using unslash_loop_unslash [of 0] unslash_nosl [OF c(3)] unslash_tail [OF undot_elems_nosl [OF c(4)]] by simp
  have "canonical s = trim_trailing 1 (c @ slash_tail (unslash_elems (undot_elems cs)))"
    unfolding canonical_def Let_def s2 h option.case s3 root by simp
  also have "\<dots> = c @ slash_tail (filter proper cs)"
  proof (cases "cs = []")
    case True
    then show ?thesis using trim_nosl [OF c(3)] by simp
  next
    case False
    have "trim_trailing 1 (c @ slash_tail (filter proper (butlast cs)) @ CHR ''/'' # last cs)
        = c @ slash_tail (filter proper (butlast cs) @ (if proper (last cs) then [last cs] else []))"
      using c(4) ne False trim_nosl [OF c(3)] by (intro trim_elems) (auto dest: in_set_butlastD)
    then show ?thesis using elems_filter [OF False] elems_decompose [OF False] by simp
  qed
  finally show ?thesis using assms c(1) by (simp add: canon_ref_def)
qed

lemma dot_slashes_elems:
  "r = [] \<or> hd r \<noteq> CHR ''/'' \<Longrightarrow>
     dot_slashes r \<longleftrightarrow> (\<exists>es. es \<noteq> [] \<and> undot_elems (split_slash r) = [] # es)"
proof (induction r rule: dot_slashes.induct)
  case (1 a b r)
  have a: "a \<noteq> CHR ''/''" using "1.prems" by simp
  show ?case
  proof (cases "a = CHR ''.'' \<and> b = CHR ''/''")
    case True
    obtain d ds where d: "split_slash r = d # ds" by (cases "split_slash r") auto
    then have e: "undot_elems (split_slash (a # b # r)) = undot_elems (split_slash r)" using True by simp
    show ?thesis
    proof (cases "r \<noteq> [] \<and> hd r = CHR ''/''")
      case slash: True
      then obtain t where t: "r = CHR ''/'' # t" by (cases r) auto
      obtain x xs where x: "split_slash t = x # xs" by (cases "split_slash t") auto
      have "undot_elems (split_slash r) = [] # undot_elems (x # xs)" using t x by simp
      with undot_elems_nonempty [of "x # xs"] e True slash show ?thesis by simp
    next
      case False
      with 1 True e show ?thesis by auto
    qed
  next
    case False
    obtain d ds where d: "split_slash (b # r) = d # ds"
      using split_slash_nonempty [of "b # r"] by (metis list.exhaust)
    have s: "split_slash (a # b # r) = (a # d) # ds" using a d by simp
    have "ds = [] \<or> a # d \<noteq> ''.''"
    proof (cases "a = CHR ''.''")
      case True
      with False have "b \<noteq> CHR ''/''" by simp
      with d have "d \<noteq> []" by (auto split: list.splits)
      then show ?thesis by simp
    qed simp
    then have "undot_elems ((a # d) # ds) \<noteq> [] # es" for es by (cases ds) auto
    with False s show ?thesis by auto
  qed
next
  case "2_2"
  then show ?case by simp
qed simp

lemma canonical_abs:
  assumes "s \<noteq> []" and "hd s = CHR ''/''" and "\<not> bad_root s"
  shows "canonical s = canon_ref s"
proof -
  define r where "r = dropWhile ((=) CHR ''/'') s"
  have r: "r = [] \<or> hd r \<noteq> CHR ''/''"
  proof (cases "r = []")
    case False
    then have "\<not> CHR ''/'' = hd r" unfolding r_def by (rule hd_dropWhile)
    then show ?thesis by auto
  qed simp
  define cs where "cs = split_slash r"
  have cs: "cs \<noteq> []" "\<forall>d \<in> set cs. nosl d" using split_slash_nosl by (auto simp: cs_def)
  have tail: "CHR ''/'' # r = slash_tail cs"
    using join_split [of r] by (cases "split_slash r") (simp_all add: cs_def)
  define es where "es = undot_elems cs"
  have es: "es \<noteq> []" "\<forall>d \<in> set es. nosl d"
    using cs undot_elems_nonempty undot_elems_nosl by (auto simp: es_def)
  have fin: "unslash_elems es = filter proper (butlast cs) @ [last cs]"
    using elems_filter [OF cs(1)] by (simp add: es_def)
  have s2: "undot_loop (trim_leading s) 0 = slash_tail es"
    using undot_loop_undot [of 0 "CHR ''/'' # r"] trim_leading_abs [OF assms(1,2)] undot_tail [OF cs(2)] tail
    by (simp add: r_def es_def)
  have good: "hd es \<noteq> [] \<or> es = [[]]"
  proof -
    have "\<not> dot_slashes r" using assms by (simp add: bad_root_def r_def)
    with dot_slashes_elems [OF r] have "\<nexists>xs. xs \<noteq> [] \<and> es = [] # xs" by (simp add: es_def cs_def)
    then show ?thesis using es(1) by (cases es) auto
  qed
  have split: "filter proper (split_slash s) = filter proper cs"
  proof -
    have run: "filter proper (split_slash (replicate n CHR ''/'' @ u)) = filter proper (split_slash u)" for n u
      by (induction n) (simp_all add: proper_def)
    have "takeWhile ((=) CHR ''/'') s = replicate (length (takeWhile ((=) CHR ''/'') s)) CHR ''/''"
      by (rule replicate_eqI) (auto dest: set_takeWhileD)
    then have "s = replicate (length (takeWhile ((=) CHR ''/'') s)) CHR ''/'' @ r"
      unfolding r_def by (metis takeWhile_dropWhile_id)
    then show ?thesis using run unfolding cs_def by metis
  qed
  have "canonical s = slash_tail (filter proper cs @ (if filter proper cs = [] then [[]] else []))"
  proof (cases "es = [[]]")
    case True
    with fin have "filter proper (butlast cs) = [] \<and> last cs = []" by simp
    then have "filter proper cs = []" using elems_decompose [OF cs(1)] by (simp add: proper_def)
    moreover have "canonical s = ''/''"
      unfolding canonical_def Let_def s2 True
      by (simp add: first_not_slash get_root_def trim_trailing.simps)
    ultimately show ?thesis by simp
  next
    case False
    then obtain e es' where e: "es = e # es'" "e \<noteq> []" using good es(1) by (cases es) auto
    have ne: "e @ u \<noteq> [] \<and> hd (e @ u) \<noteq> CHR ''/''" for u using e es(2) by (cases e) auto
    have first: "find_first_not CHR ''/'' (CHR ''/'' # e @ u) 0 = Some 1" for u
      using ne [of u] by (cases "e @ u") (auto simp: first_not_slash)
    have unes: "unslash_elems (e # es') = e # unslash_elems es'" using e(2) by (cases es') auto
    have "unslash_loop (slash_tail es) 1 = slash_tail (unslash_elems es)"
      using unslash_loop_unslash [of 1 "slash_tail es"] unslash_nosl [of e] unslash_tail [of es'] es(2)
      by (simp add: e(1) unes)
    then have s3: "canonical s = trim_trailing 1 (slash_tail (unslash_elems es))"
      unfolding canonical_def Let_def s2 using first e(1) unes
      by (simp add: get_root_def substr_def)
    show ?thesis
    proof (cases "filter proper (butlast cs)")
      case Nil
      then have "e # unslash_elems es' = [last cs]" using fin unes e(1) by simp
      then have e1: "e = last cs" "es' = []" by simp_all
      have "trim_trailing 1 (CHR ''/'' # last cs) = (if proper (last cs) then CHR ''/'' # last cs else ''/'')"
      proof (cases "proper (last cs)")
        case True
        then show ?thesis using trim_keep [of "last cs" 1 "[]"] cs by simp
      next
        case False
        then have "last cs = ''.''" using e e1 by (simp add: proper_def)
        then show ?thesis by (simp add: trim_trailing.simps proper_def)
      qed
      then show ?thesis using s3 fin Nil elems_decompose [OF cs(1)] by simp
    next
      case (Cons d ds)
      have "d \<in> set (filter proper (butlast cs))" using Cons by simp
      then have d: "nosl d" "proper d" using cs(2) by (auto dest: in_set_butlastD)
      have "trim_trailing 1 ((CHR ''/'' # d) @ slash_tail ds @ CHR ''/'' # last cs)
        = (CHR ''/'' # d) @ slash_tail (ds @ (if proper (last cs) then [last cs] else []))"
      proof (rule trim_elems)
        have "\<forall>c \<in> set (filter proper (butlast cs)). nosl c \<and> proper c" using cs(2) by (auto dest: in_set_butlastD)
        then show "\<forall>c \<in> set ds. nosl c \<and> proper c" unfolding Cons by simp
        show "ds = [] \<longrightarrow> trim_trailing 1 (CHR ''/'' # d) = CHR ''/'' # d" using trim_keep [OF d, of 1 "[]"] by simp
      qed (use cs d in auto)
      then show ?thesis using s3 fin Cons elems_decompose [OF cs(1)] by simp
    qed
  qed
  also have "\<dots> = canon_ref s"
    using assms(1,2) split by (cases "filter proper cs") (simp_all add: canon_ref_def)
  finally show ?thesis .
qed

end
