(* ===== verification/Path_Correct.thy ===== *)
theory Path_Correct
  imports Path_Canon
begin

text \<open>
  Path names as lists of elements: what the constructors, \<open>breakdown\<close>, \<open>join\<close>, \<open>split_path\<close>,
  \<open>change_ext\<close>, \<open>common\<close> and \<open>relative_to\<close> do to the elements of canonical names.
\<close>

section \<open>Canonical names\<close>

definition name_of :: "bool \<Rightarrow> string list \<Rightarrow> string" where
  "name_of a es = (if a then CHR ''/'' # join_slash es else join_slash es)"

definition good :: "bool \<Rightarrow> string list \<Rightarrow> bool" where
  "good a es \<longleftrightarrow> (\<forall>e \<in> set es. nosl e \<and> e \<noteq> []) \<and> ''.'' \<notin> set (if a then es else tl es)"

definition valid :: "path \<Rightarrow> bool" where
  "valid p \<longleftrightarrow> (\<exists>a es. good a es \<and> filename p = name_of a es)"

definition path_of :: "bool \<Rightarrow> string list \<Rightarrow> path" where
  "path_of a es = \<lparr>filename = name_of a es\<rparr>"

lemma validE:
  assumes "valid p"
  obtains a es where "good a es" and "p = path_of a es"
  using assms by (auto simp: valid_def path_of_def)

lemma valid_path_of [intro]: "good a es \<Longrightarrow> valid (path_of a es)"
  by (auto simp: valid_def path_of_def)

lemma filename_path_of [simp]: "filename (path_of a es) = name_of a es"
  by (simp add: path_of_def)

lemma join_slash_Nil_iff: "\<forall>e \<in> set es. e \<noteq> [] \<Longrightarrow> join_slash es = [] \<longleftrightarrow> es = []"
  by (cases es) auto

lemma join_slash_hd: "\<forall>e \<in> set es. nosl e \<and> e \<noteq> [] \<Longrightarrow> es \<noteq> [] \<Longrightarrow> join_slash es \<noteq> [] \<and> hd (join_slash es) \<noteq> CHR ''/''"
  by (cases es; cases "hd es") auto

lemma good_elems: "good a es \<Longrightarrow> \<forall>e \<in> set es. nosl e \<and> e \<noteq> []"
  by (simp add: good_def)

lemma name_of_Nil_iff: "good a es \<Longrightarrow> name_of a es = [] \<longleftrightarrow> \<not> a \<and> es = []"
  by (auto simp: name_of_def good_def join_slash_Nil_iff)

lemma name_of_hd: "good a es \<Longrightarrow> name_of a es \<noteq> [] \<and> hd (name_of a es) = CHR ''/'' \<longleftrightarrow> a"
  using join_slash_hd [OF good_elems, of a es] by (cases es) (auto simp: name_of_def)

lemma filter_proper_id: "\<forall>e \<in> set es. e \<noteq> [] \<Longrightarrow> ''.'' \<notin> set es \<Longrightarrow> filter proper es = es"
  by (induction es) (auto simp: proper_def)

lemma split_join_slash: "\<forall>e \<in> set es. nosl e \<Longrightarrow> es \<noteq> [] \<Longrightarrow> split_slash (join_slash es) = es"
  by (cases es) (simp_all add: split_join)

text \<open>The canonical form by elements.\<close>

lemma canon_ref_abs: "\<forall>e \<in> set es. nosl e \<Longrightarrow> canon_ref (CHR ''/'' # join_slash es) = name_of True (filter proper es)"
  by (cases "es = []") (simp_all add: canon_ref_def name_of_def split_join_slash proper_def)

lemma canon_ref_rel:
  assumes "\<forall>e \<in> set (c # es). nosl e" and "c \<noteq> []"
  shows "canon_ref (c @ slash_tail es) = name_of False (c # filter proper es)"
  using assms by (cases c) (auto simp: canon_ref_def name_of_def split_join)

lemma canon_ref_name_of: "good a es \<Longrightarrow> canon_ref (name_of a es) = name_of a es"
proof (cases a)
  case True
  moreover assume "good a es"
  ultimately show ?thesis using canon_ref_abs [of es] filter_proper_id [of es] by (simp add: name_of_def good_def)
next
  case False
  moreover assume "good a es"
  ultimately show ?thesis
    using canon_ref_rel [of "hd es" "tl es"] filter_proper_id [of "tl es"]
    by (cases es) (simp_all add: name_of_def good_def canon_ref_def)
qed

lemma canon_ref_form: "\<exists>a es. good a es \<and> canon_ref s = name_of a es"
proof (cases "s = [] \<or> hd s = CHR ''/''")
  case True
  have "good True (filter proper (split_slash s))" using split_slash_nosl by (auto simp: good_def proper_def)
  moreover have "good False []" by (simp add: good_def)
  moreover have "canon_ref s = (if s = [] then name_of False [] else name_of True (filter proper (split_slash s)))"
    using True by (auto simp: canon_ref_def name_of_def)
  ultimately show ?thesis by metis
next
  case False
  obtain c cs where c: "split_slash s = c # cs" "s = c @ slash_tail cs" "nosl c" "\<forall>d \<in> set cs. nosl d"
    by (rule split_cases)
  then have "c \<noteq> []" using False by (cases cs) auto
  with c have "good False (c # filter proper cs)" by (auto simp: good_def proper_def)
  moreover have "canon_ref s = name_of False (c # filter proper cs)"
    using False c(1) by (simp add: canon_ref_def name_of_def)
  ultimately show ?thesis by blast
qed

lemma canonical_Nil: "canonical [] = []"
proof -
  have "undot_loop [] 0 = []" using undot_loop_undot [of 0 "[]"] by simp
  moreover have "trim_leading [] = []" by (rule trim_leading_rel) simp
  ultimately show ?thesis
    by (simp add: canonical_def find_first_not_def find_from_def trim_trailing.simps [of _ "[]"])
qed

lemma canonical_canon_ref: "\<not> bad_root s \<Longrightarrow> canonical s = canon_ref s"
proof (cases "s = []")
  case True
  then show ?thesis by (simp add: canonical_Nil canon_ref_def)
qed (metis canonical_abs canonical_rel)

lemma dot_slashes_cons: "dot_slashes (e @ slash_tail es) \<Longrightarrow> nosl e \<Longrightarrow> e = ''.'' \<and> es \<noteq> []"
proof -
  assume d: "dot_slashes (e @ slash_tail es)" and n: "nosl e"
  show "e = ''.'' \<and> es \<noteq> []"
  proof (cases e)
    case Nil
    with d show ?thesis by (cases es; cases "hd es"; cases "tl es") auto
  next
    case (Cons x f)
    then show ?thesis using d n by (cases f; cases es) auto
  qed
qed

lemma bad_root_cases:
  assumes "\<forall>e \<in> set es. nosl e" and "es \<noteq> [] \<longrightarrow> hd es \<noteq> [] \<and> hd es \<noteq> ''.''"
  shows "\<not> bad_root (CHR ''/'' # join_slash es)"
proof (cases es)
  case (Cons e fs)
  then obtain c r where e: "e = c # r" "c \<noteq> CHR ''/''" using assms by (cases e) auto
  have "\<not> dot_slashes (e @ slash_tail fs)" using Cons dot_slashes_cons [of e fs] assms by auto
  then show ?thesis using Cons e by (simp add: bad_root_def)
qed (simp add: bad_root_def)

lemma bad_root_rel: "s = [] \<or> hd s \<noteq> CHR ''/'' \<Longrightarrow> \<not> bad_root s"
  by (auto simp: bad_root_def)

lemma bad_root_name_of: "good a es \<Longrightarrow> \<not> bad_root (name_of a es)"
proof (cases a)
  case True
  moreover assume "good a es"
  ultimately show ?thesis using bad_root_cases [of es] by (cases es) (auto simp: good_def name_of_def)
next
  case False
  moreover assume "good a es"
  ultimately show ?thesis using bad_root_rel [of "name_of a es"] name_of_hd [of a es] by auto
qed

lemma canonical_name_of: "good a es \<Longrightarrow> canonical (name_of a es) = name_of a es"
  by (simp add: canonical_canon_ref bad_root_name_of canon_ref_name_of)

lemma mk_path_name_of: "good a es \<Longrightarrow> mk_path (name_of a es) = path_of a es"
  by (simp add: mk_path_def canonical_name_of path_of_def)

lemma valid_mk_path: "\<not> bad_root s \<Longrightarrow> valid (mk_path s)"
  using canon_ref_form [of s] by (auto simp: valid_def mk_path_def canonical_canon_ref)

section \<open>The operations by elements\<close>

definition root_of :: "bool \<Rightarrow> string" where
  "root_of a = (if a then ''/'' else [])"

lemma get_root_name_of: "good a es \<Longrightarrow> get_root (name_of a es) = root_of a"
proof (cases a)
  case True
  moreover assume "good a es"
  moreover from this have "join_slash es = [] \<or> hd (join_slash es) \<noteq> CHR ''/''"
    using join_slash_hd [OF good_elems, of a es] by (cases es) auto
  ultimately show ?thesis
    by (cases "join_slash es") (auto simp: get_root_def first_not_slash substr_def name_of_def root_of_def)
next
  case False
  moreover assume "good a es"
  ultimately show ?thesis
    using name_of_hd [of a es] first_not_slash [of "name_of a es"]
    by (cases "name_of a es") (auto simp: get_root_def substr_def root_of_def)
qed

lemma is_absolute_path_of [simp]: "good a es \<Longrightarrow> is_absolute (path_of a es) \<longleftrightarrow> a"
  using name_of_hd [of a es] by (auto simp: is_absolute_def hd_conv_nth)

lemma p_empty_path_of [simp]: "good a es \<Longrightarrow> p_empty (path_of a es) \<longleftrightarrow> \<not> a \<and> es = []"
  by (simp add: p_empty_def name_of_Nil_iff)

lemma breakdown_loop_elems:
  "\<forall>e \<in> set es. nosl e \<and> e \<noteq> [] \<Longrightarrow> breakdown_loop (x @ join_slash es) (length x) = es"
proof (induction es arbitrary: x)
  case Nil
  then show ?case by (simp add: breakdown_loop.simps [of _ "length x"])
next
  case (Cons e es)
  then have e: "e \<noteq> []" "\<forall>c \<in> set e. CHR ''/'' \<noteq> c" by auto
  show ?case
  proof (cases es)
    case Nil
    have "find_from ((=) CHR ''/'') (x @ e) (length x) = None" using e(2) by (simp add: find_from_append)
    with Nil e(1) show ?thesis
      by (simp add: breakdown_loop.simps [of "x @ e" "length x"] breakdown_loop.simps [of _ "Suc _"] or_size_def substr_def)
  next
    case (Cons f fs)
    have "find_from ((=) CHR ''/'') (e @ slash_tail es) 0 = Some (length e)"
      using e(2) Cons by (simp add: find_from_0_append)
    then have "find_from ((=) CHR ''/'') (x @ e @ slash_tail es) (length x) = Some (length x + length e)"
      by (simp add: find_from_append)
    moreover have "breakdown_loop ((x @ e @ ''/'') @ join_slash es) (length (x @ e @ ''/'')) = es"
      using Cons.prems by (intro Cons.IH) simp
    then have "breakdown_loop (x @ e @ slash_tail es) (Suc (length x + length e)) = es" using Cons by simp
    ultimately show ?thesis
      using e(1) by (simp add: breakdown_loop.simps [of "x @ e @ slash_tail es" "length x"] or_size_def substr_def)
  qed
qed

lemma os_breakdown_path_of:
  assumes "good a es"
  shows "os_breakdown (path_of a es) = (if a then [''/''] else []) @ es"
proof -
  have "breakdown_loop (root_of a @ join_slash es) (length (root_of a)) = es"
    using breakdown_loop_elems [OF good_elems [OF assms]] .
  moreover have "root_of a @ join_slash es = name_of a es" by (simp add: root_of_def name_of_def)
  ultimately have loop: "breakdown_loop (name_of a es) (length (root_of a)) = es" by simp
  show ?thesis
    unfolding os_breakdown_def Let_def filename_path_of get_root_name_of [OF assms] p_empty_path_of [OF assms] loop
    by (simp add: root_of_def)
qed

lemma path_of_inj:
  assumes "good a es" and "good b fs" and "path_of a es = path_of b fs"
  shows "a = b \<and> es = fs"
proof -
  have "is_absolute (path_of a es) = is_absolute (path_of b fs)" using assms(3) by simp
  then have "a = b" using assms(1,2) by simp
  moreover have "os_breakdown (path_of a es) = os_breakdown (path_of b fs)" using assms(3) by (rule arg_cong)
  ultimately show ?thesis
    unfolding os_breakdown_path_of [OF assms(1)] os_breakdown_path_of [OF assms(2)] by simp
qed

lemma leaf_start_name_of:
  assumes "good a es"
  shows "drop (leaf_start (name_of a es)) (name_of a es) = (if es = [] then [] else last es)"
    and "take (leaf_start (name_of a es)) (name_of a es) =
      (if es = [] then root_of a else root_of a @ join_slash (butlast es) @ (if butlast es = [] then [] else ''/''))"
proof -
  let ?s = "name_of a es"
  have "drop (leaf_start ?s) ?s = (if es = [] then [] else last es) \<and> take (leaf_start ?s) ?s =
      (if es = [] then root_of a else root_of a @ join_slash (butlast es) @ (if butlast es = [] then [] else ''/''))"
  proof (cases es rule: rev_cases)
    case Nil
    then show ?thesis by (simp add: name_of_def leaf_start_def find_last_def root_of_def)
  next
    case (snoc fs f)
    have f: "\<forall>x \<in> set f. CHR ''/'' \<noteq> x" using assms snoc by (auto simp: good_def)
    show ?thesis
    proof (cases "a \<or> fs \<noteq> []")
      case True
      define x where "x = (if fs = [] then [] else root_of a @ join_slash fs)"
      have s: "?s = x @ CHR ''/'' # f"
        using True snoc by (cases fs) (auto simp: x_def name_of_def root_of_def)
      have "find_last ((=) CHR ''/'') (x @ CHR ''/'' # f) = Some (length x)"
        using find_last_append [of "(=) CHR ''/''" "CHR ''/''" f x] f by simp
      then have "leaf_start ?s = Suc (length x)" by (simp add: s leaf_start_def)
      then have "drop (leaf_start ?s) ?s = f" "take (leaf_start ?s) ?s = x @ ''/''" by (simp_all add: s)
      moreover have "x @ ''/'' = root_of a @ join_slash fs @ (if fs = [] then [] else ''/'')"
        using True by (auto simp: x_def root_of_def)
      ultimately show ?thesis using snoc by simp
    next
      case False
      then have "?s = f" using snoc by (simp add: name_of_def)
      moreover have "find_last ((=) CHR ''/'') f = None" using f by (simp add: find_last_None_iff)
      ultimately show ?thesis using False snoc by (simp add: leaf_start_def root_of_def)
    qed
  qed
  then show "drop (leaf_start ?s) ?s = (if es = [] then [] else last es)" and "take (leaf_start ?s) ?s =
      (if es = [] then root_of a else root_of a @ join_slash (butlast es) @ (if butlast es = [] then [] else ''/''))"
    by blast+
qed

lemma get_leaf_path_of: "good a es \<Longrightarrow> get_leaf (path_of a es) = (if es = [] then [] else last es)"
  using leaf_start_name_of(1) [of a es] by (auto simp: get_leaf_def name_of_Nil_iff)

end
