(* ===== verification/Path_Ops.thy ===== *)
theory Path_Ops
  imports Path_Correct
begin

text \<open>
  \<open>join\<close>, the splits, \<open>change_ext\<close>, \<open>common\<close> and \<open>relative_to\<close> by the elements of the names, and the
  properties of class \<open>Path\<close> that follow.
\<close>

section \<open>Names with some dots\<close>

lemma no_dot_slashes: "\<forall>e \<in> set es. nosl e \<and> e \<noteq> [] \<Longrightarrow> \<not> dot_slashes (join_slash es)"
proof (induction es)
  case (Cons e es)
  show ?case
  proof
    assume d: "dot_slashes (join_slash (e # es))"
    then have e: "e = ''.''" "es \<noteq> []" using dot_slashes_cons [of e es] Cons.prems by simp_all
    then obtain f fs where f: "es = f # fs" by (cases es) auto
    have "join_slash es \<noteq> [] \<and> hd (join_slash es) \<noteq> CHR ''/''" using join_slash_hd [of es] Cons.prems e by simp
    moreover have "join_slash (e # es) = CHR ''.'' # CHR ''/'' # join_slash es" using e f by simp
    ultimately have "dot_slashes (join_slash es)" using d by simp
    with Cons show False by simp
  qed
qed simp

abbreviation undotted :: "string list \<Rightarrow> string list" where
  "undotted es \<equiv> filter (\<lambda>e. e \<noteq> ''.'') es"

lemma filter_proper_undotted: "\<forall>e \<in> set es. e \<noteq> [] \<Longrightarrow> filter proper es = undotted es"
  by (induction es) (auto simp: proper_def)

lemma bad_root_elems: "\<forall>e \<in> set es. nosl e \<and> e \<noteq> [] \<Longrightarrow> \<not> bad_root (name_of a es)"
proof (cases a)
  case True
  assume es: "\<forall>e \<in> set es. nosl e \<and> e \<noteq> []"
  then have "dropWhile ((=) CHR ''/'') (CHR ''/'' # join_slash es) = join_slash es"
    using join_slash_hd [of es] by (cases "join_slash es"; cases es) auto
  then show ?thesis using True no_dot_slashes [OF es] by (simp add: bad_root_def name_of_def)
next
  case False
  assume es: "\<forall>e \<in> set es. nosl e \<and> e \<noteq> []"
  then show ?thesis using False join_slash_hd [of es] bad_root_rel [of "join_slash es"]
    by (cases "es = []") (simp_all add: name_of_def)
qed

lemma canonical_elems_abs:
  "\<forall>e \<in> set es. nosl e \<and> e \<noteq> [] \<Longrightarrow> canonical (name_of True es) = name_of True (undotted es)"
  using bad_root_elems [of es True] canon_ref_abs [of es] filter_proper_undotted [of es]
  by (simp add: canonical_canon_ref name_of_def)

lemma canonical_elems_rel:
  "\<forall>e \<in> set (c # es). nosl e \<and> e \<noteq> [] \<Longrightarrow> canonical (name_of False (c # es)) = name_of False (c # undotted es)"
  using bad_root_elems [of "c # es" False] canon_ref_rel [of c es] filter_proper_undotted [of es]
  by (simp add: canonical_canon_ref name_of_def)

lemma undotted_id: "''.'' \<notin> set es \<Longrightarrow> undotted es = es"
  by (induction es) auto

section \<open>Joining\<close>

definition undot_head :: "string list \<Rightarrow> string list" where
  "undot_head es = (if es \<noteq> [] \<and> hd es = ''.'' then tl es else es)"

lemma undotted_rel: "good False es \<Longrightarrow> undotted es = undot_head es"
  by (cases es) (auto simp: good_def undot_head_def undotted_id)

lemma good_append: "good a es \<Longrightarrow> a \<or> es \<noteq> [] \<Longrightarrow> good False fs \<Longrightarrow> good a (es @ undot_head fs)"
  by (cases es; cases fs) (auto simp: good_def undot_head_def split: if_splits)

lemma name_of_append:
  "a \<or> es \<noteq> [] \<Longrightarrow> fs \<noteq> [] \<Longrightarrow>
     name_of a es @ (if es = [] then [] else ''/'') @ join_slash fs = name_of a (es @ fs)"
  by (cases es; cases fs) (simp_all add: name_of_def)

lemma last_name_of: "good a es \<Longrightarrow> es \<noteq> [] \<Longrightarrow> last (name_of a es) \<noteq> CHR ''/''"
proof -
  assume g: "good a es" and ne: "es \<noteq> []"
  have l: "last es \<noteq> []" "nosl (last es)" using g ne by (auto simp: good_def)
  have "\<exists>x. name_of a es = x @ last es"
    using ne leaf_start_name_of(1) [OF g] by (metis append_take_drop_id)
  then obtain x where "name_of a es = x @ last es" ..
  then have "last (name_of a es) = last (last es)" using l by simp
  then show ?thesis using l by (metis last_in_set)
qed

lemma join_path_of:
  assumes "good a es" and "good b fs"
  shows "join (path_of a es) (path_of b fs) =
    (if b \<or> \<not> a \<and> es = [] then path_of b fs else path_of a (es @ undot_head fs))"
proof (cases "b \<or> \<not> a \<and> es = []")
  case True
  then show ?thesis using assms by (auto simp: join_def)
next
  case False
  then have ne: "a \<or> es \<noteq> []" and fs: "good False fs" using assms by auto
  have len: "length (root_of a) < length (name_of a es) \<longleftrightarrow> es \<noteq> []"
    using good_elems [OF assms(1)] by (cases es) (auto simp: name_of_def root_of_def)
  have cond: "length (root_of a) < length (name_of a es) \<and> last (name_of a es) \<noteq> CHR ''/'' \<and> \<not> p_empty (path_of b fs)
      \<longleftrightarrow> es \<noteq> [] \<and> fs \<noteq> []"
    using len last_name_of [OF assms(1)] assms(2) False by auto
  have app: "(if es \<noteq> [] \<and> fs \<noteq> [] then name_of a es @ ''/'' else name_of a es) @ name_of b fs = name_of a (es @ fs)"
    using name_of_append [OF ne, of fs] False by (cases "fs = []"; cases "es = []") (simp_all add: name_of_def)
  have n: "\<not> (p_empty (path_of a es) \<or> is_absolute (path_of b fs))" using assms False by auto
  have "join (path_of a es) (path_of b fs) = mk_path (name_of a (es @ fs))"
    unfolding join_def if_not_P [OF n] Let_def filename_path_of get_root_name_of [OF assms(1)] cond app ..
  also have "\<dots> = path_of a (es @ undot_head fs)"
  proof -
    have el: "\<forall>e \<in> set (es @ fs). nosl e \<and> e \<noteq> []" using assms by (auto simp: good_def)
    have "canonical (name_of a (es @ fs)) = name_of a (es @ undot_head fs)"
    proof (cases a)
      case True
      then have "undotted es = es" using assms(1) by (simp add: good_def undotted_id)
      then show ?thesis using canonical_elems_abs [OF el] True undotted_rel [OF fs] by simp
    next
      case a: False
      then obtain c cs where c: "es = c # cs" using ne by (cases es) auto
      then have "undotted cs = cs" using assms(1) a by (simp add: good_def undotted_id)
      then show ?thesis using canonical_elems_rel [of c "cs @ fs"] el a c undotted_rel [OF fs] by simp
    qed
    then show ?thesis by (simp add: mk_path_def path_of_def)
  qed
  finally show ?thesis unfolding if_not_P [OF False] .
qed

lemma join_empty_left: "good b fs \<Longrightarrow> join path_empty (path_of b fs) = path_of b fs"
  by (simp add: join_def p_empty_def path_empty_def)

lemma path_empty_path_of: "path_empty = path_of False []"
  by (simp add: path_empty_def path_of_def name_of_def)

lemma good_single: "nosl e \<Longrightarrow> e \<noteq> [] \<Longrightarrow> good False [e]"
  by (simp add: good_def)

lemma good_False_Nil [simp]: "good False []"
  by (simp add: good_def)

lemma mk_path_elem: "nosl e \<Longrightarrow> e \<noteq> [] \<Longrightarrow> mk_path e = path_of False [e]"
  using mk_path_name_of [OF good_single, of e] by (simp add: name_of_def)

lemma join_elems:
  assumes "good a es" and "\<forall>x \<in> set xs. nosl x \<and> proper x"
  shows "foldl join (path_of a es) (map mk_path xs) = path_of a (es @ xs) \<and> good a (es @ xs)"
  using assms
proof (induction xs arbitrary: es)
  case (Cons x xs)
  then have x: "nosl x" "x \<noteq> []" "x \<noteq> ''.''" by (auto simp: proper_def)
  have j: "join (path_of a es) (mk_path x) = path_of a (es @ [x])"
    using join_path_of [OF Cons.prems(1) good_single [OF x(1,2)]] mk_path_elem [OF x(1,2)] x(3)
    by (auto simp: undot_head_def)
  have "good a (es @ [x])" using Cons.prems(1) x by (cases es) (auto simp: good_def)
  then have "foldl join (path_of a (es @ [x])) (map mk_path xs) = path_of a ((es @ [x]) @ xs)
      \<and> good a ((es @ [x]) @ xs)"
    by (rule Cons.IH) (use Cons.prems(2) in simp)
  then show ?case using j by simp
qed simp

section \<open>Splitting\<close>

lemma split_path_path_of:
  assumes "good a es"
  shows "split_path (path_of a es) =
    (if es = [] then (path_of a [], path_empty) else (path_of a (butlast es), path_of False [last es]))"
proof -
  let ?s = "name_of a es" and ?k = "leaf_start (name_of a es)"
  have dir: "substr ?s 0 (length ?s - length (get_leaf (path_of a es))) = take ?k ?s"
  proof -
    have "get_leaf (path_of a es) = drop ?k ?s" using get_leaf_path_of [OF assms] leaf_start_name_of(1) [OF assms] by simp
    moreover have "take (length ?s - length (drop ?k ?s)) ?s = take ?k ?s" by (cases "?k \<le> length ?s") simp_all
    ultimately show ?thesis by (simp add: substr_def)
  qed
  have sp: "split_path (path_of a es) = (mk_path (take ?k ?s), mk_path (get_leaf (path_of a es)))"
    unfolding split_path_def Let_def filename_path_of dir ..
  have root: "name_of a [] = root_of a" "good a []" by (simp_all add: name_of_def root_of_def good_def)
  show ?thesis
  proof (cases es rule: rev_cases)
    case Nil
    have "take ?k ?s = name_of a []" using leaf_start_name_of(2) [OF assms] root(1) Nil by simp
    moreover have "get_leaf (path_of a es) = name_of False []" using get_leaf_path_of [OF assms] Nil by (simp add: name_of_def)
    ultimately show ?thesis
      unfolding sp using Nil mk_path_name_of [OF root(2)] mk_path_name_of [OF good_False_Nil] path_empty_path_of by simp
  next
    case (snoc fs f)
    have f: "nosl f" "f \<noteq> []" and gf: "good a fs" using assms snoc by (auto simp: good_def) (cases fs; auto)+
    have leaf: "mk_path (get_leaf (path_of a es)) = path_of False [f]"
      using get_leaf_path_of [OF assms] snoc mk_path_elem [OF f] by simp
    have "mk_path (take ?k ?s) = path_of a fs"
    proof (cases fs)
      case Nil
      then show ?thesis using leaf_start_name_of(2) [OF assms] root(1) snoc mk_path_name_of [OF root(2)] by simp
    next
      case (Cons c cs)
      have el: "\<forall>e \<in> set (fs @ [[]]). nosl e" using gf by (auto simp: good_def)
      have t: "take ?k ?s = name_of a (fs @ [[]])"
        using leaf_start_name_of(2) [OF assms] snoc Cons by (simp add: root_of_def name_of_def)
      have "canonical (name_of a (fs @ [[]])) = name_of a fs"
      proof (cases a)
        case True
        then have "\<not> bad_root (name_of a (fs @ [[]]))"
          using bad_root_cases [OF el] gf Cons by (auto simp: name_of_def good_def)
        moreover have "filter proper (fs @ [[]]) = fs" using gf True filter_proper_id [of fs] by (simp add: good_def proper_def)
        ultimately show ?thesis using canon_ref_abs [OF el] True by (simp add: canonical_canon_ref name_of_def)
      next
        case False
        have c: "c \<noteq> []" "CHR ''/'' \<notin> set c" using gf Cons by (simp_all add: good_def)
        then have "\<not> bad_root (name_of a (fs @ [[]]))" using False Cons by (cases c) (auto simp: name_of_def bad_root_def)
        moreover have "filter proper (cs @ [[]]) = cs"
          using gf False Cons filter_proper_id [of cs] by (simp add: good_def proper_def)
        ultimately show ?thesis
          using canon_ref_rel [of c "cs @ [[]]"] el False Cons c by (simp add: canonical_canon_ref name_of_def)
      qed
      then show ?thesis unfolding t by (simp add: mk_path_def path_of_def)
    qed
    then show ?thesis unfolding sp leaf using snoc by simp
  qed
qed

lemma split_root_path_of:
  assumes "good a es"
  shows "split_root (path_of a es) = (path_of a [], path_of False es)"
proof -
  have root: "mk_path (root_of a) = path_of a []"
    using mk_path_name_of [of a "[]"] by (cases a) (simp_all add: good_def name_of_def root_of_def)
  have "good False es" using assms by (cases es) (auto simp: good_def split: if_splits)
  then have tail: "mk_path (name_of False es) = path_of False es" by (rule mk_path_name_of)
  have drop: "drop (length (root_of a)) (name_of a es) = name_of False es" by (simp add: root_of_def name_of_def)
  show ?thesis unfolding split_root_def Let_def filename_path_of get_root_name_of [OF assms] drop root tail ..
qed

text \<open>The extension of an element: from its last dot on, unless that is its first or last character.\<close>

definition elem_ext :: "string \<Rightarrow> string \<times> string" where
  "elem_ext l = (case find_last ((=) CHR ''.'') l of
      None \<Rightarrow> (l, [])
    | Some k \<Rightarrow> if k = 0 \<or> length l - 1 \<le> k then (l, []) else (take k l, drop k l))"

lemma split_leaf_path_of:
  assumes "good a es"
  shows "split_leaf (path_of a es) = elem_ext (if es = [] then [] else last es)"
proof -
  let ?s = "name_of a es" and ?k = "leaf_start (name_of a es)" and ?l = "if es = [] then [] else last es"
  define u where "u = take ?k ?s"
  have s: "?s = u @ ?l" unfolding u_def leaf_start_name_of(1) [OF assms, symmetric] by simp
  have l: "drop ?k ?s = ?l" by (rule leaf_start_name_of(1) [OF assms])
  show ?thesis
  proof (cases "?l = []")
    case True
    then have "\<not> ?k < length ?s" using l by auto
    then show ?thesis using True l s
      by (auto simp: split_leaf_def get_base_ext_def Let_def elem_ext_def find_last_def)
  next
    case False
    have k1: "?k < length ?s"
    proof (rule ccontr)
      assume "\<not> ?k < length ?s"
      then have "drop ?k ?s = []" by simp
      then show False using False l by metis
    qed
    then have k: "?k < length ?s" "length u = ?k" by (simp_all add: u_def)
    then have ne: "?s \<noteq> []" by auto
    show ?thesis
    proof (cases "find_last ((=) CHR ''.'') ?l")
      case None
      then have noc: "\<forall>x \<in> set ?l. CHR ''.'' \<noteq> x" by (simp only: find_last_None_iff)
      have "dot < ?k" if fl: "find_last ((=) CHR ''.'') ?s = Some dot" for dot
      proof -
        obtain A y B where d: "?s = A @ y # B" "CHR ''.'' = y" "dot = length A"
          using find_last_SomeE [OF fl] by metis
        show ?thesis
        proof (rule ccontr)
          assume "\<not> dot < ?k"
          moreover have "dot < length ?s" using d(1,3) by simp
          ultimately have at: "?s ! dot = drop ?k ?s ! (dot - ?k)" and "dot - ?k < length (drop ?k ?s)" by simp_all
          then have "?s ! dot \<in> set (drop ?k ?s)" unfolding at by (intro nth_mem)
          then have "?s ! dot \<in> set ?l" unfolding l .
          moreover have "?s ! dot = CHR ''.''" unfolding d(1,3) using d(2) by simp
          ultimately show False using noc by metis
        qed
      qed
      then show ?thesis using ne k None l
        by (auto simp: split_leaf_def get_base_ext_def Let_def elem_ext_def split: option.splits)
    next
      case (Some j)
      then obtain A y B where d: "?l = A @ y # B" "CHR ''.'' = y" "\<forall>x \<in> set B. CHR ''.'' \<noteq> x" "j = length A"
        using find_last_SomeE [OF Some] by metis
      have "?s = (u @ A) @ y # B" using s d by simp
      then have "find_last ((=) CHR ''.'') ?s = Some (?k + j)"
        using find_last_append [of "(=) CHR ''.''" y B "u @ A"] d k(2) by (simp del: append_assoc)
      then show ?thesis using ne k Some l s
        by (auto simp: split_leaf_def get_base_ext_def Let_def elem_ext_def substr_def split: if_splits)
    qed
  qed
qed

end
