(* ===== verification/Path_Relation.thy ===== *)
theory Path_Relation
  imports Path_Ops
begin

text \<open>
  \<open>change_ext\<close>, \<open>common\<close> and \<open>relative_to\<close> by the elements of the names.
\<close>

section \<open>Changing the extension\<close>

definition dotted :: "string \<Rightarrow> string" where
  "dotted x = (if x \<noteq> [] \<and> x ! 0 \<noteq> CHR ''.'' then CHR ''.'' # x else x)"

lemma elem_ext_append: "fst (elem_ext l) @ snd (elem_ext l) = l"
  by (auto simp: elem_ext_def split: option.splits)

lemma elem_ext_base: "l \<noteq> [] \<Longrightarrow> fst (elem_ext l) \<noteq> []"
  by (auto simp: elem_ext_def split: option.splits)

lemma change_ext_good:
  assumes "good a es" and "es \<noteq> []" and "nosl x" and "x \<noteq> []"
  shows "good a (butlast es @ [fst (elem_ext (last es)) @ dotted x])"
proof -
  let ?b = "fst (elem_ext (last es))" and ?new = "fst (elem_ext (last es)) @ dotted x"
  have l: "last es \<noteq> []" "nosl (last es)" using assms(1,2) by (simp_all add: good_def)
  have "set ?b \<subseteq> set (last es)" using elem_ext_append [of "last es"] by (metis Un_upper1 set_append)
  then have nb: "nosl ?new" using l(2) assms(3) by (auto simp: dotted_def)
  have "?b \<noteq> []" using elem_ext_base [OF l(1)] .
  moreover have "dotted x \<noteq> []" using assms(4) by (simp add: dotted_def)
  ultimately have "?new \<noteq> ''.''" "?new \<noteq> []" by (cases ?b; cases "dotted x"; auto)+
  then show ?thesis
    using assms(1,2) nb by (cases es rule: rev_cases; cases "butlast es") (auto simp: good_def)
qed

lemma change_ext_path_of:
  assumes "good a es" and "es \<noteq> []" and "nosl x" and "x \<noteq> []"
  shows "change_ext x (path_of a es) = Inr (path_of a (butlast es @ [fst (elem_ext (last es)) @ dotted x]))"
proof -
  let ?s = "name_of a es" and ?b = "fst (elem_ext (last es))" and ?e = "snd (elem_ext (last es))"
  define u where "u = take (leaf_start ?s) ?s"
  have s: "?s = u @ last es"
    using leaf_start_name_of(1) [OF assms(1)] assms(2) by (metis append_take_drop_id u_def)
  then have s2: "?s = (u @ ?b) @ ?e" by (simp add: elem_ext_append)
  have ext: "snd (get_base_ext (path_of a es)) = ?e"
    using split_leaf_path_of [OF assms(1)] assms(2) by (simp add: split_leaf_def)
  have pre: "take (length ?s - length ?e) ?s = u @ ?b" unfolding s2 by simp
  have root: "length (get_root ?s) \<noteq> length ?s"
    using get_root_name_of [OF assms(1)] assms(1,2) by (cases es) (auto simp: name_of_def root_of_def good_def)
  let ?new = "?b @ dotted x"
  have new: "u @ ?new = name_of a (butlast es @ [?new])"
    unfolding u_def leaf_start_name_of(2) [OF assms(1)]
    using assms(2) by (cases "butlast es") (simp_all add: name_of_def root_of_def)
  have ne: "\<not> (p_empty (path_of a es) \<or> length (get_root (filename (path_of a es))) = length (filename (path_of a es)))"
    using root assms(1,2) by simp
  have "(u @ ?b) @ (if x \<noteq> [] \<and> x ! 0 \<noteq> CHR ''.'' then ''.'' else []) @ x = u @ ?new" by (simp add: dotted_def)
  then have "change_ext x (path_of a es) = Inr (mk_path (u @ ?new))"
    unfolding change_ext_def if_not_P [OF ne] unfolding Let_def filename_path_of ext pre by (auto simp: dotted_def)
  then show ?thesis unfolding new using mk_path_name_of [OF change_ext_good [OF assms]] by simp
qed

section \<open>Common prefixes\<close>

lemma mismatch_append: "mismatch (p @ xs) (p @ ys) = length p + mismatch xs ys"
  by (induction p) simp_all

lemma mismatch_split:
  obtains zs xs' ys' where "xs = zs @ xs'" "ys = zs @ ys'" "length zs = mismatch xs ys"
    "xs' = [] \<or> ys' = [] \<or> hd xs' \<noteq> hd ys'"
proof (induction xs ys arbitrary: thesis rule: mismatch.induct [case_names both left right])
  case (both x xs y ys)
  show ?case
  proof (cases "x = y")
    case True
    obtain zs xs' ys' where "xs = zs @ xs'" "ys = zs @ ys'" "length zs = mismatch xs ys"
      "xs' = [] \<or> ys' = [] \<or> hd xs' \<noteq> hd ys'" by (rule both.IH [OF True])
    with True show ?thesis by (intro both.prems [of "x # zs" xs' ys']) simp_all
  next
    case False
    then show ?thesis by (intro both.prems [of "[]" "x # xs" "y # ys"]) simp_all
  qed
next
  case (left ys)
  show ?case by (rule left.prems [of "[]" "[]" ys]) simp_all
next
  case (right xs)
  show ?case by (rule right.prems [of "[]" xs "[]"]) simp_all
qed

lemma back_cut_run:
  "k < n \<Longrightarrow> \<forall>i. k < i \<and> i < n \<longrightarrow> s ! i \<noteq> CHR ''/'' \<Longrightarrow> k = r \<or> r < k \<and> s ! k = CHR ''/'' \<Longrightarrow> back_cut s r n = k"
proof (induction n)
  case (Suc n)
  show ?case
  proof (cases "k = n")
    case False
    then have "r < n \<and> s ! n \<noteq> CHR ''/''" using Suc.prems by auto
    moreover have "back_cut s r n = k" using Suc False by auto
    ultimately show ?thesis by simp
  qed (use Suc.prems in auto)
qed simp

definition shared :: "string list \<Rightarrow> string list \<Rightarrow> string list" where
  "shared es fs = take (mismatch es fs) es"

text \<open>The text in front of the first elements that differ.\<close>

definition stem :: "bool \<Rightarrow> string list \<Rightarrow> string" where
  "stem a cs = root_of a @ (if cs = [] then [] else join_slash cs @ ''/'')"

lemma name_of_stem: "es \<noteq> [] \<Longrightarrow> name_of a (cs @ es) = stem a cs @ join_slash es"
  by (cases cs; cases es) (simp_all add: name_of_def stem_def root_of_def)

lemma name_of_stem_end: "cs \<noteq> [] \<Longrightarrow> stem a cs = name_of a cs @ ''/''"
  by (simp add: name_of_def stem_def root_of_def)

lemma name_of_longer:
  assumes "\<forall>e \<in> set cs. e \<noteq> []" and "cs \<noteq> []"
  shows "length (root_of a) < length (name_of a cs)"
  using assms by (cases cs) (auto simp: name_of_def root_of_def)

lemma good_take: "good a (cs @ es) \<Longrightarrow> good a cs"
  by (cases cs) (auto simp: good_def split: if_splits)

lemma mismatch_tails:
  assumes "nosl e" and "nosl f" and "e = [] \<or> f = [] \<or> hd e \<noteq> hd f" and "e \<noteq> [] \<or> f \<noteq> []"
  shows "mismatch (e @ slash_tail es) (f @ slash_tail fs) = 0"
  using assms by (cases e; cases f; cases es; cases fs) auto

lemma common_path_of:
  assumes ges: "good a es" and gfs: "good b fs"
  shows "common (path_of a es) (path_of b fs) = (if a \<noteq> b then path_empty else path_of a (shared es fs))"
proof (cases "a = b")
  case False
  then show ?thesis
    using get_root_name_of [OF ges] get_root_name_of [OF gfs] by (simp add: common_def Let_def root_of_def)
next
  case True
  define l r where "l = name_of a es" and "r = name_of a fs"
  have roots: "get_root l = root_of a" "get_root r = root_of a"
    using get_root_name_of [OF ges] get_root_name_of [OF gfs] True by (simp_all add: l_def r_def)
  obtain cs es' fs' where cs: "es = cs @ es'" "fs = cs @ fs'" "length cs = mismatch es fs"
    "es' = [] \<or> fs' = [] \<or> hd es' \<noteq> hd fs'" by (rule mismatch_split)
  have sh: "shared es fs = cs" using cs by (simp add: shared_def)
  have gcs: "good a cs" using good_take ges cs(1) by metis
  have cel: "\<forall>e \<in> set cs. e \<noteq> []" using gcs by (simp add: good_def)
  have result: "mk_path (name_of a cs) = path_of a cs" using mk_path_name_of [OF gcs] .
  have nel: "\<forall>e \<in> set (cs @ es' @ fs'). nosl e \<and> e \<noteq> []" using ges gfs cs(1,2) by (auto simp: good_def)
  have common: "common (path_of a es) (path_of b fs) = (let cut = mismatch l r in
      if cut = length (root_of a) then mk_path (take cut l)
      else if (cut = length l \<or> l ! cut = CHR ''/'') \<and> (cut = length r \<or> r ! cut = CHR ''/'') then mk_path (take cut l)
      else mk_path (take (back_cut l (length (root_of a)) cut) l))"
    using roots True by (simp add: common_def Let_def substr_def l_def r_def)
  have at_end: "common (path_of a es) (path_of b fs) = path_of a cs"
    if "es' = [] \<or> fs' = []"
  proof -
    have pre: "\<exists>t u. l = name_of a cs @ t \<and> r = name_of a cs @ u \<and> mismatch t u = 0
        \<and> (cs \<noteq> [] \<longrightarrow> (t = [] \<or> hd t = CHR ''/'') \<and> (u = [] \<or> hd u = CHR ''/''))"
    proof (cases "cs = []")
      case c: True
      have m: "mismatch (join_slash es') (join_slash fs') = 0" using that by (cases "join_slash es'") auto
      have "l = name_of a cs @ join_slash es'" "r = name_of a cs @ join_slash fs'"
        using c cs by (simp_all add: l_def r_def name_of_def)
      then show ?thesis using m c by blast
    next
      case c: False
      then have "l = name_of a cs @ slash_tail es'" "r = name_of a cs @ slash_tail fs'"
        using cs(1,2) by (cases cs; simp add: l_def r_def name_of_def)+
      moreover have "mismatch (slash_tail es') (slash_tail fs') = 0" using that by (cases "slash_tail es'") auto
      moreover have "slash_tail es' = [] \<or> hd (slash_tail es') = CHR ''/''" by (cases es') auto
      moreover have "slash_tail fs' = [] \<or> hd (slash_tail fs') = CHR ''/''" by (cases fs') auto
      ultimately show ?thesis by blast
    qed
    then obtain t u where tu: "l = name_of a cs @ t" "r = name_of a cs @ u" "mismatch t u = 0"
      "cs \<noteq> [] \<longrightarrow> (t = [] \<or> hd t = CHR ''/'') \<and> (u = [] \<or> hd u = CHR ''/'')" by blast
    have cut: "mismatch l r = length (name_of a cs)" unfolding tu(1,2) mismatch_append tu(3) by simp
    have "length (name_of a cs) = length (root_of a)" if "cs = []" using that by (simp add: name_of_def root_of_def)
    moreover have "(length (name_of a cs) = length l \<or> l ! length (name_of a cs) = CHR ''/'')
        \<and> (length (name_of a cs) = length r \<or> r ! length (name_of a cs) = CHR ''/'')" if "cs \<noteq> []"
      using tu(1,2,4) that by (cases t; cases u) (auto simp: nth_append)
    moreover have "take (length (name_of a cs)) l = name_of a cs" by (simp add: tu(1))
    ultimately show ?thesis unfolding common cut Let_def using result name_of_longer [OF cel, of a]
      by (cases "cs = []") simp_all
  qed
  have inside: "common (path_of a es) (path_of b fs) = path_of a cs"
    if ne: "es' \<noteq> []" "fs' \<noteq> []"
  proof -
    obtain e er f fr where ef: "es' = e # er" "fs' = f # fr" "e \<noteq> f" using ne cs(4) by (cases es'; cases fs') auto
    obtain z e1 f1 where z: "e = z @ e1" "f = z @ f1" "length z = mismatch e f" "e1 = [] \<or> f1 = [] \<or> hd e1 \<noteq> hd f1"
      by (rule mismatch_split)
    have e1f1: "e1 \<noteq> [] \<or> f1 \<noteq> []" using z ef(3) by auto
    have nosl: "nosl e1" "nosl f1" "nosl z" using nel ef z by auto
    let ?x = "stem a cs"
    have lr: "l = (?x @ z) @ e1 @ slash_tail er" "r = (?x @ z) @ f1 @ slash_tail fr"
      using name_of_stem [of es' a cs] name_of_stem [of fs' a cs] ne cs(1,2) ef(1,2) z by (simp_all add: l_def r_def)
    have cut: "mismatch l r = length (?x @ z)"
      unfolding lr mismatch_append using mismatch_tails [OF nosl(1,2) z(4) e1f1] by simp
    let ?n = "length (?x @ z)"
    have nb: "\<not> ((?n = length l \<or> l ! ?n = CHR ''/'') \<and> (?n = length r \<or> r ! ?n = CHR ''/''))"
    proof (cases "e1 = []")
      case True
      then obtain c k where "f1 = c # k" using e1f1 by (cases f1) auto
      then have "?n \<noteq> length r" "r ! ?n = c" "c \<noteq> CHR ''/''" using lr(2) nosl(2) nth_append_length [of "?x @ z" c] by auto
      then show ?thesis by simp
    next
      case False
      then obtain c k where "e1 = c # k" by (cases e1) auto
      then have "?n \<noteq> length l" "l ! ?n = c" "c \<noteq> CHR ''/''" using lr(1) nosl(1) nth_append_length [of "?x @ z" c] by auto
      then show ?thesis by simp
    qed
    show ?thesis
    proof (cases "?n = length (root_of a)")
      case True
      have "cs = []" using True name_of_stem_end [of cs a] name_of_longer [OF cel, of a] by (cases "cs = []") auto
      then have "take ?n l = name_of a cs" using True lr(1) by (simp add: stem_def name_of_def root_of_def)
      then show ?thesis unfolding common cut Let_def using True result by simp
    next
      case False
      define k where "k = (if cs = [] then length (root_of a) else length (name_of a cs))"
      have k: "take k l = name_of a cs" "k < ?n" "k = length (root_of a) \<or> length (root_of a) < k \<and> l ! k = CHR ''/''"
        "\<forall>i. k < i \<and> i < ?n \<longrightarrow> l ! i \<noteq> CHR ''/''"
      proof -
        have zz: "l ! i \<noteq> CHR ''/''" if "length ?x \<le> i" "i < ?n" for i
        proof -
          have j: "i - length ?x < length z" using that by auto
          have "l ! i = z ! (i - length ?x)" using that j unfolding lr(1) by (simp add: nth_append del: length_append)
          moreover have "z ! (i - length ?x) \<in> set z" using j by simp
          ultimately show ?thesis using nosl(3) by metis
        qed
        have x: "length ?x = Suc (length (name_of a cs))" if "cs \<noteq> []" using name_of_stem_end [OF that, of a] by simp
        show "take k l = name_of a cs"
          using lr(1) name_of_stem_end [of cs a] by (cases "cs = []") (simp_all add: k_def stem_def name_of_def root_of_def)
        show "k < ?n" using False x by (cases "cs = []") (auto simp: k_def stem_def [of a "[]"])
        show "k = length (root_of a) \<or> length (root_of a) < k \<and> l ! k = CHR ''/''"
          using lr(1) name_of_stem_end [of cs a] name_of_longer [OF cel, of a]
          by (cases "cs = []") (simp_all add: k_def)
        show "\<forall>i. k < i \<and> i < ?n \<longrightarrow> l ! i \<noteq> CHR ''/''"
          using zz x by (cases "cs = []") (auto simp: k_def stem_def [of a "[]"])
      qed
      have "back_cut l (length (root_of a)) ?n = k" by (rule back_cut_run [OF k(2,4,3)])
      then show ?thesis unfolding common cut Let_def if_not_P [OF False] if_not_P [OF nb] using k(1) result by simp
    qed
  qed
  show ?thesis using at_end inside True sh by (cases "es' = [] \<or> fs' = []") auto
qed

section \<open>Relative names\<close>

lemma path_form_path_of:
  "good a es \<Longrightarrow> path_form (path_of a es) =
     (if a then Form_absolute else if es = [] then Form_empty else Form_relative)"
  using is_absolute_path_of [of a es] name_of_Nil_iff [of a es]
  by (cases a; cases "es = []") (simp_all add: path_form_def is_drive_absolute_def is_drive_relative_def)

lemma dots_join: "0 < n \<Longrightarrow> dots n = join_slash (replicate n ''..'')"
proof (induction n)
  case (Suc n)
  show ?case
  proof (cases n)
    case 0
    then show ?thesis by (simp add: dots_def upt_rec)
  next
    case (Suc m)
    have up: "[0..<3 * Suc n - 1] = [0..<3 * n - 1] @ [3 * n - 1, 3 * n, 3 * n + 1]"
    proof -
      define k where "k = 3 * n - 1"
      have len: "3 * Suc n - 1 = Suc (Suc (Suc k))" "3 * n = Suc k" using Suc by (simp_all add: k_def)
      show ?thesis unfolding len by simp
    qed
    have "3 * n - 1 = 2 + m * 3" using Suc by simp
    then have "(3 * n - 1) mod 3 = 2" by (simp only: mod_mult_self1) simp
    moreover have "(3 * n) mod 3 = 0" "(3 * n + 1) mod 3 = 1" by simp_all
    ultimately have "dots (Suc n) = dots n @ ''/..''" unfolding dots_def Let_def up by simp
    also have "\<dots> = join_slash (replicate n ''..'' @ [''..''])" using Suc.IH \<open>n = Suc m\<close> by simp
    finally show ?thesis by (simp add: replicate_append_same)
  qed
qed simp

text \<open>Walking from a list of elements along another one.\<close>

fun walk :: "string list \<Rightarrow> string list \<Rightarrow> string list" where
  "walk at [] = at"
| "walk at (e # es) =
     walk (if e = ''.'' then at else if e = ''..'' then butlast at else at @ [e]) es"

lemma walk_append: "walk at (es @ fs) = walk (walk at es) fs"
  by (induction es arbitrary: at) simp_all

lemma walk_plain: "''.'' \<notin> set es \<Longrightarrow> ''..'' \<notin> set es \<Longrightarrow> walk at es = at @ es"
  by (induction es arbitrary: at) auto

lemma walk_up: "walk (at @ es) (replicate (length es) ''..'') = at"
proof (induction es rule: rev_induct)
  case (snoc e es)
  then show ?case by (simp add: butlast_append flip: append_assoc)
qed simp

lemma good_dots: "good False (replicate n ''..'')"
  by (cases n) (auto simp: good_def)

lemma mk_dots: "0 < n \<Longrightarrow> \<lparr>filename = dots n\<rparr> = path_of False (replicate n ''..'')"
  by (simp add: dots_join path_of_def name_of_def)

lemma join_all_elems:
  assumes "good False xs"
  shows "join_all (map mk_path xs) = path_of False xs"
proof (cases xs)
  case Nil
  then show ?thesis by (simp add: join_all_def do_combine_def path_empty_path_of)
next
  case (Cons x ys)
  then have "\<forall>y \<in> set ys. nosl y \<and> proper y" "good False [x]" using assms by (auto simp: good_def proper_def)
  then show ?thesis
    using join_elems [of False "[x]" ys] Cons mk_path_elem [of x] assms
    by (simp add: join_all_def do_combine_def good_def)
qed

lemma good_drop: "good a es \<Longrightarrow> good False (drop n es)"
proof (cases "n = 0")
  case True
  assume "good a es"
  then show ?thesis using True by (cases es) (auto simp: good_def split: if_splits)
next
  case False
  assume g: "good a es"
  have "set (drop n es) \<subseteq> set (tl es)" using False by (cases n) (simp_all add: drop_Suc set_drop_subset)
  moreover have "set (tl es) \<subseteq> set es" by (cases es) auto
  moreover have "''.'' \<notin> set (tl es)" using g calculation(2) by (auto simp: good_def split: if_splits)
  moreover have "set (tl (drop n es)) \<subseteq> set (drop n es)" by (cases "drop n es") auto
  ultimately show ?thesis using g by (auto simp: good_def)
qed

lemma relative_to_path_of:
  assumes "good a es" and "good a fs" and "a \<or> es \<noteq> [] \<and> fs \<noteq> []"
  shows "relative_to (path_of a es) (path_of a fs) =
    (let n = mismatch fs es; up = replicate (length fs - n) ''..''; down = drop n es;
         rel = (if up = [] then down else up @ undot_head down)
     in Inr (path_of False (if rel = [] then [''.''] else rel)))"
proof -
  define n where "n = mismatch fs es"
  have le: "n \<le> length fs" unfolding n_def by (rule mismatch_split [of fs es]) auto
  have bv: "os_breakdown (path_of a fs) = (if a then [''/''] else []) @ fs"
    "os_breakdown (path_of a es) = (if a then [''/''] else []) @ es"
    using os_breakdown_path_of [OF assms(1)] os_breakdown_path_of [OF assms(2)] by simp_all
  have cut: "mismatch (os_breakdown (path_of a fs)) (os_breakdown (path_of a es)) = (if a then 1 else 0) + n"
    unfolding bv mismatch_append n_def by simp
  have suf: "drop ((if a then 1 else 0) + n) (os_breakdown (path_of a es)) = drop n es" unfolding bv by simp
  have len: "length (os_breakdown (path_of a fs)) = (if a then 1 else 0) + length fs" unfolding bv by simp
  have gd: "good False (drop n es)" by (rule good_drop [OF assms(1)])
  have suffix: "join_all (map mk_path (drop n es)) = path_of False (drop n es)" by (rule join_all_elems [OF gd])
  define up where "up = replicate (length fs - n) ''..''"
  have prefix: "(if n < length fs then \<lparr>filename = dots (length fs - n)\<rparr> else path_empty) = path_of False up"
    using mk_dots [of "length fs - n"] by (simp add: up_def path_empty_path_of)
  have gu: "good False up" unfolding up_def by (rule good_dots)
  define rel where "rel = (if up = [] then drop n es else up @ undot_head (drop n es))"
  have rel: "join (path_of False up) (path_of False (drop n es)) = path_of False rel"
    unfolding join_path_of [OF gu gd] rel_def by simp
  have grel: "good False rel" unfolding rel_def using gd good_append [OF gu _ gd] by simp
  have dot: "mk_path ''.'' = path_of False [''.'']" using mk_path_elem [of "''.''"] by simp
  have forms: "\<not> (\<not> (path_form (path_of a fs) = Form_absolute \<and> path_form (path_of a es) = Form_absolute)
            \<and> \<not> (path_form (path_of a fs) = Form_relative \<and> path_form (path_of a es) = Form_relative))"
    using path_form_path_of [OF assms(1)] path_form_path_of [OF assms(2)] assms(3) by auto
  have heads: "\<not> (path_form (path_of a es) = Form_absolute \<and> os_breakdown (path_of a fs) ! 0 \<noteq> os_breakdown (path_of a es) ! 0)"
    using path_form_path_of [OF assms(1)] bv by auto
  have "relative_to (path_of a es) (path_of a fs) = Inr (if p_empty (path_of False rel) then mk_path ''.'' else path_of False rel)"
    unfolding relative_to_def Let_def if_not_P [OF forms] if_not_P [OF heads] cut suf len suffix
      add_less_cancel_left add_diff_cancel_left' add_diff_cancel_left prefix rel ..
  also have "\<dots> = Inr (path_of False (if rel = [] then [''.''] else rel))" using grel dot by simp
  finally show ?thesis unfolding Let_def n_def [symmetric] up_def [symmetric] rel_def [symmetric] .
qed

lemma relative_to_valid:
  assumes "good a es" and "good b fs" and "relative_to (path_of a es) (path_of b fs) = Inr r"
  shows "valid r"
proof -
  have ok: "a = b \<and> (a \<or> es \<noteq> [] \<and> fs \<noteq> [])"
    using assms(3) path_form_path_of [OF assms(1)] path_form_path_of [OF assms(2)]
    by (auto simp: relative_to_def Let_def split: if_splits)
  let ?n = "mismatch fs es"
  let ?up = "replicate (length fs - ?n) ''..''"
  have gd: "good False (drop ?n es)" by (rule good_drop [OF assms(1)])
  have "good False (?up @ undot_head (drop ?n es))" if "?up \<noteq> []"
    using good_append [OF good_dots _ gd] that by simp
  moreover have "good False [''.'']" by (simp add: good_def)
  ultimately show ?thesis
    using relative_to_path_of [OF assms(1), of fs] assms(2,3) ok gd by (auto simp: Let_def split: if_splits)
qed

end
