(* ===== verification/Path_Properties.thy ===== *)
theory Path_Properties
  imports Path_Relation "HOL-Library.Sublist"
begin

text \<open>
  The properties of path names. The contract of the functions that \<open>do_combine\<close> folds over a list
  of names is the locale \<open>path_combiner\<close>, interpreted on \<open>join\<close> and \<open>common\<close>.
\<close>

section \<open>Combining lists of names\<close>

locale path_combiner =
  fixes f :: "path \<Rightarrow> path \<Rightarrow> path"
  assumes closed: "valid p \<Longrightarrow> valid q \<Longrightarrow> valid (f p q)"
    and assoc: "valid p \<Longrightarrow> valid q \<Longrightarrow> valid r \<Longrightarrow> f (f p q) r = f p (f q r)"
begin

lemma foldl_valid: "valid p \<Longrightarrow> \<forall>q \<in> set qs. valid q \<Longrightarrow> valid (foldl f p qs)"
  by (induction qs arbitrary: p) (simp_all add: closed)

lemma do_combine_valid: "ps \<noteq> [] \<Longrightarrow> \<forall>p \<in> set ps. valid p \<Longrightarrow> valid (do_combine ps f)"
  by (cases ps) (simp_all add: do_combine_def foldl_valid)

lemma foldl_assoc: "valid p \<Longrightarrow> valid q \<Longrightarrow> \<forall>r \<in> set rs. valid r \<Longrightarrow> foldl f (f p q) rs = f p (foldl f q rs)"
  by (induction rs arbitrary: q) (simp_all add: assoc closed)

lemma do_combine_append:
  assumes "ps \<noteq> []" and "qs \<noteq> []" and "\<forall>p \<in> set (ps @ qs). valid p"
  shows "do_combine (ps @ qs) f = f (do_combine ps f) (do_combine qs f)"
proof -
  obtain p ps' q qs' where "ps = p # ps'" "qs = q # qs'" using assms(1,2) by (cases ps; cases qs) auto
  with assms(3) show ?thesis by (simp add: do_combine_def foldl_assoc foldl_valid)
qed

end

lemma valid_path_empty: "valid path_empty"
  unfolding path_empty_path_of by (rule valid_path_of) simp

lemma join_valid:
  assumes "valid p" and "valid q"
  shows "valid (join p q)"
proof -
  obtain a es where p: "good a es" "p = path_of a es" by (rule validE [OF assms(1)])
  obtain b fs where q: "good b fs" "q = path_of b fs" by (rule validE [OF assms(2)])
  show ?thesis
  proof (cases "b \<or> \<not> a \<and> es = []")
    case True
    then show ?thesis using join_path_of [OF p(1) q(1)] p q by auto
  next
    case False
    then have "good a (es @ undot_head fs)" using good_append [OF p(1), of fs] q(1) by auto
    then show ?thesis using join_path_of [OF p(1) q(1)] p q False by auto
  qed
qed

lemma undot_head_idem: "good b fs \<Longrightarrow> undot_head (undot_head fs) = undot_head fs"
  by (cases fs; cases "tl fs") (auto simp: undot_head_def good_def split: if_splits)

lemma undot_head_append: "good False fs \<Longrightarrow> fs \<noteq> [] \<Longrightarrow> good False gs \<Longrightarrow>
    undot_head (fs @ undot_head gs) = undot_head fs @ undot_head gs"
  by (cases fs) (auto simp: undot_head_def)

lemma join_assoc:
  assumes "valid p" and "valid q" and "valid r"
  shows "join (join p q) r = join p (join q r)"
proof -
  obtain a es where p: "good a es" "p = path_of a es" by (rule validE [OF assms(1)])
  obtain b fs where q: "good b fs" "q = path_of b fs" by (rule validE [OF assms(2)])
  obtain c gs where r: "good c gs" "r = path_of c gs" by (rule validE [OF assms(3)])
  note pq = join_path_of [OF p(1) q(1)] and qr = join_path_of [OF q(1) r(1)]
  consider "c" | "\<not> c" "b" | "\<not> c" "\<not> b" "\<not> a \<and> es = []" | "\<not> c" "\<not> b" "fs = []" "a \<or> es \<noteq> []"
    | "\<not> c" "\<not> b" "fs \<noteq> []" "a \<or> es \<noteq> []" by auto
  then show ?thesis
  proof cases
    case 1
    obtain d hs where "good d hs" "join p q = path_of d hs" by (rule validE [OF join_valid [OF assms(1,2)]])
    then show ?thesis using 1 p q r qr join_path_of [of d hs c gs] join_path_of [OF p(1) r(1)] by simp
  next
    case 2
    then have "good b (fs @ undot_head gs)" using good_append [OF q(1), of gs] r(1) by simp
    then show ?thesis using 2 p q r pq qr join_path_of [OF p(1), of b "fs @ undot_head gs"] by simp
  next
    case 3
    obtain d hs where "good d hs" "join q r = path_of d hs" by (rule validE [OF join_valid [OF assms(2,3)]])
    then show ?thesis using 3 p q r pq join_path_of [OF p(1), of d hs] by simp
  next
    case 4
    have "join p q = p" "join q r = r" using 4 pq qr p q r by (simp_all add: undot_head_def)
    then show ?thesis by simp
  next
    case 5
    have g: "good False fs" "good False gs" using 5 q(1) r(1) by simp_all
    have pq_g: "good a (es @ undot_head fs)" by (rule good_append [OF p(1) 5(4) g(1)])
    have qr_g: "good False (fs @ undot_head gs)" using good_append [OF g(1) _ g(2)] 5(3) by simp
    have "join (join p q) r = path_of a ((es @ undot_head fs) @ undot_head gs)"
      using pq p q r join_path_of [OF pq_g r(1)] 5 by auto
    moreover have "join p (join q r) = path_of a (es @ undot_head (fs @ undot_head gs))"
      using qr p q r join_path_of [OF p(1) qr_g] 5 by auto
    ultimately show ?thesis using undot_head_append [OF g(1) 5(3) g(2)] by simp
  qed
qed

interpretation joining: path_combiner join
  by unfold_locales (simp_all add: join_valid join_assoc)

lemma shared_prefix: "prefix xs (shared es fs) \<longleftrightarrow> prefix xs es \<and> prefix xs fs"
proof -
  obtain zs es' fs' where z: "es = zs @ es'" "fs = zs @ fs'" "length zs = mismatch es fs"
    "es' = [] \<or> fs' = [] \<or> hd es' \<noteq> hd fs'" by (rule mismatch_split)
  have sh: "shared es fs = zs" using z by (simp add: shared_def)
  show ?thesis
  proof
    assume "prefix xs es \<and> prefix xs fs"
    then have x: "prefix xs (zs @ es')" "prefix xs (zs @ fs')" using z by simp_all
    show "prefix xs (shared es fs)"
    proof (cases "prefix xs zs")
      case False
      then obtain u v where u: "xs = zs @ u" "prefix u es'" "xs = zs @ v" "prefix v fs'" "u \<noteq> []"
        using x by (metis prefix_append same_prefix_prefix append_Nil2 prefix_order.refl)
      then have "u = v" by simp
      with u obtain y ys where "u = y # ys" by (cases u) auto
      with u \<open>u = v\<close> have "es' \<noteq> []" "fs' \<noteq> []" "hd es' = y" "hd fs' = y" by (auto simp: prefix_def)
      with z(4) show ?thesis by simp
    qed (simp add: sh)
  next
    assume "prefix xs (shared es fs)"
    then have "prefix xs zs" using sh by simp
    then show "prefix xs es \<and> prefix xs fs" unfolding z(1,2) by simp
  qed
qed

lemma shared_assoc: "shared (shared es fs) gs = shared es (shared fs gs)"
  by (rule prefix_order.antisym) (metis shared_prefix prefix_order.refl)+

lemma good_shared: "good a es \<Longrightarrow> good a (shared es fs)"
  unfolding shared_def by (metis append_take_drop_id good_take)

lemma common_valid:
  assumes "valid p" and "valid q"
  shows "valid (common p q)"
proof -
  obtain a es where p: "good a es" "p = path_of a es" by (rule validE [OF assms(1)])
  obtain b fs where q: "good b fs" "q = path_of b fs" by (rule validE [OF assms(2)])
  show ?thesis using common_path_of [OF p(1) q(1)] p q good_shared [OF p(1), of fs] valid_path_empty by auto
qed

lemma common_empty: "good a es \<Longrightarrow> common path_empty (path_of a es) = path_empty \<and> common (path_of a es) path_empty = path_empty"
  using common_path_of [OF good_False_Nil, of a es] common_path_of [of a es False "[]"]
  by (auto simp: path_empty_path_of shared_def)

lemma common_assoc:
  assumes "valid p" and "valid q" and "valid r"
  shows "common (common p q) r = common p (common q r)"
proof -
  obtain a es where p: "good a es" "p = path_of a es" by (rule validE [OF assms(1)])
  obtain b fs where q: "good b fs" "q = path_of b fs" by (rule validE [OF assms(2)])
  obtain c gs where r: "good c gs" "r = path_of c gs" by (rule validE [OF assms(3)])
  note pq = common_path_of [OF p(1) q(1)] and qr = common_path_of [OF q(1) r(1)]
  consider "a \<noteq> b" "b \<noteq> c" | "a \<noteq> b" "b = c" | "a = b" "b \<noteq> c" | "a = b" "b = c" by auto
  then show ?thesis
  proof cases
    case 1
    then show ?thesis using p q r pq qr common_empty [OF p(1)] common_empty [OF r(1)] by simp
  next
    case 2
    then show ?thesis using p q r pq qr common_empty [OF r(1)] common_path_of [OF p(1) good_shared [OF q(1)]] by simp
  next
    case 3
    then show ?thesis using p q r pq qr common_empty [OF p(1)] common_path_of [OF good_shared [OF p(1)] r(1)] by simp
  next
    case 4
    then show ?thesis
      using p q r pq qr common_path_of [OF good_shared [OF p(1)] r(1), of fs] common_path_of [OF p(1) good_shared [OF q(1)], of gs]
      by (simp add: shared_assoc)
  qed
qed

interpretation sharing: path_combiner common
  by unfold_locales (simp_all add: common_valid common_assoc)

section \<open>Properties\<close>

text \<open>
  C14. The constructor of a path name computes the canonical form: the name cut at the slashes,
  without empty elements and without the elements \<open>.\<close> (but a leading one of a relative name), joined
  again; the result is a valid name and a fixed point. Excluded are absolute names with \<open>./\<close> right
  after the root and another slash after it (\<open>bad_root\<close>).
\<close>

theorem path_canonical:
  "\<not> bad_root s \<Longrightarrow>
     canonical s = canon_ref s \<and> valid (mk_path s) \<and> canonical (canonical s) = canonical s"
proof -
  assume s: "\<not> bad_root s"
  obtain a es where "good a es" "canon_ref s = name_of a es" using canon_ref_form by blast
  then show ?thesis using s canonical_canon_ref [OF s] valid_mk_path [OF s] canonical_name_of by simp
qed

theorem path_canonical_witness:
  "canonical ''//usr/./lib//x/.'' = ''/usr/lib/x'' \<and> canonical ''/usr/lib/x'' = ''/usr/lib/x''
    \<and> canonical ''./a//./b/'' = ''./a/b''"
proof -
  have "\<not> bad_root ''//usr/./lib//x/.''" "\<not> bad_root ''./a//./b/''" by code_simp+
  from this [THEN path_canonical] have "canonical ''//usr/./lib//x/.'' = canon_ref ''//usr/./lib//x/.''"
    "canonical (canonical ''//usr/./lib//x/.'') = canonical ''//usr/./lib//x/.''"
    "canonical ''./a//./b/'' = canon_ref ''./a//./b/''" by blast+
  moreover have "canon_ref ''//usr/./lib//x/.'' = ''/usr/lib/x''" "canon_ref ''./a//./b/'' = ''./a/b''" by code_simp+
  ultimately show ?thesis by simp
qed

text \<open>The names excluded: the result has two leading slashes and is not canonical.\<close>

lemma bad_root_not_canonical: "canonical ''/.//a'' = ''//a'' \<and> canonical ''//a'' = ''/a''"
  by code_simp


lemma validI: "good a es \<Longrightarrow> p = path_of a es \<Longrightarrow> valid p"
  by auto


text \<open>
  C17. Splitting and joining are inverse: joining the two halves that \<open>split_path\<close> or \<open>split_root\<close>
  gives makes the name again, so does joining the elements that \<open>breakdown\<close> gives, and the base and
  the extension of \<open>split_leaf\<close> make the last element.
\<close>

theorem path_split_join:
  assumes "valid p"
  shows "join (fst (split_path p)) (snd (split_path p)) = p \<and> join (fst (split_root p)) (snd (split_root p)) = p
    \<and> join_all (map mk_path (os_breakdown p)) = p
    \<and> fst (split_leaf p) @ snd (split_leaf p) = filename (snd (split_path p))"
proof (intro conjI)
  obtain a es where p: "good a es" "p = path_of a es" by (rule validE [OF assms])
  have ga: "good a []" and gf: "good False es" using p(1) good_drop [OF p(1), of 0] by (simp_all add: good_def)
  have uh: "a \<Longrightarrow> undot_head es = es" using p(1) by (cases es) (auto simp: good_def undot_head_def)
  show "join (fst (split_path p)) (snd (split_path p)) = p"
  proof (cases es rule: rev_cases)
    case Nil
    then show ?thesis using split_path_path_of [OF p(1)] p(2) join_path_of [OF ga good_False_Nil]
      by (simp add: path_empty_path_of undot_head_def)
  next
    case (snoc fs f)
    have g: "good a fs" "good False [f]" using p(1) snoc good_take [of a fs "[f]"] by (auto simp: good_def)
    have "undot_head [f] = [f]" if "a \<or> fs \<noteq> []" using p(1) that snoc by (cases a; cases fs) (auto simp: good_def undot_head_def)
    then show ?thesis using split_path_path_of [OF p(1)] p(2) snoc join_path_of [OF g] by auto
  qed
  show "join (fst (split_root p)) (snd (split_root p)) = p"
    using split_root_path_of [OF p(1)] p(2) join_path_of [OF ga gf] uh by auto
  show "join_all (map mk_path (os_breakdown p)) = p"
  proof (cases a)
    case True
    have "mk_path ''/'' = path_of True []" using mk_path_name_of [of True "[]"] by (simp add: good_def name_of_def)
    moreover have "\<forall>x \<in> set es. nosl x \<and> proper x" using p(1) True by (auto simp: good_def proper_def)
    ultimately show ?thesis using join_elems [of True "[]" es] os_breakdown_path_of [OF p(1)] p(2) True
      by (simp add: join_all_def do_combine_def good_def)
  next
    case False
    then show ?thesis using join_all_elems [OF gf] os_breakdown_path_of [OF p(1)] p(2) by simp
  qed
  show "fst (split_leaf p) @ snd (split_leaf p) = filename (snd (split_path p))"
    using split_leaf_path_of [OF p(1)] split_path_path_of [OF p(1)] p(2) elem_ext_append
    by (simp add: path_empty_path_of name_of_def)
qed

theorem path_split_join_witness:
  "split_path (mk_path ''/a/b.c'') = (mk_path ''/a'', mk_path ''b.c'')
    \<and> join (mk_path ''/a'') (mk_path ''b.c'') = mk_path ''/a/b.c''"
proof -
  have "valid (mk_path ''/a/b.c'')" by (rule valid_mk_path) code_simp
  from path_split_join [OF this]
  have "join (fst (split_path (mk_path ''/a/b.c''))) (snd (split_path (mk_path ''/a/b.c''))) = mk_path ''/a/b.c''" by simp
  moreover have "split_path (mk_path ''/a/b.c'') = (mk_path ''/a'', mk_path ''b.c'')" by code_simp
  ultimately show ?thesis by simp
qed

text \<open>
  Joining names is associative with the empty name as unit, an absolute name replaces what
  stands in front of it, the elements of a joined name are those of its parts, and joining a list
  of names joins the lists it is made of.
\<close>

theorem path_join_monoid:
  assumes "valid p" and "valid q" and "valid r" and "\<forall>x \<in> set (ps @ qs). valid x"
  shows "join (join p q) r = join p (join q r) \<and> join path_empty p = p \<and> join p path_empty = p
    \<and> (is_absolute q \<longrightarrow> join p q = q)
    \<and> (\<not> is_absolute q \<and> \<not> p_empty p \<longrightarrow> os_breakdown (join p q) = os_breakdown p @ undot_head (os_breakdown q))
    \<and> join_all (ps @ qs) = join (join_all ps) (join_all qs)"
proof (intro conjI impI)
  obtain a es where p: "good a es" "p = path_of a es" by (rule validE [OF assms(1)])
  obtain b fs where q: "good b fs" "q = path_of b fs" by (rule validE [OF assms(2)])
  show "join (join p q) r = join p (join q r)" by (rule join_assoc [OF assms(1-3)])
  have unit: "join path_empty x = x \<and> join x path_empty = x" if "valid x" for x
  proof -
    obtain c gs where x: "good c gs" "x = path_of c gs" by (rule validE [OF \<open>valid x\<close>])
    then show ?thesis using join_empty_left [OF x(1)] join_path_of [OF x(1) good_False_Nil]
      by (auto simp: path_empty_path_of undot_head_def)
  qed
  from unit [OF assms(1)] show "join path_empty p = p" "join p path_empty = p" by simp_all
  show "join p q = q" if "is_absolute q" using that by (simp add: join_def)
  show "os_breakdown (join p q) = os_breakdown p @ undot_head (os_breakdown q)" if c: "\<not> is_absolute q \<and> \<not> p_empty p"
  proof -
    from c have c: "\<not> b" "a \<or> es \<noteq> []" using p q by auto
    have "good a (es @ undot_head fs)" using good_append [OF p(1) c(2)] q(1) c(1) by simp
    then show ?thesis using c join_path_of [OF p(1) q(1)] p q os_breakdown_path_of [OF p(1)]
        os_breakdown_path_of [OF q(1)] os_breakdown_path_of [of a "es @ undot_head fs"] by auto
  qed
  have nil: "join_all [] = path_empty" by (simp add: join_all_def do_combine_def)
  have val: "valid (join_all xs)" if "\<forall>x \<in> set xs. valid x" for xs
    using joining.do_combine_valid [of xs] that valid_path_empty nil by (cases "xs = []") (simp_all add: join_all_def)
  show "join_all (ps @ qs) = join (join_all ps) (join_all qs)"
  proof (cases "ps = [] \<or> qs = []")
    case True
    then show ?thesis using unit [OF val [of ps]] unit [OF val [of qs]] assms(4) nil by auto
  next
    case False
    then show ?thesis using joining.do_combine_append [of ps qs] assms(4) by (simp add: join_all_def)
  qed
qed

theorem path_join_monoid_witness:
  "join (join (mk_path ''a'') (mk_path ''./b'')) (mk_path ''c'') = mk_path ''a/b/c''"
proof -
  have "valid (mk_path ''a'')" "valid (mk_path ''./b'')" "valid (mk_path ''c'')" by (rule valid_mk_path, code_simp)+
  from path_join_monoid [OF this, of "[]" "[]"]
  have "join (join (mk_path ''a'') (mk_path ''./b'')) (mk_path ''c'') = join (mk_path ''a'') (join (mk_path ''./b'') (mk_path ''c''))"
    by simp
  also have "\<dots> = mk_path ''a/b/c''" by code_simp
  finally show ?thesis .
qed

text \<open>
  C18. \<open>change_ext\<close> replaces the extension and nothing else: it is refused exactly for the empty name
  and the root, and otherwise the directory and the base of the leaf stay, and the extension is the
  new one, with a dot in front where the caller gave none.
\<close>

theorem path_change_ext:
  assumes "valid p" and "CHR ''/'' \<notin> set x" and "CHR ''.'' \<notin> set x" and "x \<noteq> []"
  shows "(change_ext x p = Inl (Invalid_argument ''Can't change file extension'') \<longleftrightarrow> p_empty p \<or> is_root p)
    \<and> (\<not> p_empty p \<and> \<not> is_root p \<longrightarrow>
        (\<exists>r. change_ext x p = Inr r \<and> change_ext (CHR ''.'' # x) p = Inr r
          \<and> split_leaf r = (fst (split_leaf p), CHR ''.'' # x) \<and> fst (split_path r) = fst (split_path p)))"
proof -
  obtain a es where p: "good a es" "p = path_of a es" by (rule validE [OF assms(1)])
  have root: "p_empty p \<or> is_root p \<longleftrightarrow> es = []"
    using p get_root_name_of [OF p(1)] name_of_Nil_iff [OF p(1)]
    by (cases es; cases "hd es") (auto simp: p_empty_def is_root_def name_of_def root_of_def good_def)
  show ?thesis
  proof (cases "es = []")
    case True
    then have "change_ext x p = Inl (Invalid_argument ''Can't change file extension'')"
      using p get_root_name_of [OF p(1)] by (simp add: change_ext_def p_empty_def name_of_def root_of_def)
    then show ?thesis using True root by simp
  next
    case False
    have nx: "nosl (CHR ''.'' # x)" "CHR ''.'' # x \<noteq> []" using assms(2) by simp_all
    let ?b = "fst (elem_ext (last es))"
    let ?r = "path_of a (butlast es @ [?b @ CHR ''.'' # x])"
    obtain c k where x: "x = c # k" "c \<noteq> CHR ''.''" using assms(3,4) by (cases x) auto
    then have "dotted x = CHR ''.'' # x" "dotted (CHR ''.'' # x) = CHR ''.'' # x" by (simp_all add: dotted_def)
    then have r: "change_ext x p = Inr ?r" "change_ext (CHR ''.'' # x) p = Inr ?r"
      and g: "good a (butlast es @ [?b @ CHR ''.'' # x])"
      using change_ext_path_of [OF p(1) False assms(2,4)] change_ext_path_of [OF p(1) False nx]
        change_ext_good [OF p(1) False assms(2,4)] p(2) by simp_all
    have base: "?b \<noteq> []" using p(1) False by (intro elem_ext_base) (simp add: good_def)
    have "find_last ((=) CHR ''.'') (?b @ CHR ''.'' # x) = Some (length ?b)"
      using assms(3) by (intro find_last_append) auto
    then have "elem_ext (?b @ CHR ''.'' # x) = (?b, CHR ''.'' # x)"
      using base assms(4) by (cases x) (simp_all add: elem_ext_def)
    then have "split_leaf ?r = (fst (split_leaf p), CHR ''.'' # x)"
      using split_leaf_path_of [OF g] split_leaf_path_of [OF p(1)] p(2) False by simp
    moreover have "fst (split_path ?r) = fst (split_path p)"
      using split_path_path_of [OF g] split_path_path_of [OF p(1)] p(2) False by simp
    ultimately show ?thesis using r root False by simp
  qed
qed

theorem path_change_ext_witness:
  "change_ext ''txt'' (mk_path ''/a.d/b.tar'') = Inr (mk_path ''/a.d/b.txt'')
    \<and> split_leaf (mk_path ''/a.d/b.txt'') = (''b'', ''.txt'')"
proof -
  have v: "valid (mk_path ''/a.d/b.tar'')" by (rule valid_mk_path) code_simp
  have "\<not> p_empty (mk_path ''/a.d/b.tar'') \<and> \<not> is_root (mk_path ''/a.d/b.tar'')" by code_simp
  with path_change_ext [OF v, of "''txt''"]
  obtain r where r: "change_ext ''txt'' (mk_path ''/a.d/b.tar'') = Inr r"
    "split_leaf r = (fst (split_leaf (mk_path ''/a.d/b.tar'')), ''.txt'')" by auto
  have "change_ext ''txt'' (mk_path ''/a.d/b.tar'') = Inr (mk_path ''/a.d/b.txt'')" by code_simp
  moreover have "split_leaf (mk_path ''/a.d/b.tar'') = (''b'', ''.tar'')" by code_simp
  ultimately show ?thesis using r by simp
qed

text \<open>
  \<open>common\<close> gives the longest common directory: the elements of the result are a prefix of the
  elements of both names, and every common prefix of their elements is a prefix of it; the result
  for a list of names does not depend on how the list is cut.
\<close>

theorem path_common_longest:
  assumes "valid p" and "valid q" and "ps \<noteq> []" and "qs \<noteq> []" and "\<forall>x \<in> set (ps @ qs). valid x"
  shows "(\<forall>xs. prefix xs (os_breakdown (common p q)) \<longleftrightarrow> prefix xs (os_breakdown p) \<and> prefix xs (os_breakdown q))
    \<and> common_all (ps @ qs) = common (common_all ps) (common_all qs)"
proof (intro conjI allI)
  fix xs
  obtain a es where p: "good a es" "p = path_of a es" by (rule validE [OF assms(1)])
  obtain b fs where q: "good b fs" "q = path_of b fs" by (rule validE [OF assms(2)])
  note bd = os_breakdown_path_of [OF p(1)] os_breakdown_path_of [OF q(1)] os_breakdown_path_of [OF good_shared [OF p(1), of fs]]
  show "prefix xs (os_breakdown (common p q)) \<longleftrightarrow> prefix xs (os_breakdown p) \<and> prefix xs (os_breakdown q)"
  proof (cases "a = b")
    case True
    then have "common p q = path_of a (shared es fs)" using common_path_of [OF p(1) q(1)] p q by simp
    then show ?thesis using bd p q True shared_prefix [of _ es fs] by (cases xs) auto
  next
    case False
    then have c: "os_breakdown (common p q) = []"
      using common_path_of [OF p(1) q(1)] p q by (simp add: os_breakdown_def p_empty_def path_empty_def)
    have nil: "xs = []" if "prefix xs (''/'' # us)" "prefix xs vs" "\<forall>v \<in> set vs. nosl v" for us vs
    proof (cases xs)
      case (Cons y ys)
      then have "y = ''/''" "y \<in> set vs" using that(1,2) by (auto simp: prefix_def)
      with that(3) show ?thesis by auto
    qed simp
    have el: "\<forall>e \<in> set es. nosl e" "\<forall>e \<in> set fs. nosl e" using good_elems [OF p(1)] good_elems [OF q(1)] by simp_all
    have "xs = []" if "prefix xs (os_breakdown p)" "prefix xs (os_breakdown q)"
    proof (cases a)
      case True
      then show ?thesis using that bd p(2) q(2) False nil [OF _ _ el(2), of es] by simp
    next
      case b: False
      then show ?thesis using that bd p(2) q(2) False nil [OF _ _ el(1), of fs] by simp
    qed
    then show ?thesis using c by auto
  qed
next
  show "common_all (ps @ qs) = common (common_all ps) (common_all qs)"
    using sharing.do_combine_append [OF assms(3-5)] by (simp add: common_all_def)
qed

theorem path_common_longest_witness:
  "common (mk_path ''/ab/c/d'') (mk_path ''/ab/cd'') = mk_path ''/ab''
    \<and> prefix [''/'', ''ab''] (os_breakdown (mk_path ''/ab''))"
proof -
  let ?p = "mk_path ''/ab/c/d''" and ?q = "mk_path ''/ab/cd''"
  have v: "valid ?p" "valid ?q" by (rule valid_mk_path, code_simp)+
  have "os_breakdown ?p = [''/'', ''ab'', ''c'', ''d'']" "os_breakdown ?q = [''/'', ''ab'', ''cd'']" by code_simp+
  with path_common_longest [OF v, of "[?p]" "[?q]"] v have "prefix [''/'', ''ab''] (os_breakdown (common ?p ?q))" by simp
  moreover have "common ?p ?q = mk_path ''/ab''" by code_simp
  ultimately show ?thesis by simp
qed

text \<open>
  C19. \<open>relative_to\<close> leads from the base to the name: it is refused exactly when the two are not both
  absolute or both relative, and for names without \<open>.\<close> and \<open>..\<close> the result is a relative name whose
  elements, walked from the base, end at the name.
\<close>

theorem path_relative_to:
  assumes "valid p" and "valid base"
  shows "((\<exists>e. relative_to p base = Inl e) \<longleftrightarrow>
      \<not> (is_absolute p \<and> is_absolute base) \<and> \<not> (is_relative p \<and> is_relative base))
    \<and> (\<forall>r. relative_to p base = Inr r \<longrightarrow>
        {''.'', ''..''} \<inter> (set (os_breakdown p) \<union> set (os_breakdown base)) = {} \<longrightarrow>
        is_relative r \<and> walk (os_breakdown base) (os_breakdown r) = os_breakdown p)"
proof (intro conjI allI impI)
  obtain a es where p: "good a es" "p = path_of a es" by (rule validE [OF assms(1)])
  obtain b fs where q: "good b fs" "base = path_of b fs" by (rule validE [OF assms(2)])
  have rel: "is_relative p \<longleftrightarrow> \<not> a \<and> es \<noteq> []" "is_relative base \<longleftrightarrow> \<not> b \<and> fs \<noteq> []"
    using p q by (auto simp: is_relative_def is_drive_absolute_def is_drive_relative_def)
  have abs: "is_absolute p \<longleftrightarrow> a" "is_absolute base \<longleftrightarrow> b" using p q by simp_all
  have forms: "path_form p = (if a then Form_absolute else if es = [] then Form_empty else Form_relative)"
    "path_form base = (if b then Form_absolute else if fs = [] then Form_empty else Form_relative)"
    using path_form_path_of [OF p(1)] path_form_path_of [OF q(1)] p(2) q(2) by simp_all
  have ok: "\<exists>r. relative_to p base = Inr r" if "a = b" "a \<or> es \<noteq> [] \<and> fs \<noteq> []"
    using relative_to_path_of [OF p(1), of fs] q(1) p(2) q(2) that by (auto simp: Let_def)
  have refused: "\<exists>e. relative_to p base = Inl e" if "\<not> (a = b \<and> (a \<or> es \<noteq> [] \<and> fs \<noteq> []))"
    using that forms by (auto simp: relative_to_def Let_def)
  show "(\<exists>e. relative_to p base = Inl e) \<longleftrightarrow>
      \<not> (is_absolute p \<and> is_absolute base) \<and> \<not> (is_relative p \<and> is_relative base)"
    using ok refused unfolding rel abs by (metis sum.distinct(1))
  fix r
  assume r: "relative_to p base = Inr r"
    and plain: "{''.'', ''..''} \<inter> (set (os_breakdown p) \<union> set (os_breakdown base)) = {}"
  have c: "a = b" "a \<or> es \<noteq> [] \<and> fs \<noteq> []" using refused r by auto
  define n where "n = mismatch fs es"
  obtain zs fs' es' where z: "fs = zs @ fs'" "es = zs @ es'" "length zs = n" unfolding n_def by (rule mismatch_split [of fs es])
  have dots: "''.'' \<notin> set es'" "''..'' \<notin> set es'" "''.'' \<notin> set fs'"
    using plain os_breakdown_path_of [OF p(1)] os_breakdown_path_of [OF q(1)] p(2) q(2) z(1,2) by auto
  define up where "up = replicate (length fs') ''..''"
  have len: "length fs - n = length fs'" "drop n es = es'" using z by auto
  have "undot_head es' = es'" using dots(1) by (cases es') (auto simp: undot_head_def)
  then have r2: "r = path_of False (if up @ es' = [] then [''.''] else up @ es')"
    using relative_to_path_of [OF p(1), of fs] q(1) c p(2) q(2) r
    unfolding n_def [symmetric] Let_def len up_def [symmetric] by (auto split: if_splits)
  have "good False es'" using good_drop [OF p(1), of n] len(2) by simp
  then have g: "good False (if up @ es' = [] then [''.''] else up @ es')"
    using good_append [OF good_dots _ \<open>good False es'\<close>, of "length fs'"] \<open>undot_head es' = es'\<close>
    by (cases fs') (auto simp: up_def good_def)
  show "is_relative r" unfolding r2 using g by (simp add: is_relative_def is_drive_absolute_def is_drive_relative_def)
  let ?R = "if b then [''/''] else []"
  have "walk ((?R @ zs) @ fs') (up @ es') = (?R @ zs) @ es'"
    unfolding walk_append up_def walk_up using dots by (simp add: walk_plain)
  moreover have "walk at (if up @ es' = [] then [''.''] else up @ es') = walk at (up @ es')" for at by simp
  ultimately show "walk (os_breakdown base) (os_breakdown r) = os_breakdown p"
    unfolding r2 os_breakdown_path_of [OF g] p(2) q(2) os_breakdown_path_of [OF p(1)] os_breakdown_path_of [OF q(1)]
    using c z(1,2) by simp
qed

theorem path_relative_to_witness:
  "relative_to (mk_path ''/a/b/c'') (mk_path ''/a/x/y'') = Inr (mk_path ''../../b/c'')
    \<and> walk [''/'', ''a'', ''x'', ''y''] [''..'', ''..'', ''b'', ''c''] = [''/'', ''a'', ''b'', ''c'']"
proof -
  let ?p = "mk_path ''/a/b/c''" and ?q = "mk_path ''/a/x/y''"
  have v: "valid ?p" "valid ?q" by (rule valid_mk_path, code_simp)+
  have bd: "os_breakdown ?p = [''/'', ''a'', ''b'', ''c'']" "os_breakdown ?q = [''/'', ''a'', ''x'', ''y'']"
    "os_breakdown (mk_path ''../../b/c'') = [''..'', ''..'', ''b'', ''c'']" by code_simp+
  have r: "relative_to ?p ?q = Inr (mk_path ''../../b/c'')" by code_simp
  from path_relative_to [OF v] r bd show ?thesis by simp
qed

text \<open>With a dot in the base the way up is too long: from \<open>./b\<close> to \<open>a\<close> it is \<open>../a\<close>.\<close>

lemma relative_to_dot: "relative_to (mk_path ''a'') (mk_path ''./b'') = Inr (mk_path ''../../a'')"
  by code_simp

end
