(* ===== verification/Io_Base.thy ===== *)
theory Io_Base
  imports Prelude
begin

text \<open>
  The abstract class \<open>IoBase\<close> and \<open>LineIterator\<close> (\<open>stdio.hpp\<close>, \<open>stdio.cpp\<close>). The virtual functions
  of a concrete class are arguments: \<open>rd n s\<close> is \<open>read(ptr, n)\<close>, which gives the bytes placed at
  \<open>ptr\<close> or throws, \<open>wr d s\<close> is \<open>write\<close>, which gives the number of bytes taken. Every function returns
  the state of the device beside its result. A loop that a device could keep going for ever is a
  \<open>partial_function\<close>, with \<^const>\<open>None\<close> for a call that does not return.
\<close>

section \<open>Functions of IoBase\<close>

definition block_size :: nat where "block_size = 65536"

text \<open>\<open>getc\<close>: \<^const>\<open>None\<close> is \<open>EOF\<close>.\<close>

definition base_getc :: "(nat \<Rightarrow> 's \<Rightarrow> string res \<times> 's) \<Rightarrow> 's \<Rightarrow> char option res \<times> 's" where
  "base_getc rd s = (case rd 1 s of
      (Inl e, s') \<Rightarrow> (Inl e, s')
    | (Inr d, s') \<Rightarrow> (Inr (case d of [] \<Rightarrow> None | b # _ \<Rightarrow> Some b), s'))"

definition base_putc :: "(string \<Rightarrow> 's \<Rightarrow> nat res \<times> 's) \<Rightarrow> char \<Rightarrow> 's \<Rightarrow> unit res \<times> 's" where
  "base_putc wr c s = (case wr [c] s of (Inl e, s') \<Rightarrow> (Inl e, s') | (Inr n, s') \<Rightarrow> (Inr (), s'))"

partial_function (option) read_line_loop ::
    "('s \<Rightarrow> char option res \<times> 's) \<Rightarrow> string \<Rightarrow> 's \<Rightarrow> (string res \<times> 's) option" where
  "read_line_loop getc buf s = (case getc s of
      (Inl e, s') \<Rightarrow> Some (Inl e, s')
    | (Inr None, s') \<Rightarrow> Some (Inr buf, s')
    | (Inr (Some c), s') \<Rightarrow>
        if c = CHR 0x0A then Some (Inr (buf @ [c]), s') else read_line_loop getc (buf @ [c]) s')"

definition base_read_line :: "('s \<Rightarrow> char option res \<times> 's) \<Rightarrow> 's \<Rightarrow> (string res \<times> 's) option" where
  "base_read_line getc s = read_line_loop getc [] s"

text \<open>\<open>read_some\<close> appends to the caller's buffer; after an exception the buffer keeps the space made.\<close>

definition read_some ::
    "(nat \<Rightarrow> 's \<Rightarrow> string res \<times> 's) \<Rightarrow> nat \<Rightarrow> string \<Rightarrow> 's \<Rightarrow> nat res \<times> string \<times> 's" where
  "read_some rd maxlen buf s = (case rd maxlen s of
      (Inl e, s') \<Rightarrow> (Inl e, buf @ replicate maxlen (CHR 0x00), s')
    | (Inr d, s') \<Rightarrow> (Inr (length d), buf @ d, s'))"

partial_function (option) read_all_loop ::
    "(nat \<Rightarrow> 's \<Rightarrow> string res \<times> 's) \<Rightarrow> string \<Rightarrow> 's \<Rightarrow> (string res \<times> 's) option" where
  "read_all_loop rd buf s = (case read_some rd block_size buf s of
      (Inl e, buf', s') \<Rightarrow> Some (Inl e, s')
    | (Inr n, buf', s') \<Rightarrow> if n \<noteq> 0 then read_all_loop rd buf' s' else Some (Inr buf', s'))"

definition base_read_all :: "(nat \<Rightarrow> 's \<Rightarrow> string res \<times> 's) \<Rightarrow> 's \<Rightarrow> (string res \<times> 's) option" where
  "base_read_all rd s = read_all_loop rd [] s"

definition base_reads :: "(nat \<Rightarrow> 's \<Rightarrow> string res \<times> 's) \<Rightarrow> nat \<Rightarrow> 's \<Rightarrow> string res \<times> 's" where
  "base_reads rd maxlen s = rd maxlen s"

fun write_blocks :: "(string \<Rightarrow> 's \<Rightarrow> nat res \<times> 's) \<Rightarrow> string list \<Rightarrow> 's \<Rightarrow> unit res \<times> 's" where
  "write_blocks wr [] s = (Inr (), s)"
| "write_blocks wr (b # bs) s = (case wr b s of (Inl e, s') \<Rightarrow> (Inl e, s') | (Inr n, s') \<Rightarrow> write_blocks wr bs s')"

definition write_chars :: "(string \<Rightarrow> 's \<Rightarrow> nat res \<times> 's) \<Rightarrow> nat \<Rightarrow> char \<Rightarrow> 's \<Rightarrow> unit res \<times> 's" where
  "write_chars wr n c s =
     (let buf = replicate (min n block_size) c; quo = n div block_size; rem = n mod block_size
      in write_blocks wr (replicate quo (take block_size buf) @ (if rem \<noteq> 0 then [take rem buf] else [])) s)"

partial_function (option) writes_loop ::
    "(string \<Rightarrow> 's \<Rightarrow> nat res \<times> 's) \<Rightarrow> string \<Rightarrow> nat \<Rightarrow> 's \<Rightarrow> (nat res \<times> 's) option" where
  "writes_loop wr str ofs s = (case wr (drop ofs str) s of
      (Inl e, s') \<Rightarrow> Some (Inl e, s')
    | (Inr n, s') \<Rightarrow>
        if ofs + n < length str then writes_loop wr str (ofs + n) s' else Some (Inr (ofs + n), s'))"

definition base_writes :: "(string \<Rightarrow> 's \<Rightarrow> nat res \<times> 's) \<Rightarrow> string \<Rightarrow> 's \<Rightarrow> (nat res \<times> 's) option" where
  "base_writes wr str s = writes_loop wr str 0 s"

definition write_line ::
    "(string \<Rightarrow> 's \<Rightarrow> nat res \<times> 's) \<Rightarrow> (char \<Rightarrow> 's \<Rightarrow> unit res \<times> 's) \<Rightarrow> string \<Rightarrow> 's \<Rightarrow> (unit res \<times> 's) option" where
  "write_line wr putc str s =
     (if str = [] then Some (putc (CHR 0x0A) s)
      else map_option (\<lambda>(r, s'). (map_sum id (\<lambda>_. ()) r, s'))
             (base_writes wr (if last str = CHR 0x0A then str else str @ [CHR 0x0A]) s))"

section \<open>LineIterator\<close>

record line_iterator =
  io_open :: bool
  line_text :: string

definition line_next :: "('s \<Rightarrow> (string res \<times> 's) option) \<Rightarrow> line_iterator \<Rightarrow> 's \<Rightarrow> (line_iterator res \<times> 's) option" where
  "line_next rl it s =
     (if io_open it
      then (case rl s of
          None \<Rightarrow> None
        | Some (Inl e, s') \<Rightarrow> Some (Inl e, s')
        | Some (Inr l, s') \<Rightarrow> Some (Inr \<lparr>io_open = (l \<noteq> []), line_text = l\<rparr>, s'))
      else Some (Inr it, s))"

text \<open>The lines a loop over \<open>lines()\<close> sees, until the iterator equals the end iterator.\<close>

partial_function (option) lines_from ::
    "('s \<Rightarrow> (string res \<times> 's) option) \<Rightarrow> string list \<Rightarrow> line_iterator \<Rightarrow> 's \<Rightarrow> (string list res \<times> 's) option" where
  "lines_from rl seen it s =
     (if \<not> io_open it then Some (Inr seen, s)
      else case line_next rl it s of
          None \<Rightarrow> None
        | Some (Inl e, s') \<Rightarrow> Some (Inl e, s')
        | Some (Inr it', s') \<Rightarrow> lines_from rl (seen @ [line_text it]) it' s')"

definition io_lines :: "('s \<Rightarrow> (string res \<times> 's) option) \<Rightarrow> 's \<Rightarrow> (string list res \<times> 's) option" where
  "io_lines rl s = (case line_next rl \<lparr>io_open = True, line_text = []\<rparr> s of
      None \<Rightarrow> None
    | Some (Inl e, s') \<Rightarrow> Some (Inl e, s')
    | Some (Inr it, s') \<Rightarrow> lines_from rl [] it s')"

section \<open>The contract of a device\<close>

text \<open>
  What the functions above rely on: \<open>read\<close> gives the next bytes of the input, at most as many as asked
  for, and none only at its end; \<open>write\<close> takes some of the bytes, at least one if there is one. A state
  is \<open>ready\<close> when calls do not throw.
\<close>

locale reader =
  fixes rd :: "nat \<Rightarrow> 's \<Rightarrow> string res \<times> 's" and pending :: "'s \<Rightarrow> string" and ready :: "'s \<Rightarrow> bool"
  assumes rd_ready: "ready s \<Longrightarrow> \<exists>d s'. rd n s = (Inr d, s') \<and> ready s' \<and> pending s = d @ pending s'
    \<and> length d \<le> n \<and> (d = [] \<longrightarrow> n = 0 \<or> pending s = [])"
begin

lemma read_all_ready:
  "ready s \<Longrightarrow> \<exists>s'. read_all_loop rd buf s = Some (Inr (buf @ pending s), s') \<and> ready s' \<and> pending s' = []"
proof (induction "length (pending s)" arbitrary: s buf rule: less_induct)
  case less
  obtain d s' where d: "rd block_size s = (Inr d, s')" "ready s'" "pending s = d @ pending s'"
    "d = [] \<longrightarrow> pending s = []"
    using rd_ready [OF less.prems, of block_size] by (auto simp: block_size_def)
  show ?case
  proof (cases "d = []")
    case True
    with d show ?thesis by (subst read_all_loop.simps) (simp add: read_some_def)
  next
    case False
    then have "length (pending s') < length (pending s)" using d(3) by simp
    from less.hyps [OF this d(2), of "buf @ d"] d False show ?thesis
      by (subst read_all_loop.simps) (simp add: read_some_def)
  qed
qed

lemma getc_ready:
  assumes "ready s"
  shows "(pending s = [] \<and> (\<exists>s'. base_getc rd s = (Inr None, s') \<and> ready s' \<and> pending s' = []))
    \<or> (\<exists>c s'. base_getc rd s = (Inr (Some c), s') \<and> ready s' \<and> pending s = c # pending s')"
proof -
  obtain d s' where d: "rd 1 s = (Inr d, s')" "ready s'" "pending s = d @ pending s'" "length d \<le> 1"
    "d = [] \<longrightarrow> pending s = []"
    using rd_ready [OF assms, of 1] by auto
  from d(4) consider "d = []" | c where "d = [c]" by (cases d) auto
  then show ?thesis by cases (use d in \<open>simp_all add: base_getc_def\<close>)
qed

end

locale char_reader =
  fixes getc :: "'s \<Rightarrow> char option res \<times> 's" and pending :: "'s \<Rightarrow> string" and ready :: "'s \<Rightarrow> bool"
  assumes getc_cases: "ready s \<Longrightarrow>
      (pending s = [] \<and> (\<exists>s'. getc s = (Inr None, s') \<and> ready s' \<and> pending s' = []))
    \<or> (\<exists>c s'. getc s = (Inr (Some c), s') \<and> ready s' \<and> pending s = c # pending s')"

sublocale reader \<subseteq> by_char: char_reader "base_getc rd" pending ready
  by unfold_locales (rule getc_ready)

text \<open>The first line of a text, with its line feed, and all its lines.\<close>

fun first_line :: "string \<Rightarrow> string" where
  "first_line [] = []"
| "first_line (c # s) = (if c = CHR 0x0A then [c] else c # first_line s)"

lemma first_line_nonempty [simp]: "first_line s = [] \<longleftrightarrow> s = []"
  by (cases s) simp_all

lemma first_line_le: "length (first_line s) \<le> length s"
  by (induction s rule: first_line.induct) simp_all

lemma first_line_drop: "first_line s @ drop (length (first_line s)) s = s"
  by (induction s rule: first_line.induct) simp_all

function text_lines :: "string \<Rightarrow> string list" where
  "text_lines s = (if s = [] then [] else first_line s # text_lines (drop (length (first_line s)) s))"
  by auto

termination
proof (relation "measure length")
  fix s :: string
  assume "s \<noteq> []"
  then have "first_line s \<noteq> []" by simp
  then show "(drop (length (first_line s)) s, s) \<in> measure length" using \<open>s \<noteq> []\<close> by (simp del: first_line_nonempty)
qed simp

declare text_lines.simps [simp del]

lemma text_lines_concat: "concat (text_lines s) = s"
proof (induction s rule: text_lines.induct)
  case (1 s)
  then show ?case by (subst text_lines.simps) (simp add: first_line_drop)
qed

context char_reader
begin

lemma read_line_ready:
  "ready s \<Longrightarrow> \<exists>s'. read_line_loop getc buf s = Some (Inr (buf @ first_line (pending s)), s') \<and> ready s'
     \<and> pending s' = drop (length (first_line (pending s))) (pending s)"
proof (induction "pending s" arbitrary: s buf)
  case Nil
  then obtain s' where "getc s = (Inr None, s')" "ready s'" "pending s' = []"
    using getc_cases [OF Nil.prems] by auto
  then show ?case using Nil.hyps by (subst read_line_loop.simps) (simp flip: Nil.hyps)
next
  case (Cons c r)
  then obtain s' where s': "getc s = (Inr (Some c), s')" "ready s'" "r = pending s'"
    using getc_cases [OF Cons.prems] by (metis list.distinct(1) list.inject)
  show ?case
  proof (cases "c = CHR 0x0A")
    case True
    then show ?thesis using s' by (subst read_line_loop.simps) (simp flip: Cons.hyps(2))
  next
    case False
    from Cons.hyps(1) [OF s'(3,2), of "buf @ [c]"] s' False show ?thesis
      by (subst read_line_loop.simps) (simp flip: Cons.hyps(2))
  qed
qed

end

text \<open>A function that reads lines, and the iterator over it.\<close>

locale line_reader =
  fixes rl :: "'s \<Rightarrow> (string res \<times> 's) option" and pending :: "'s \<Rightarrow> string" and ready :: "'s \<Rightarrow> bool"
  assumes rl_ready: "ready s \<Longrightarrow> \<exists>s'. rl s = Some (Inr (first_line (pending s)), s') \<and> ready s'
    \<and> pending s' = drop (length (first_line (pending s))) (pending s)"
begin

lemma lines_from_ready:
  "ready s \<Longrightarrow> l \<noteq> [] \<Longrightarrow>
     \<exists>s'. lines_from rl seen \<lparr>io_open = True, line_text = l\<rparr> s = Some (Inr (seen @ l # text_lines (pending s)), s')
       \<and> pending s' = []"
proof (induction "length (pending s)" arbitrary: s l seen rule: less_induct)
  case less
  obtain s' where s': "rl s = Some (Inr (first_line (pending s)), s')" "ready s'"
    "pending s' = drop (length (first_line (pending s))) (pending s)" using rl_ready [OF less.prems(1)] by auto
  show ?case
  proof (cases "pending s = []")
    case True
    with s' show ?thesis
      by (subst lines_from.simps)
        (simp add: line_next_def text_lines.simps [of "[]"] lines_from.simps [of _ _ "\<lparr>io_open = False, line_text = []\<rparr>"])
  next
    case False
    then have "0 < length (first_line (pending s))" by simp
    then have "length (pending s') < length (pending s)" 
      using s'(3) first_line_le [of "pending s"] by (simp del: length_greater_0_conv first_line_nonempty)
    from less.hyps [OF this s'(2), of "first_line (pending s)" "seen @ [l]"] False obtain s''
      where "lines_from rl (seen @ [l]) \<lparr>io_open = True, line_text = first_line (pending s)\<rparr> s' =
        Some (Inr (seen @ l # first_line (pending s) # text_lines (pending s')), s'')" "pending s'' = []" by auto
    with s' False show ?thesis
      by (subst lines_from.simps) (simp add: line_next_def text_lines.simps [of "pending s"])
  qed
qed

lemma io_lines_ready:
  assumes "ready s"
  shows "\<exists>s'. io_lines rl s = Some (Inr (text_lines (pending s)), s') \<and> pending s' = []"
proof -
  obtain s' where s': "rl s = Some (Inr (first_line (pending s)), s')" "ready s'"
    "pending s' = drop (length (first_line (pending s))) (pending s)" using rl_ready [OF assms] by auto
  show ?thesis
  proof (cases "pending s = []")
    case True
    with s' show ?thesis
      by (simp add: io_lines_def line_next_def text_lines.simps [of "[]"] lines_from.simps)
  next
    case False
    with s' lines_from_ready [OF s'(2), of "first_line (pending s)" "[]"] show ?thesis
      by (auto simp: io_lines_def line_next_def text_lines.simps [of "pending s"])
  qed
qed

end

sublocale char_reader \<subseteq> by_line: line_reader "base_read_line getc" pending ready
proof unfold_locales
  fix s assume "ready s"
  from read_line_ready [OF this, of "[]"]
  show "\<exists>s'. base_read_line getc s = Some (Inr (first_line (pending s)), s') \<and> ready s'
    \<and> pending s' = drop (length (first_line (pending s))) (pending s)" by (simp add: base_read_line_def)
qed

locale writer =
  fixes wr :: "string \<Rightarrow> 's \<Rightarrow> nat res \<times> 's" and written :: "'s \<Rightarrow> string" and ready :: "'s \<Rightarrow> bool"
  assumes wr_ready: "ready s \<Longrightarrow> \<exists>n s'. wr d s = (Inr n, s') \<and> ready s' \<and> n \<le> length d
    \<and> written s' = written s @ take n d \<and> (d \<noteq> [] \<longrightarrow> 0 < n)"
begin

lemma writes_loop_ready:
  "ready s \<Longrightarrow> ofs \<le> length str \<Longrightarrow> \<exists>s'. writes_loop wr str ofs s = Some (Inr (length str), s') \<and> ready s'
     \<and> written s' = written s @ drop ofs str"
proof (induction "length str - ofs" arbitrary: s ofs rule: less_induct)
  case less
  obtain n s' where n: "wr (drop ofs str) s = (Inr n, s')" "ready s'" "n \<le> length (drop ofs str)"
    "written s' = written s @ take n (drop ofs str)" "drop ofs str \<noteq> [] \<longrightarrow> 0 < n"
    using wr_ready [OF less.prems(1), of "drop ofs str"] by auto
  show ?case
  proof (cases "ofs + n < length str")
    case True
    then have "length str - (ofs + n) < length str - ofs" using n(5) by simp
    moreover have "take n (drop ofs str) @ drop (ofs + n) str = drop ofs str"
      by (metis add.commute append_take_drop_id drop_drop)
    ultimately show ?thesis using less.hyps [OF _ n(2), of "ofs + n"] True n(4)
      by (subst writes_loop.simps) (auto simp: n(1))
  next
    case False
    then have "ofs + n = length str" "take n (drop ofs str) = drop ofs str" using n(3) less.prems(2) by simp_all
    with n False show ?thesis by (subst writes_loop.simps) simp
  qed
qed

end

end
