(* ===== verification/Cstdio.thy ===== *)
theory Cstdio
  imports Io_Base Path_Name
begin

text \<open>
  Class \<open>Cstdio\<close> of \<open>stdio.cpp\<close> over C streams. The stream functions of the C library are written out
  here: a stream holds the bytes not yet read, the bytes written, the end-of-file flag, and for each
  of the coming calls whether it fails, after how many bytes, and with which error number.
\<close>

section \<open>C streams\<close>

record cfile =
  rest :: string
  sent :: string
  at_eof :: bool
  hiccups :: "(nat \<times> int) option list"

definition next_hiccup :: "cfile \<Rightarrow> (nat \<times> int) option \<times> cfile" where
  "next_hiccup f = (case hiccups f of [] \<Rightarrow> (None, f) | h # hs \<Rightarrow> (h, f\<lparr>hiccups := hs\<rparr>))"

text \<open>Each function gives its result and the value of \<open>errno\<close>, which the caller has set to 0.\<close>

definition c_fread :: "nat \<Rightarrow> cfile \<Rightarrow> string \<times> int \<times> cfile" where
  "c_fread n f = (case next_hiccup f of
      (None, g) \<Rightarrow> (take n (rest g), 0, g\<lparr>rest := drop n (rest g), at_eof := (at_eof g \<or> length (rest g) < n)\<rparr>)
    | (Some (k, e), g) \<Rightarrow> (take (min k n) (rest g), e, g\<lparr>rest := drop (min k n) (rest g)\<rparr>))"

definition c_fwrite :: "string \<Rightarrow> cfile \<Rightarrow> nat \<times> int \<times> cfile" where
  "c_fwrite d f = (case next_hiccup f of
      (None, g) \<Rightarrow> (length d, 0, g\<lparr>sent := sent g @ d\<rparr>)
    | (Some (k, e), g) \<Rightarrow> (min k (length d), e, g\<lparr>sent := sent g @ take k d\<rparr>))"

definition c_fgetc :: "cfile \<Rightarrow> char option \<times> int \<times> cfile" where
  "c_fgetc f = (case c_fread 1 f of (d, e, g) \<Rightarrow> (case d of [] \<Rightarrow> None | c # _ \<Rightarrow> Some c, e, g))"

definition c_fputc :: "char \<Rightarrow> cfile \<Rightarrow> int \<times> cfile" where
  "c_fputc c f = (case c_fwrite [c] f of (n, e, g) \<Rightarrow> (e, g))"

definition c_ungetc :: "char \<Rightarrow> cfile \<Rightarrow> int \<times> cfile" where
  "c_ungetc c f = (case next_hiccup f of
      (None, g) \<Rightarrow> (0, g\<lparr>rest := c # rest g, at_eof := False\<rparr>)
    | (Some (k, e), g) \<Rightarrow> (e, g))"

text \<open>\<open>fgets(buf, n)\<close>: the bytes placed in front of the terminating zero, \<^const>\<open>None\<close> for a null result.\<close>

definition upto_lf :: "string \<Rightarrow> string" where
  "upto_lf s = (let l = takeWhile (\<lambda>c. c \<noteq> CHR 0x0A) s in if length l < length s then l @ [CHR 0x0A] else l)"

definition c_fgets :: "nat \<Rightarrow> cfile \<Rightarrow> string option \<times> int \<times> cfile" where
  "c_fgets n f = (case next_hiccup f of
      (None, g) \<Rightarrow>
        let d = take (n - 1) (upto_lf (rest g)); ended = (length d < n - 1 \<and> CHR 0x0A \<notin> set d)
        in (if d = [] then None else Some d, 0, g\<lparr>rest := drop (length d) (rest g), at_eof := (at_eof g \<or> ended)\<rparr>)
    | (Some (k, e), g) \<Rightarrow> (None, e, g\<lparr>rest := drop (min k (n - 1)) (rest g)\<rparr>))"

section \<open>Functions of Cstdio\<close>

definition small_block :: nat where "small_block = 256"

text \<open>\<open>IoError(err)\<close>; the error number 0 stands for \<open>errc::io_error\<close>, which is \<open>EIO\<close>.\<close>

definition EIO :: int where "EIO = 5"

definition io_error :: "int \<Rightarrow> exn" where
  "io_error err = (if err = 0 then System_error EIO else System_error err)"

definition check_for_error :: "int \<Rightarrow> 'a \<Rightarrow> 'a res" where
  "check_for_error err x = (if err \<noteq> 0 then Inl (io_error err) else Inr x)"

definition cstdio_getc :: "cfile \<Rightarrow> char option res \<times> cfile" where
  "cstdio_getc f = (case c_fgetc f of (c, e, g) \<Rightarrow> (check_for_error e c, g))"

definition cstdio_putc :: "char \<Rightarrow> cfile \<Rightarrow> unit res \<times> cfile" where
  "cstdio_putc c f = (case c_fputc c f of (e, g) \<Rightarrow> (check_for_error e (), g))"

definition cstdio_read :: "nat \<Rightarrow> cfile \<Rightarrow> string res \<times> cfile" where
  "cstdio_read maxlen f = (case c_fread maxlen f of (d, e, g) \<Rightarrow> (check_for_error e d, g))"

definition cstdio_write :: "string \<Rightarrow> cfile \<Rightarrow> nat res \<times> cfile" where
  "cstdio_write d f = (case c_fwrite d f of (n, e, g) \<Rightarrow> (check_for_error e n, g))"

definition cstdio_ungetc :: "char \<Rightarrow> cfile \<Rightarrow> unit res \<times> cfile" where
  "cstdio_ungetc c f = (case c_ungetc c f of (e, g) \<Rightarrow> (check_for_error e (), g))"

text \<open>\<open>find_last_not_of('\0') + 1\<close>\<close>

definition text_end :: "string \<Rightarrow> nat" where
  "text_end buf = (case find_last (\<lambda>c. c \<noteq> CHR 0x00) buf of None \<Rightarrow> 0 | Some k \<Rightarrow> k + 1)"

text \<open>The loop of \<open>read_line\<close>: \<open>buf\<close> is resized by \<open>small_block\<close> zeros, and \<open>fgets\<close> overwrites the first of them.\<close>

function cstdio_read_line_loop :: "string \<Rightarrow> cfile \<Rightarrow> string res \<times> cfile" where
  "cstdio_read_line_loop buf f =
     (let ofs = length buf
      in case c_fgets small_block f of (rc, e, g) \<Rightarrow>
        if e \<noteq> 0 then (Inl (io_error e), g)
        else case rc of
            None \<Rightarrow> (Inr buf, g)
          | Some d \<Rightarrow>
              let new = buf @ d @ replicate (small_block - length d) (CHR 0x00)
              in (case find_from ((=) (CHR 0x0A)) new ofs of
                    Some lfpos \<Rightarrow> (Inr (substr new 0 (lfpos + 1)), g)
                  | None \<Rightarrow>
                      if text_end new < small_block - 1 then (Inr (substr new 0 (text_end new)), g)
                      else cstdio_read_line_loop (butlast new) g))"
  by auto

lemma c_fgets_shorter:
  assumes "c_fgets n f = (Some d, e, g)"
  shows "length (rest g) < length (rest f)" and "length d \<le> n - 1" and "e = 0"
proof -
  have "\<exists>h g0. next_hiccup f = (h, g0) \<and> rest g0 = rest f" by (auto simp: next_hiccup_def split: list.splits)
  then obtain h g0 where n: "next_hiccup f = (h, g0)" "rest g0 = rest f" by blast
  then have h: "h = None" using assms by (auto simp: c_fgets_def split: option.splits)
  then have d: "d = take (n - 1) (upto_lf (rest f))" "d \<noteq> []" "rest g = drop (length d) (rest f)" "e = 0"
    using assms n by (auto simp: c_fgets_def Let_def split: if_splits)
  then show "length d \<le> n - 1" "e = 0" by simp_all
  have "rest f \<noteq> []" using d(1,2) by (auto simp: upto_lf_def)
  with d(2,3) show "length (rest g) < length (rest f)" by simp
qed

termination cstdio_read_line_loop
proof (relation "measure (\<lambda>(buf, f). length (rest f))")
  fix buf new :: string and f g :: cfile and rc q e d
  assume "(rc, q) = c_fgets small_block f" "(e, g) = q" "rc = Some d"
  then have "c_fgets small_block f = (Some d, e, g)" by simp
  from c_fgets_shorter(1) [OF this] show "((butlast new, g), buf, f) \<in> measure (\<lambda>(buf, f). length (rest f))" by simp
qed simp

declare cstdio_read_line_loop.simps [simp del]

definition cstdio_read_line :: "cfile \<Rightarrow> string res \<times> cfile" where
  "cstdio_read_line f = cstdio_read_line_loop [] f"

end
