(* ===== verification/Path_Files.thy ===== *)
theory Path_Files
  imports Cstdio Time_Conv
begin

text \<open>
  The functions of class \<open>Path\<close> that ask or change the file system (\<open>path.cpp\<close>), in the POSIX branch.
  The operating system is a record of calls, an argument of every definition: each gives its result
  and error number (0 for success) and, where it may change it, the new state of the world. A
  directory stream delivers the entries that were there when it was opened. A function that calls
  itself for the entries of a directory takes the depth of calls as its first argument and is
  \<^const>\<open>None\<close> when that is used up.
\<close>

section \<open>The operating system\<close>

datatype file_kind = Kind_zero | Kind_directory | Kind_regular | Kind_symlink | Kind_other

record stat_buf =
  st_kind :: file_kind
  st_size :: "64 word"
  st_dev :: "64 word"
  st_ino :: "64 word"
  st_atim :: timespec
  st_mtim :: timespec
  st_ctim :: timespec

record passwd =
  pw_name :: "string option"
  pw_dir :: "string option"

record 'w posix =
  sys_stat :: "string \<Rightarrow> 'w \<Rightarrow> stat_buf option"
  sys_lstat :: "string \<Rightarrow> 'w \<Rightarrow> stat_buf option"
  sys_getcwd :: "nat \<Rightarrow> 'w \<Rightarrow> int + string"
  sys_readlink :: "string \<Rightarrow> nat \<Rightarrow> 'w \<Rightarrow> int + string"
  sys_getenv :: "string \<Rightarrow> 'w \<Rightarrow> string option"
  sys_getpw :: "string \<Rightarrow> nat \<Rightarrow> 'w \<Rightarrow> int \<times> passwd option"
  sys_listdir :: "string \<Rightarrow> 'w \<Rightarrow> string list option"
  sys_mkdir :: "string \<Rightarrow> 'w \<Rightarrow> int \<times> 'w"
  sys_symlink :: "string \<Rightarrow> string \<Rightarrow> 'w \<Rightarrow> int \<times> 'w"
  sys_rename :: "string \<Rightarrow> string \<Rightarrow> 'w \<Rightarrow> int \<times> 'w"
  sys_remove :: "string \<Rightarrow> 'w \<Rightarrow> int \<times> 'w"
  sys_chdir :: "string \<Rightarrow> 'w \<Rightarrow> int \<times> 'w"
  sys_utimens :: "string \<Rightarrow> timespec \<times> timespec \<Rightarrow> bool \<Rightarrow> 'w \<Rightarrow> int \<times> 'w"
  sys_fopen :: "string \<Rightarrow> string \<Rightarrow> 'w \<Rightarrow> (cfile option \<times> int) \<times> 'w"
  sys_fclose :: "string \<Rightarrow> cfile \<Rightarrow> 'w \<Rightarrow> 'w"
  std_in :: "'w \<Rightarrow> cfile"
  set_std_in :: "cfile \<Rightarrow> 'w \<Rightarrow> 'w"
  std_out :: "'w \<Rightarrow> cfile"
  set_std_out :: "cfile \<Rightarrow> 'w \<Rightarrow> 'w"

definition ENOENT :: int where "ENOENT = 2"
definition EEXIST :: int where "EEXIST = 17"
definition EXDEV :: int where "EXDEV = 18"
definition ENOTDIR :: int where "ENOTDIR = 20"
definition EISDIR :: int where "EISDIR = 21"
definition EINVAL :: int where "EINVAL = 22"
definition ERANGE :: int where "ERANGE = 34"
definition EOPNOTSUPP :: int where "EOPNOTSUPP = 95"

datatype pflag = F_append | F_bottom_up | F_legal_name | F_may_copy | F_may_fail | F_no_follow
  | F_no_hidden | F_overwrite | F_recurse | F_stdio | F_unicode

section \<open>Queries\<close>

definition zero_stat :: stat_buf where
  "zero_stat = \<lparr>st_kind = Kind_zero, st_size = 0, st_dev = 0, st_ino = 0,
     st_atim = \<lparr>tv_sec = 0, tv_nsec = 0\<rparr>, st_mtim = \<lparr>tv_sec = 0, tv_nsec = 0\<rparr>, st_ctim = \<lparr>tv_sec = 0, tv_nsec = 0\<rparr>\<rparr>"

definition get_stat :: "'w posix \<Rightarrow> string \<Rightarrow> pflag set \<Rightarrow> 'w \<Rightarrow> stat_buf \<times> bool" where
  "get_stat os file flags w =
     (case (if F_no_follow \<in> flags then sys_lstat os else sys_stat os) file w of
        Some st \<Rightarrow> (st, True) | None \<Rightarrow> (zero_stat, False))"

text \<open>Times are numbers of ticks of \<open>tick\<close> nanoseconds since 1970.\<close>

definition access_time :: "'w posix \<Rightarrow> int \<Rightarrow> pflag set \<Rightarrow> path \<Rightarrow> 'w \<Rightarrow> int" where
  "access_time os tick flags p w = timespec_to_timepoint tick (st_atim (fst (get_stat os (filename p) flags w)))"

definition create_time :: "pflag set \<Rightarrow> path \<Rightarrow> 'w \<Rightarrow> int" where
  "create_time flags p w = 0"

definition modify_time :: "'w posix \<Rightarrow> int \<Rightarrow> pflag set \<Rightarrow> path \<Rightarrow> 'w \<Rightarrow> int" where
  "modify_time os tick flags p w = timespec_to_timepoint tick (st_mtim (fst (get_stat os (filename p) flags w)))"

definition status_time :: "'w posix \<Rightarrow> int \<Rightarrow> pflag set \<Rightarrow> path \<Rightarrow> 'w \<Rightarrow> int" where
  "status_time os tick flags p w = timespec_to_timepoint tick (st_ctim (fst (get_stat os (filename p) flags w)))"

definition p_exists :: "'w posix \<Rightarrow> pflag set \<Rightarrow> path \<Rightarrow> 'w \<Rightarrow> bool" where
  "p_exists os flags p w =
     (if F_no_follow \<in> flags then sys_lstat os (filename p) w \<noteq> None else sys_stat os (filename p) w \<noteq> None)"

definition p_id :: "'w posix \<Rightarrow> pflag set \<Rightarrow> path \<Rightarrow> 'w \<Rightarrow> 64 word \<times> 64 word" where
  "p_id os flags p w = (let st = fst (get_stat os (filename p) flags w) in (st_dev st, st_ino st))"

definition is_directory :: "'w posix \<Rightarrow> pflag set \<Rightarrow> path \<Rightarrow> 'w \<Rightarrow> bool" where
  "is_directory os flags p w = (st_kind (fst (get_stat os (filename p) flags w)) = Kind_directory)"

definition is_file :: "'w posix \<Rightarrow> pflag set \<Rightarrow> path \<Rightarrow> 'w \<Rightarrow> bool" where
  "is_file os flags p w = (st_kind (fst (get_stat os (filename p) flags w)) = Kind_regular)"

definition is_special :: "'w posix \<Rightarrow> pflag set \<Rightarrow> path \<Rightarrow> 'w \<Rightarrow> bool" where
  "is_special os flags p w = (case get_stat os (filename p) flags w of
      (st, ok) \<Rightarrow> ok \<and> st_kind st \<noteq> Kind_directory \<and> st_kind st \<noteq> Kind_regular)"

definition is_symlink :: "'w posix \<Rightarrow> path \<Rightarrow> 'w \<Rightarrow> bool" where
  "is_symlink os p w = (st_kind (fst (get_stat os (filename p) {F_no_follow} w)) = Kind_symlink)"

text \<open>A loop that doubles its buffer until the call succeeds.\<close>

partial_function (option) getcwd_loop :: "'w posix \<Rightarrow> bool \<Rightarrow> nat \<Rightarrow> 'w \<Rightarrow> path res option" where
  "getcwd_loop os checked n w = (case sys_getcwd os n w of
      Inr s \<Rightarrow> Some (Inr (mk_path s))
    | Inl e \<Rightarrow> if e = ERANGE then getcwd_loop os checked (2 * n) w
               else if checked then Some (Inl (System_error e)) else Some (Inr path_empty))"

definition get_current_directory :: "'w posix \<Rightarrow> bool \<Rightarrow> 'w \<Rightarrow> path res option" where
  "get_current_directory os checked w = getcwd_loop os checked 256 w"

definition current_directory :: "'w posix \<Rightarrow> 'w \<Rightarrow> path res option" where
  "current_directory os w = get_current_directory os True w"

partial_function (option) getpw_loop :: "'w posix \<Rightarrow> string \<Rightarrow> nat \<Rightarrow> 'w \<Rightarrow> passwd option option" where
  "getpw_loop os user n w = (case sys_getpw os user n w of
      (rc, pw) \<Rightarrow> if rc \<noteq> ERANGE then Some pw else getpw_loop os user (2 * n) w)"

definition nonempty :: "string option \<Rightarrow> string option" where
  "nonempty s = (case s of Some (c # cs) \<Rightarrow> Some (c # cs) | _ \<Rightarrow> None)"

definition get_user_home :: "'w posix \<Rightarrow> string \<Rightarrow> 'w \<Rightarrow> path res option" where
  "get_user_home os user w =
     (case (if user = [] then nonempty (sys_getenv os ''HOME'' w) else None) of
        Some home \<Rightarrow> Some (Inr (mk_path home))
      | None \<Rightarrow>
          (case getpw_loop os user 1024 w of
             None \<Rightarrow> None
           | Some pw \<Rightarrow>
               (case Option.bind pw (\<lambda>p. nonempty (pw_dir p)) of
                  Some dir \<Rightarrow> Some (Inr (mk_path dir))
                | None \<Rightarrow>
                    (case (if user \<noteq> [] then Some user
                           else case nonempty (sys_getenv os ''USER'' w) of
                                  Some u \<Rightarrow> Some u
                                | None \<Rightarrow> Option.bind pw (\<lambda>p. nonempty (pw_name p))) of
                       None \<Rightarrow> Some (Inl (System_error ENOENT))
                     | Some u \<Rightarrow> Some (Inr (join (mk_path ''/home'') (mk_path u)))))))"

text \<open>\<open>resolve\<close>: \<open>opt_bind\<close> passes a call that does not return and an exception on.\<close>

definition opt_bind :: "'a res option \<Rightarrow> ('a \<Rightarrow> 'b res option) \<Rightarrow> 'b res option" where
  "opt_bind r f = (case r of None \<Rightarrow> None | Some (Inl e) \<Rightarrow> Some (Inl e) | Some (Inr x) \<Rightarrow> f x)"

definition resolve_home :: "'w posix \<Rightarrow> path \<Rightarrow> 'w \<Rightarrow> path res option" where
  "resolve_home os p w =
     (if filename p ! 0 = CHR 0x7E
      then let pos = find_from ((=) CHR ''/'') (filename p) 0;
               user = (case pos of None \<Rightarrow> drop 1 (filename p) | Some k \<Rightarrow> substr (filename p) 1 (k - 1));
               tail = (case pos of None \<Rightarrow> [] | Some k \<Rightarrow> drop (k + 1) (filename p))
           in opt_bind (get_user_home os user w)
                (\<lambda>home. Some (Inr (if \<not> p_empty home then join home (mk_path tail) else path_empty)))
      else Some (Inr path_empty))"

definition resolve :: "'w posix \<Rightarrow> path \<Rightarrow> 'w \<Rightarrow> path res option" where
  "resolve os p w =
     opt_bind
       (if p_empty p then get_current_directory os False w
        else opt_bind (resolve_home os p w)
          (\<lambda>result. if p_empty result \<and> is_relative p
             then opt_bind (get_current_directory os False w)
                    (\<lambda>cwd. Some (Inr (if \<not> p_empty cwd then join cwd p else result)))
             else Some (Inr result)))
       (\<lambda>result. let result = (if p_empty result then p else result)
          in Some (if \<not> is_absolute result then Inl (System_error ENOENT) else Inr result))"

partial_function (option) readlink_loop :: "'w posix \<Rightarrow> path \<Rightarrow> nat \<Rightarrow> 'w \<Rightarrow> path res option" where
  "readlink_loop os p n w = (case sys_readlink os (filename p) n w of
      Inl err \<Rightarrow> if err = EINVAL \<or> err = ENOENT \<or> err = ENOTDIR then Some (Inr p) else Some (Inl (System_error err))
    | Inr s \<Rightarrow> if length s \<le> n - 2 then Some (Inr (mk_path s)) else readlink_loop os p (2 * n) w)"

definition resolve_symlink :: "'w posix \<Rightarrow> path \<Rightarrow> 'w \<Rightarrow> path res option" where
  "resolve_symlink os p w = readlink_loop os p 256 w"

section \<open>Directory iterators\<close>

text \<open>\<open>directory_iterator\<close>: \<^const>\<open>None\<close> is an iterator without \<open>impl_\<close>, which is the end; \<open>valid_utf\<close> is
  \<open>Format::is_valid_utf\<close>. The entries still to come stand for the state of the directory stream.\<close>

record dir_state =
  ds_current :: path
  ds_prefix :: path
  ds_flags :: "pflag set"
  ds_stream :: "string list"

type_synonym dir_iter = "dir_state option"

fun dir_advance :: "(string \<Rightarrow> bool) \<Rightarrow> path \<Rightarrow> pflag set \<Rightarrow> string list \<Rightarrow> dir_iter" where
  "dir_advance valid_utf prefix flags [] = None"
| "dir_advance valid_utf prefix flags (leaf # names) =
     (if leaf \<noteq> ''.'' \<and> leaf \<noteq> ''..'' \<and> (F_unicode \<notin> flags \<or> valid_utf leaf)
      then let current = join prefix (mk_path leaf)
           in if F_no_hidden \<notin> flags \<or> \<not> is_hidden current
              then Some \<lparr>ds_current = current, ds_prefix = prefix, ds_flags = flags, ds_stream = names\<rparr>
              else dir_advance valid_utf prefix flags names
      else dir_advance valid_utf prefix flags names)"

definition dir_incr :: "(string \<Rightarrow> bool) \<Rightarrow> dir_iter \<Rightarrow> dir_iter" where
  "dir_incr valid_utf it = (case it of
      None \<Rightarrow> None | Some d \<Rightarrow> dir_advance valid_utf (ds_prefix d) (ds_flags d) (ds_stream d))"

definition dir_begin :: "'w posix \<Rightarrow> (string \<Rightarrow> bool) \<Rightarrow> path \<Rightarrow> pflag set \<Rightarrow> 'w \<Rightarrow> dir_iter" where
  "dir_begin os valid_utf dir flags w =
     (if F_unicode \<in> flags \<and> \<not> valid_utf (filename dir) then None
      else case sys_listdir os (if p_empty dir then ''.'' else filename dir) w of
          None \<Rightarrow> None
        | Some names \<Rightarrow> dir_advance valid_utf dir flags names)"

text \<open>\<open>directory(flags)\<close> gives the range from the iterator to the end; \<open>dir_paths\<close> is what a loop over it sees.\<close>

definition directory :: "'w posix \<Rightarrow> (string \<Rightarrow> bool) \<Rightarrow> path \<Rightarrow> pflag set \<Rightarrow> 'w \<Rightarrow> dir_iter" where
  "directory os valid_utf p flags w = dir_begin os valid_utf p flags w"

lemma dir_advance_shorter:
  "dir_advance valid_utf prefix flags names = Some d \<Longrightarrow>
     length (ds_stream d) < length names \<and> ds_prefix d = prefix \<and> ds_flags d = flags"
  by (induction names) (auto simp: Let_def split: if_splits)

function dir_paths :: "(string \<Rightarrow> bool) \<Rightarrow> dir_iter \<Rightarrow> path list" where
  "dir_paths valid_utf None = []"
| "dir_paths valid_utf (Some d) = ds_current d # dir_paths valid_utf (dir_incr valid_utf (Some d))"
  by pat_completeness auto

termination
proof (relation "measure (\<lambda>(u, it). case it of None \<Rightarrow> 0 | Some d \<Rightarrow> Suc (length (ds_stream d)))")
  fix valid_utf d
  show "((valid_utf, dir_incr valid_utf (Some d)), valid_utf, Some d)
    \<in> measure (\<lambda>(u, it). case it of None \<Rightarrow> 0 | Some d \<Rightarrow> Suc (length (ds_stream d)))"
  proof (cases "dir_incr valid_utf (Some d)")
    case (Some e)
    then have "length (ds_stream e) < length (ds_stream d)"
      using dir_advance_shorter [of valid_utf "ds_prefix d" "ds_flags d" "ds_stream d" e] by (simp add: dir_incr_def)
    with Some show ?thesis by simp
  qed simp
qed simp

section \<open>Sizes, removal and directories\<close>

text \<open>\<open>size\<close> with the flag \<open>recurse\<close>.\<close>

fun p_size :: "nat \<Rightarrow> 'w posix \<Rightarrow> (string \<Rightarrow> bool) \<Rightarrow> pflag set \<Rightarrow> path \<Rightarrow> 'w \<Rightarrow> 64 word option" where
  "p_size 0 os valid_utf flags p w = None"
| "p_size (Suc depth) os valid_utf flags p w =
     (let bytes = st_size (fst (get_stat os (filename p) flags w))
      in if F_recurse \<in> flags
         then foldl (\<lambda>acc child. case acc of None \<Rightarrow> None
                | Some b \<Rightarrow> map_option ((+) b) (p_size depth os valid_utf {F_no_follow, F_recurse} child w))
              (Some bytes) (dir_paths valid_utf (directory os valid_utf p {} w))
         else Some bytes)"

text \<open>Running an operation that may throw on a list of names; the world goes from one to the next.\<close>

fun each_path :: "(path \<Rightarrow> 'w \<Rightarrow> (unit res \<times> 'w) option) \<Rightarrow> path list \<Rightarrow> 'w \<Rightarrow> (unit res \<times> 'w) option" where
  "each_path f [] w = Some (Inr (), w)"
| "each_path f (p # ps) w = (case f p w of
      None \<Rightarrow> None
    | Some (Inl e, w') \<Rightarrow> Some (Inl e, w')
    | Some (Inr u, w') \<Rightarrow> each_path f ps w')"

definition then_do :: "(unit res \<times> 'w) option \<Rightarrow> ('w \<Rightarrow> (unit res \<times> 'w) option) \<Rightarrow> (unit res \<times> 'w) option" where
  "then_do r f = (case r of None \<Rightarrow> None | Some (Inl e, w) \<Rightarrow> Some (Inl e, w) | Some (Inr u, w) \<Rightarrow> f w)"

fun p_remove :: "nat \<Rightarrow> 'w posix \<Rightarrow> (string \<Rightarrow> bool) \<Rightarrow> pflag set \<Rightarrow> path \<Rightarrow> 'w \<Rightarrow> (unit res \<times> 'w) option" where
  "p_remove 0 os valid_utf flags p w = None"
| "p_remove (Suc depth) os valid_utf flags p w =
     then_do
       (if F_recurse \<in> flags \<and> is_directory os {} p w \<and> \<not> is_symlink os p w
        then each_path (p_remove depth os valid_utf {F_recurse}) (dir_paths valid_utf (directory os valid_utf p {} w)) w
        else Some (Inr (), w))
       (\<lambda>w. case sys_remove os (filename p) w of
          (err, w') \<Rightarrow> Some (if err \<noteq> 0 \<and> err \<noteq> ENOENT then (Inl (System_error err), w') else (Inr (), w')))"

text \<open>\<open>make_directory\<close>: each call on the parent gets a shorter name.\<close>

fun make_directory :: "nat \<Rightarrow> 'w posix \<Rightarrow> (string \<Rightarrow> bool) \<Rightarrow> pflag set \<Rightarrow> path \<Rightarrow> 'w \<Rightarrow> (unit res \<times> 'w) option" where
  "make_directory 0 os valid_utf flags p w = None"
| "make_directory (Suc depth) os valid_utf flags p w =
     (case sys_mkdir os (filename p) w of
        (err, w1) \<Rightarrow>
          if err = 0 then Some (Inr (), w1)
          else if err = EEXIST \<and> is_directory os {} p w1 then Some (Inr (), w1)
          else
            then_do
              (if err = EEXIST
               then (if F_overwrite \<notin> flags then Some (Inl (System_error err), w1)
                     else p_remove 1 os valid_utf {} p w1)
               else if err = ENOENT \<and> F_recurse \<in> flags \<and> \<not> p_empty p
               then (let parent = fst (split_path p)
                     in if path_eq parent p then Some (Inl (System_error err), w1)
                        else make_directory depth os valid_utf flags parent w1)
               else Some (Inr (), w1))
              (\<lambda>w2. case sys_mkdir os (filename p) w2 of
                 (err, w3) \<Rightarrow> Some (if err \<noteq> 0 then (Inl (System_error err), w3) else (Inr (), w3))))"

section \<open>Files\<close>

definition io_block :: nat where "io_block = 16384"

text \<open>The copying loop of \<open>copy_to\<close>.\<close>

partial_function (option) copy_loop :: "cfile \<Rightarrow> cfile \<Rightarrow> (unit res \<times> cfile \<times> cfile) option" where
  "copy_loop src dst =
     (if at_eof src then Some (Inr (), src, dst)
      else case c_fread io_block src of
        (d, err, src') \<Rightarrow>
          if err \<noteq> 0 then Some (Inl (System_error err), src', dst)
          else if d \<noteq> []
          then (case c_fwrite d dst of
                  (n, err, dst') \<Rightarrow> if err \<noteq> 0 then Some (Inl (System_error err), src', dst') else copy_loop src' dst')
          else copy_loop src' dst)"

text \<open>The loop of \<open>load\<close>; \<open>None\<close> is \<open>npos\<close>.\<close>

function load_loop :: "nat option \<Rightarrow> string \<Rightarrow> cfile \<Rightarrow> string \<times> cfile" where
  "load_loop maxlen str f =
     (if (case maxlen of None \<Rightarrow> True | Some m \<Rightarrow> length str < m)
      then let n = (case maxlen of None \<Rightarrow> io_block | Some m \<Rightarrow> min (m - length str) io_block)
           in case c_fread n f of
             (d, err, f') \<Rightarrow> if length d < n then (str @ d, f') else load_loop maxlen (str @ d) f'
      else (str, f))"
  by pat_completeness auto

lemma c_fread_rest:
  assumes "c_fread n f = (d, e, g)"
  shows "rest f = d @ rest g" and "length d \<le> n"
proof -
  have "\<exists>h g0. next_hiccup f = (h, g0) \<and> rest g0 = rest f" by (auto simp: next_hiccup_def split: list.splits)
  then obtain h g0 where n: "next_hiccup f = (h, g0)" "rest g0 = rest f" by blast
  then show "rest f = d @ rest g" "length d \<le> n" using assms by (auto simp: c_fread_def split: option.splits)
qed

termination load_loop
proof (relation "measure (\<lambda>(m, str, f). length (rest f))")
  fix maxlen and str d :: string and f f' n q err
  assume m: "case maxlen of None \<Rightarrow> True | Some m \<Rightarrow> length str < m"
    and n: "n = (case maxlen of None \<Rightarrow> io_block | Some m \<Rightarrow> min (m - length str) io_block)"
    and c: "(d, q) = c_fread n f" "(err, f') = q" and full: "\<not> length d < n"
  have "0 < n" using m n by (auto simp: io_block_def split: option.splits)
  then show "((maxlen, str @ d, f'), maxlen, str, f) \<in> measure (\<lambda>(m, str, f). length (rest f))"
    using c_fread_rest [of n f d err f'] c full by auto
qed simp

declare load_loop.simps [simp del]

definition p_load :: "'w posix \<Rightarrow> nat option \<Rightarrow> pflag set \<Rightarrow> path \<Rightarrow> 'w \<Rightarrow> string res \<times> 'w" where
  "p_load os maxlen flags p w =
     (if F_stdio \<in> flags \<and> (filename p = [] \<or> filename p = ''-'')
      then (case load_loop maxlen [] (std_in os w) of (s, f) \<Rightarrow> (Inr s, set_std_in os f w))
      else case sys_fopen os (filename p) ''rb'' w of
          ((None, err), w') \<Rightarrow> (if F_may_fail \<notin> flags then Inl (System_error EIO) else Inr [], w')
        | ((Some f, err), w') \<Rightarrow> (case load_loop maxlen [] f of (s, f') \<Rightarrow> (Inr s, sys_fclose os (filename p) f' w')))"

text \<open>The loop of \<open>save\<close>, which goes on after a short write without an error.\<close>

partial_function (option) save_loop :: "string \<Rightarrow> nat \<Rightarrow> cfile \<Rightarrow> (unit res \<times> cfile) option" where
  "save_loop str pos f =
     (if pos < length str
      then (case c_fwrite (drop pos str) f of
              (n, err, f') \<Rightarrow> if err \<noteq> 0 then Some (Inl (System_error EIO), f') else save_loop str (pos + n) f')
      else Some (Inr (), f))"

definition p_save :: "'w posix \<Rightarrow> pflag set \<Rightarrow> path \<Rightarrow> string \<Rightarrow> 'w \<Rightarrow> (unit res \<times> 'w) option" where
  "p_save os flags p str w =
     (if F_append \<in> flags \<and> F_overwrite \<in> flags
      then Some (Inl (Invalid_argument ''Invalid options to Path::save()''), w)
      else if F_stdio \<in> flags \<and> (filename p = [] \<or> filename p = ''-'')
      then map_option (\<lambda>(r, f). (r, set_std_out os f w)) (save_loop str 0 (std_out os w))
      else if F_append \<notin> flags \<and> F_overwrite \<notin> flags \<and> p_exists os {} p w
      then Some (Inl (System_error EEXIST), w)
      else case sys_fopen os (filename p) (if F_append \<in> flags then ''ab'' else ''wb'') w of
          ((None, err), w') \<Rightarrow> Some (Inl (System_error EIO), w')
        | ((Some f, err), w') \<Rightarrow>
            map_option (\<lambda>(r, f'). (r, sys_fclose os (filename p) f' w')) (save_loop str 0 f))"

definition p_create :: "'w posix \<Rightarrow> path \<Rightarrow> 'w \<Rightarrow> (unit res \<times> 'w) option" where
  "p_create os p w = (if \<not> p_exists os {} p w then p_save os {} p [] w else Some (Inr (), w))"

definition change_directory :: "'w posix \<Rightarrow> path \<Rightarrow> 'w \<Rightarrow> unit res \<times> 'w" where
  "change_directory os p w = (case sys_chdir os (filename p) w of
      (err, w') \<Rightarrow> (if err \<noteq> 0 then Inl (System_error err) else Inr (), w'))"

definition set_file_times :: "'w posix \<Rightarrow> int \<Rightarrow> int \<Rightarrow> int \<Rightarrow> pflag set \<Rightarrow> path \<Rightarrow> 'w \<Rightarrow> unit res \<times> 'w" where
  "set_file_times os tick atime mtime flags p w =
     (case sys_utimens os (filename p) (timepoint_to_timespec tick atime, timepoint_to_timespec tick mtime)
             (F_no_follow \<in> flags) w of
        (err, w') \<Rightarrow> (if err \<noteq> 0 then Inl (System_error err) else Inr (), w'))"

definition set_access_time :: "'w posix \<Rightarrow> int \<Rightarrow> int \<Rightarrow> pflag set \<Rightarrow> path \<Rightarrow> 'w \<Rightarrow> unit res \<times> 'w" where
  "set_access_time os tick t flags p w = set_file_times os tick t (modify_time os tick {} p w) flags p w"

definition set_modify_time :: "'w posix \<Rightarrow> int \<Rightarrow> int \<Rightarrow> pflag set \<Rightarrow> path \<Rightarrow> 'w \<Rightarrow> unit res \<times> 'w" where
  "set_modify_time os tick t flags p w = set_file_times os tick (access_time os tick {} p w) t flags p w"

definition set_create_time :: "int \<Rightarrow> pflag set \<Rightarrow> path \<Rightarrow> 'w \<Rightarrow> unit res \<times> 'w" where
  "set_create_time t flags p w = (Inl (System_error EOPNOTSUPP), w)"

text \<open>Without a time, the time of the call: \<open>now\<close> is the clock.\<close>

definition set_access_time_now :: "'w posix \<Rightarrow> ('w \<Rightarrow> int) \<Rightarrow> int \<Rightarrow> pflag set \<Rightarrow> path \<Rightarrow> 'w \<Rightarrow> unit res \<times> 'w" where
  "set_access_time_now os now tick flags p w = set_access_time os tick (now w) flags p w"

definition set_modify_time_now :: "'w posix \<Rightarrow> ('w \<Rightarrow> int) \<Rightarrow> int \<Rightarrow> pflag set \<Rightarrow> path \<Rightarrow> 'w \<Rightarrow> unit res \<times> 'w" where
  "set_modify_time_now os now tick flags p w = set_modify_time os tick (now w) flags p w"

definition set_create_time_now :: "('w \<Rightarrow> int) \<Rightarrow> pflag set \<Rightarrow> path \<Rightarrow> 'w \<Rightarrow> unit res \<times> 'w" where
  "set_create_time_now now flags p w = set_create_time (now w) flags p w"

end
