(* ===== verification/Path_Tree.thy ===== *)
theory Path_Tree
  imports Path_Files
begin

text \<open>
  Operations of class \<open>Path\<close> on whole directory trees: links, copies and moves, and the iterator of
  \<open>deep_search\<close>.
\<close>

section \<open>Links, copies, moves\<close>

text \<open>\<open>make_symlink\<close>; \<open>copy\<close> is the call of \<open>copy_to\<close> it makes in the end.\<close>

definition make_symlink_or ::
    "(path \<Rightarrow> path \<Rightarrow> 'w \<Rightarrow> (unit res \<times> 'w) option) \<Rightarrow> nat \<Rightarrow> 'w posix \<Rightarrow> (string \<Rightarrow> bool) \<Rightarrow> pflag set \<Rightarrow> path \<Rightarrow> path \<Rightarrow>
      'w \<Rightarrow> (unit res \<times> 'w) option" where
  "make_symlink_or copy depth os valid_utf flags p linkname w =
     (case (if is_symlink os linkname w
            then (case resolve_symlink os linkname w of
                    None \<Rightarrow> None
                  | Some (Inl e) \<Rightarrow> Some False
                  | Some (Inr q) \<Rightarrow> Some (path_eq q p))
            else Some False) of
        None \<Rightarrow> None
      | Some True \<Rightarrow> Some (Inr (), w)
      | Some False \<Rightarrow>
          then_do
            (if F_overwrite \<in> flags \<and> p_exists os {} linkname w
             then p_remove depth os valid_utf flags linkname w else Some (Inr (), w))
            (\<lambda>w1. case sys_symlink os (filename p) (filename linkname) w1 of
               (err, w2) \<Rightarrow>
                 if err = 0 then Some (Inr (), w2)
                 else if F_may_copy \<notin> flags then Some (Inl (System_error err), w2)
                 else copy p linkname w2))"

definition copy_file :: "'w posix \<Rightarrow> path \<Rightarrow> path \<Rightarrow> 'w \<Rightarrow> (unit res \<times> 'w) option" where
  "copy_file os p dst w =
     (case sys_fopen os (filename p) ''rb'' w of
        ((None, err), w1) \<Rightarrow> Some (Inl (System_error err), w1)
      | ((Some src, err), w1) \<Rightarrow>
          (case sys_fopen os (filename dst) ''wb'' w1 of
             ((None, err), w2) \<Rightarrow> Some (Inl (System_error err), sys_fclose os (filename p) src w2)
           | ((Some out, err), w2) \<Rightarrow>
               map_option (\<lambda>(r, src', out'). (r, sys_fclose os (filename p) src' (sys_fclose os (filename dst) out' w2)))
                 (copy_loop src out)))"

fun copy_to :: "nat \<Rightarrow> 'w posix \<Rightarrow> (string \<Rightarrow> bool) \<Rightarrow> pflag set \<Rightarrow> path \<Rightarrow> path \<Rightarrow> 'w \<Rightarrow> (unit res \<times> 'w) option" where
  "copy_to 0 os valid_utf flags p dst w = None"
| "copy_to (Suc depth) os valid_utf flags p dst w =
     (if \<not> p_exists os {} p w then Some (Inl (System_error ENOENT), w)
      else if path_eq p dst \<or> p_id os {} p w = p_id os {} dst w then Some (Inl (System_error EEXIST), w)
      else if is_directory os {} p w \<and> F_recurse \<notin> flags then Some (Inl (System_error EISDIR), w)
      else then_do
        (if p_exists os {} dst w
         then (if F_overwrite \<notin> flags then Some (Inl (System_error EEXIST), w)
               else p_remove depth os valid_utf {F_recurse} dst w)
         else Some (Inr (), w))
        (\<lambda>w1.
          if is_symlink os p w1
          then (case resolve_symlink os p w1 of
                  None \<Rightarrow> None
                | Some (Inl e) \<Rightarrow> Some (Inl e, w1)
                | Some (Inr target) \<Rightarrow> make_symlink_or (\<lambda>_ _ _. None) depth os valid_utf {} target dst w1)
          else if is_directory os {} p w1
          then then_do (make_directory depth os valid_utf {} dst w1)
                 (\<lambda>w2. each_path (\<lambda>child. copy_to depth os valid_utf {F_recurse} child (join dst (snd (split_path child))))
                    (dir_paths valid_utf (directory os valid_utf p {} w2)) w2)
          else copy_file os p dst w1))"

definition make_symlink ::
    "nat \<Rightarrow> 'w posix \<Rightarrow> (string \<Rightarrow> bool) \<Rightarrow> pflag set \<Rightarrow> path \<Rightarrow> path \<Rightarrow> 'w \<Rightarrow> (unit res \<times> 'w) option" where
  "make_symlink depth os valid_utf flags p linkname w =
     make_symlink_or (copy_to depth os valid_utf {F_recurse}) depth os valid_utf flags p linkname w"

definition move_to ::
    "nat \<Rightarrow> 'w posix \<Rightarrow> (string \<Rightarrow> bool) \<Rightarrow> pflag set \<Rightarrow> path \<Rightarrow> path \<Rightarrow> 'w \<Rightarrow> (unit res \<times> 'w) option" where
  "move_to depth os valid_utf flags p dst w =
     (if \<not> p_exists os {} p w then Some (Inl (System_error ENOENT), w)
      else if path_eq p dst then Some (Inr (), w)
      else then_do
        (if p_exists os {} dst w \<and> p_id os {} p w \<noteq> p_id os {} dst w
         then (if F_overwrite \<notin> flags then Some (Inl (System_error EEXIST), w)
               else p_remove depth os valid_utf {F_recurse} dst w)
         else Some (Inr (), w))
        (\<lambda>w1. case sys_rename os (filename p) (filename dst) w1 of
           (err, w2) \<Rightarrow>
             if err = 0 then Some (Inr (), w2)
             else if err \<noteq> EXDEV \<or> F_may_copy \<notin> flags then Some (Inl (System_error err), w2)
             else then_do (copy_to depth os valid_utf {F_recurse} p dst w2)
                    (\<lambda>w3. p_remove depth os valid_utf {F_recurse} p w3)))"

section \<open>Deep search\<close>

text \<open>
  \<open>search_iterator\<close>: the stack of directory ranges, its last one first; \<^const>\<open>None\<close> is the end. The
  two questions it asks the file system are the arguments \<open>isdir flags p\<close> and \<open>list flags p\<close>, which
  are \<^const>\<open>is_directory\<close> and \<^const>\<open>directory\<close> in one state of the world.
\<close>

record search_state =
  ss_stack :: "dir_iter list"
  ss_flags :: "pflag set"
  ss_revisit :: bool

definition search_current :: "search_state \<Rightarrow> path" where
  "search_current s = (case ss_stack s of Some d # _ \<Rightarrow> ds_current d | _ \<Rightarrow> path_empty)"

partial_function (option) descend :: "(path \<Rightarrow> dir_iter) \<Rightarrow> search_state \<Rightarrow> search_state option" where
  "descend list s =
     (let range = list (search_current s)
      in if range = None then Some s else descend list (s\<lparr>ss_stack := range # ss_stack s\<rparr>))"

definition search_begin ::
    "(pflag set \<Rightarrow> path \<Rightarrow> bool) \<Rightarrow> (pflag set \<Rightarrow> path \<Rightarrow> dir_iter) \<Rightarrow> path \<Rightarrow> pflag set \<Rightarrow> search_state option option" where
  "search_begin isdir list dir flags =
     (if \<not> isdir flags dir then Some None
      else let range = list flags dir
           in if range = None then Some None
              else case (let s = \<lparr>ss_stack = [range], ss_flags = flags, ss_revisit = False\<rparr>
                         in if F_bottom_up \<in> flags then descend (list flags) s else Some s) of
                  None \<Rightarrow> None
                | Some s \<Rightarrow>
                    let s = s\<lparr>ss_revisit := (F_bottom_up \<in> flags \<and> ss_stack s \<noteq> [] \<and> isdir {} (search_current s))\<rparr>
                    in Some (if ss_stack s = [] then None else Some s))"

text \<open>One turn of the loop in \<open>operator++\<close>.\<close>

definition search_turn ::
    "(string \<Rightarrow> bool) \<Rightarrow> (pflag set \<Rightarrow> path \<Rightarrow> bool) \<Rightarrow> (pflag set \<Rightarrow> path \<Rightarrow> dir_iter) \<Rightarrow> search_state \<Rightarrow> search_state" where
  "search_turn valid_utf isdir list s =
     (if isdir (ss_flags s) (search_current s) \<and> \<not> ss_revisit s
      then let range = list (ss_flags s) (search_current s)
           in if range = None then s\<lparr>ss_revisit := True\<rparr>
              else s\<lparr>ss_stack := range # ss_stack s, ss_revisit := False\<rparr>
      else let it = dir_incr valid_utf (hd (ss_stack s))
           in if it = None then s\<lparr>ss_stack := tl (ss_stack s), ss_revisit := True\<rparr>
              else s\<lparr>ss_stack := it # tl (ss_stack s), ss_revisit := False\<rparr>)"

partial_function (option) search_loop ::
    "(string \<Rightarrow> bool) \<Rightarrow> (pflag set \<Rightarrow> path \<Rightarrow> bool) \<Rightarrow> (pflag set \<Rightarrow> path \<Rightarrow> dir_iter) \<Rightarrow> search_state \<Rightarrow> search_state option" where
  "search_loop valid_utf isdir list s =
     (let s' = search_turn valid_utf isdir list s
      in if ss_stack s' \<noteq> [] \<and> isdir (ss_flags s') (search_current s') \<and> ss_revisit s' \<noteq> (F_bottom_up \<in> ss_flags s')
         then search_loop valid_utf isdir list s' else Some s')"

definition search_incr ::
    "(string \<Rightarrow> bool) \<Rightarrow> (pflag set \<Rightarrow> path \<Rightarrow> bool) \<Rightarrow> (pflag set \<Rightarrow> path \<Rightarrow> dir_iter) \<Rightarrow> search_state \<Rightarrow> search_state option option" where
  "search_incr valid_utf isdir list s =
     map_option (\<lambda>s'. if ss_stack s' = [] then None else Some s') (search_loop valid_utf isdir list s)"

text \<open>What a loop over the range \<open>deep_search(flags)\<close> sees.\<close>

partial_function (option) search_from ::
    "(string \<Rightarrow> bool) \<Rightarrow> (pflag set \<Rightarrow> path \<Rightarrow> bool) \<Rightarrow> (pflag set \<Rightarrow> path \<Rightarrow> dir_iter) \<Rightarrow> path list \<Rightarrow> search_state option \<Rightarrow>
      path list option" where
  "search_from valid_utf isdir list seen it = (case it of
      None \<Rightarrow> Some seen
    | Some s \<Rightarrow> (case search_incr valid_utf isdir list s of
        None \<Rightarrow> None
      | Some it' \<Rightarrow> search_from valid_utf isdir list (seen @ [search_current s]) it'))"

definition search_paths ::
    "(string \<Rightarrow> bool) \<Rightarrow> (pflag set \<Rightarrow> path \<Rightarrow> bool) \<Rightarrow> (pflag set \<Rightarrow> path \<Rightarrow> dir_iter) \<Rightarrow> path \<Rightarrow> pflag set \<Rightarrow> path list option" where
  "search_paths valid_utf isdir list dir flags = (case search_begin isdir list dir flags of
      None \<Rightarrow> None | Some it \<Rightarrow> search_from valid_utf isdir list [] it)"

definition deep_search :: "'w posix \<Rightarrow> (string \<Rightarrow> bool) \<Rightarrow> path \<Rightarrow> pflag set \<Rightarrow> 'w \<Rightarrow> path list option" where
  "deep_search os valid_utf dir flags w =
     search_paths valid_utf (\<lambda>flags p. is_directory os flags p w) (\<lambda>flags p. directory os valid_utf p flags w) dir flags"

end
