(* ===== verification/Path_Search.thy ===== *)
theory Path_Search
  imports Path_Tree
begin

text \<open>
  A deep search of a finite directory tree visits every name below the directory once: a directory
  before its entries, or after them with the flag \<open>bottom_up\<close>.
\<close>

section \<open>Directory trees\<close>

datatype tree = Tree (tree_path: path) (tree_dir: bool) (kids: "tree list")

primrec pre_order :: "tree \<Rightarrow> path list" where
  "pre_order (Tree p d ts) = p # concat (map pre_order ts)"

primrec post_order :: "tree \<Rightarrow> path list" where
  "post_order (Tree p d ts) = concat (map post_order ts) @ [p]"

definition visit :: "bool \<Rightarrow> tree \<Rightarrow> path list" where
  "visit b t = (if b then post_order t else pre_order t)"

primrec weight :: "tree \<Rightarrow> nat" where
  "weight (Tree p d ts) = 2 + sum_list (map weight ts)"

lemma visit_eq: "visit b t = (if b then [] else [tree_path t]) @ concat (map (visit b) (kids t)) @ (if b then [tree_path t] else [])"
proof -
  have "visit True = post_order" "visit False = pre_order" by (simp_all add: visit_def fun_eq_iff)
  then show ?thesis by (cases t; cases b) simp_all
qed

lemma weight_eq: "weight t = 2 + sum_list (map weight (kids t))"
  by (cases t) simp

text \<open>The file system below a name, as the search sees it with the flags \<open>fl\<close>.\<close>

fun describes ::
    "(string \<Rightarrow> bool) \<Rightarrow> (pflag set \<Rightarrow> path \<Rightarrow> bool) \<Rightarrow> (pflag set \<Rightarrow> path \<Rightarrow> dir_iter) \<Rightarrow> pflag set \<Rightarrow> tree \<Rightarrow> bool" where
  "describes u isdir list fl (Tree p d ts) \<longleftrightarrow>
     isdir fl p = d \<and> (d \<longrightarrow> dir_paths u (list fl p) = map tree_path ts) \<and> (\<not> d \<longrightarrow> ts = [])
     \<and> (F_bottom_up \<in> fl \<longrightarrow> isdir {} p = d \<and> (\<not> d \<longrightarrow> list fl p = None))
     \<and> (\<forall>t \<in> set ts. describes u isdir list fl t)"

lemma describes_eq:
  "describes u isdir list fl t \<longleftrightarrow>
     isdir fl (tree_path t) = tree_dir t \<and> (tree_dir t \<longrightarrow> dir_paths u (list fl (tree_path t)) = map tree_path (kids t))
     \<and> (\<not> tree_dir t \<longrightarrow> kids t = [])
     \<and> (F_bottom_up \<in> fl \<longrightarrow> isdir {} (tree_path t) = tree_dir t \<and> (\<not> tree_dir t \<longrightarrow> list fl (tree_path t) = None))
     \<and> (\<forall>t \<in> set (kids t). describes u isdir list fl t)"
  by (cases t) simp

section \<open>The stack of the iterator\<close>

type_synonym tree_stack = "tree list list"

definition level ::
    "(string \<Rightarrow> bool) \<Rightarrow> (pflag set \<Rightarrow> path \<Rightarrow> bool) \<Rightarrow> (pflag set \<Rightarrow> path \<Rightarrow> dir_iter) \<Rightarrow> pflag set \<Rightarrow> dir_iter \<Rightarrow> tree list \<Rightarrow> bool" where
  "level u isdir list fl it ts \<longleftrightarrow>
     dir_paths u it = map tree_path ts \<and> ts \<noteq> [] \<and> (\<forall>t \<in> set ts. describes u isdir list fl t)"

definition stands_for ::
    "(string \<Rightarrow> bool) \<Rightarrow> (pflag set \<Rightarrow> path \<Rightarrow> bool) \<Rightarrow> (pflag set \<Rightarrow> path \<Rightarrow> dir_iter) \<Rightarrow> pflag set \<Rightarrow> search_state \<Rightarrow> tree_stack \<Rightarrow> bool" where
  "stands_for u isdir list fl s stk \<longleftrightarrow>
     ss_flags s = fl \<and> list_all2 (level u isdir list fl) (ss_stack s) stk \<and> (\<forall>ts \<in> set (tl stk). tree_dir (hd ts))"

text \<open>What is still to come after the current name.\<close>

fun below :: "bool \<Rightarrow> tree_stack \<Rightarrow> path list" where
  "below b [] = []"
| "below b (ts # stk) =
     (if b then [tree_path (hd ts)] else []) @ concat (map (visit b) (tl ts)) @ below b stk"

fun coming :: "bool \<Rightarrow> tree_stack \<Rightarrow> bool \<Rightarrow> path list" where
  "coming b [] revisit = []"
| "coming b (ts # stk) revisit =
     (if tree_dir (hd ts) \<and> \<not> revisit
      then concat (map (visit b) (kids (hd ts))) @ (if b then [tree_path (hd ts)] else []) else [])
     @ concat (map (visit b) (tl ts)) @ below b stk"

fun work :: "tree_stack \<Rightarrow> bool \<Rightarrow> nat" where
  "work [] revisit = 0"
| "work (ts # stk) revisit =
     (if tree_dir (hd ts) \<and> \<not> revisit then weight (hd ts) else 1) + sum_list (map weight (tl ts))
     + sum_list (map (\<lambda>us. 1 + sum_list (map weight (tl us))) stk)"

lemma dir_paths_Some: "dir_paths u it = q # qs \<Longrightarrow> \<exists>d. it = Some d \<and> ds_current d = q \<and> dir_paths u (dir_incr u it) = qs"
  by (cases it) auto

lemma level_current:
  assumes "level u isdir list fl it (t # ts)"
  shows "\<exists>d. it = Some d \<and> ds_current d = tree_path t" and "dir_paths u (dir_incr u it) = map tree_path ts"
    and "describes u isdir list fl t"
  using assms dir_paths_Some [of u it "tree_path t" "map tree_path ts"] by (auto simp: level_def)

lemma level_next:
  assumes "level u isdir list fl it (t # ts)"
  shows "dir_incr u it = None \<longleftrightarrow> ts = []" and "ts \<noteq> [] \<Longrightarrow> level u isdir list fl (dir_incr u it) ts"
proof -
  have p: "dir_paths u (dir_incr u it) = map tree_path ts" by (rule level_current(2) [OF assms])
  then show "dir_incr u it = None \<longleftrightarrow> ts = []" by (cases "dir_incr u it") auto
  show "ts \<noteq> [] \<Longrightarrow> level u isdir list fl (dir_incr u it) ts" using assms p by (auto simp: level_def)
qed

lemma stands_for_current:
  assumes "stands_for u isdir list fl s ((t # ts) # stk)"
  obtains it its where "ss_stack s = it # its" "level u isdir list fl it (t # ts)" "search_current s = tree_path t"
    "list_all2 (level u isdir list fl) its stk" "describes u isdir list fl t" "isdir fl (tree_path t) = tree_dir t"
proof -
  obtain it its where i: "ss_stack s = it # its" "level u isdir list fl it (t # ts)"
    "list_all2 (level u isdir list fl) its stk"
    using assms by (auto simp: stands_for_def list_all2_Cons2)
  moreover have d: "describes u isdir list fl t" using level_current(3) [OF i(2)] .
  moreover have "search_current s = tree_path t" using level_current(1) [OF i(2)] i(1) by (auto simp: search_current_def)
  moreover have "isdir fl (tree_path t) = tree_dir t" using d describes_eq [of u isdir list fl t] by simp
  ultimately show thesis using that by blast
qed

lemma stands_for_now:
  "stands_for u isdir list fl s ((t # ts) # stk) \<Longrightarrow> search_current s = tree_path t
     \<and> isdir fl (tree_path t) = tree_dir t \<and> describes u isdir list fl t \<and> ss_stack s \<noteq> []"
  by (erule stands_for_current) simp

lemma level_kids:
  assumes "describes u isdir list fl t" and "tree_dir t"
  shows "list fl (tree_path t) = None \<longleftrightarrow> kids t = []"
    and "kids t \<noteq> [] \<Longrightarrow> level u isdir list fl (list fl (tree_path t)) (kids t)"
proof -
  have k: "dir_paths u (list fl (tree_path t)) = map tree_path (kids t)" "\<forall>t \<in> set (kids t). describes u isdir list fl t"
    using assms describes_eq [of u isdir list fl t] by simp_all
  then show "list fl (tree_path t) = None \<longleftrightarrow> kids t = []" by (cases "list fl (tree_path t)") auto
  show "kids t \<noteq> [] \<Longrightarrow> level u isdir list fl (list fl (tree_path t)) (kids t)" using k by (simp add: level_def)
qed

lemma describes_file: "describes u isdir list fl t \<Longrightarrow> \<not> tree_dir t \<Longrightarrow> kids t = []"
  using describes_eq [of u isdir list fl t] by simp

text \<open>The names that come after moving to a new first element.\<close>

lemma coming_new:
  assumes "describes u isdir list fl t"
  shows "concat (map (visit b) (t # ts)) @ below b stk =
    (if b \<and> tree_dir t then [] else [tree_path t]) @ coming b ((t # ts) # stk) False"
  using describes_file [OF assms] visit_eq [of b t] by simp

section \<open>One turn, and the loop\<close>

definition goes_on :: "(pflag set \<Rightarrow> path \<Rightarrow> bool) \<Rightarrow> search_state \<Rightarrow> bool" where
  "goes_on isdir s \<longleftrightarrow>
     ss_stack s \<noteq> [] \<and> isdir (ss_flags s) (search_current s) \<and> ss_revisit s \<noteq> (F_bottom_up \<in> ss_flags s)"

lemma turn_correct:
  assumes "stands_for u isdir list fl s stk" and "stk \<noteq> []" and "b = (F_bottom_up \<in> fl)"
  shows "\<exists>stk'. stands_for u isdir list fl (search_turn u isdir list s) stk'
    \<and> work stk' (ss_revisit (search_turn u isdir list s)) < work stk (ss_revisit s)
    \<and> (if stk' = [] then coming b stk (ss_revisit s) = []
       else if goes_on isdir (search_turn u isdir list s)
       then coming b stk (ss_revisit s) = coming b stk' (ss_revisit (search_turn u isdir list s))
       else coming b stk (ss_revisit s)
         = search_current (search_turn u isdir list s) # coming b stk' (ss_revisit (search_turn u isdir list s)))"
  (is "\<exists>stk'. ?P stk'")
proof -
  obtain t ts rest where stk: "stk = (t # ts) # rest"
  proof -
    obtain us rest where "stk = us # rest" using assms(2) by (cases stk) auto
    moreover from this obtain t ts where "us = t # ts"
      using assms(1) by (cases us) (auto simp: stands_for_def list_all2_Cons2 level_def)
    ultimately show thesis using that by blast
  qed
  have fl: "ss_flags s = fl" "\<forall>us \<in> set rest. tree_dir (hd us)" using assms(1) stk by (auto simp: stands_for_def)
  obtain it its where c: "ss_stack s = it # its" "level u isdir list fl it (t # ts)" "search_current s = tree_path t"
    "list_all2 (level u isdir list fl) its rest" "describes u isdir list fl t" "isdir fl (tree_path t) = tree_dir t"
    using stands_for_current assms(1) unfolding stk by blast
  let ?s = "search_turn u isdir list s"
  have new: "?P ((k # ks) # stk2)"
    if "ss_stack ?s = i # is" "ss_flags ?s = fl" "\<not> ss_revisit ?s" "level u isdir list fl i (k # ks)"
      "list_all2 (level u isdir list fl) is stk2" "\<forall>us \<in> set stk2. tree_dir (hd us)"
      "coming b stk (ss_revisit s) = concat (map (visit b) (k # ks)) @ below b stk2"
      "work ((k # ks) # stk2) False < work stk (ss_revisit s)" for i "is" k ks stk2
  proof -
    have "stands_for u isdir list fl ?s ((k # ks) # stk2)" using that by (simp add: stands_for_def)
    moreover from stands_for_now [OF this]
    have "search_current ?s = tree_path k" "isdir fl (tree_path k) = tree_dir k" "describes u isdir list fl k" by simp_all
    moreover from this have "goes_on isdir ?s \<longleftrightarrow> tree_dir k \<and> b" using that(1-3) assms(3) by (auto simp: goes_on_def)
    ultimately show ?thesis using that(3,7,8) coming_new [of u isdir list fl k b ks stk2] by auto
  qed
  show ?thesis
  proof (cases "tree_dir t \<and> \<not> ss_revisit s")
    case dir: True
    show ?thesis
    proof (cases "kids t")
      case Nil
      then have turn: "?s = s\<lparr>ss_revisit := True\<rparr>"
        using dir c(3,6) fl(1) level_kids(1) [OF c(5)] by (simp add: search_turn_def)
      have "stands_for u isdir list fl ?s stk" using assms(1) turn by (simp add: stands_for_def)
      moreover have "search_current ?s = tree_path t" using c(3) turn by (simp add: search_current_def)
      moreover from this have "goes_on isdir ?s \<longleftrightarrow> \<not> b"
        using dir c(1,6) fl(1) assms(3) turn by (simp add: goes_on_def)
      ultimately show ?thesis
        using dir Nil turn weight_eq [of t] by (intro exI [of _ stk]) (simp add: stk)
    next
      case (Cons k ks)
      let ?r = "list fl (tree_path t)"
      have lv: "?r \<noteq> None" "level u isdir list fl ?r (k # ks)"
        using level_kids [OF c(5)] dir Cons by auto
      have turn: "?s = s\<lparr>ss_stack := ?r # ss_stack s, ss_revisit := False\<rparr>"
        using dir c(3,6) fl(1) lv(1) by (simp add: search_turn_def Let_def)
      have "?P ((k # ks) # (t # ts) # rest)"
      proof (rule new [of ?r "it # its"])
        show "work ((k # ks) # (t # ts) # rest) False < work stk (ss_revisit s)"
          using dir Cons weight_eq [of t] weight_eq [of k] by (simp add: stk)
      qed (use turn c fl lv dir Cons in \<open>simp_all add: stk\<close>)
      then show ?thesis ..
    qed
  next
    case adv: False
    let ?n = "dir_incr u it"
    have cond: "\<not> (isdir (ss_flags s) (search_current s) \<and> \<not> ss_revisit s)" using adv c(3,6) fl(1) by simp
    show ?thesis
    proof (cases ts)
      case Nil
      have turn: "?s = s\<lparr>ss_stack := its, ss_revisit := True\<rparr>"
        using c(1) level_next(1) [OF c(2)] Nil unfolding search_turn_def if_not_P [OF cond] by simp
      have st: "stands_for u isdir list fl ?s rest"
        using turn c(4) fl by (cases rest) (auto simp: stands_for_def)
      have com: "coming b stk (ss_revisit s) = below b rest" using adv Nil by (auto simp: stk)
      have w: "work rest True < work stk (ss_revisit s)" using adv Nil by (cases rest) (auto simp: stk)
      show ?thesis
      proof (cases rest)
        case Nil
        then show ?thesis using st com w turn by (intro exI [of _ rest]) simp
      next
        case (Cons us rest')
        then obtain v vs where us: "us = v # vs" using c(4) by (cases us) (auto simp: list_all2_Cons2 level_def)
        have "search_current ?s = tree_path v" "isdir fl (tree_path v) = tree_dir v" "ss_stack ?s \<noteq> []"
          using stands_for_now [of u isdir list fl ?s v vs rest'] st Cons us by simp_all
        moreover have "tree_dir v" using fl(2) Cons us by simp
        ultimately have "goes_on isdir ?s \<longleftrightarrow> \<not> b" using turn fl(1) assms(3) by (simp add: goes_on_def)
        then show ?thesis
          using st com w turn Cons us \<open>search_current ?s = tree_path v\<close> by (intro exI [of _ rest]) (cases b; simp)
      qed
    next
      case (Cons k ks)
      have lv: "?n \<noteq> None" "level u isdir list fl ?n (k # ks)" using level_next [OF c(2)] Cons by auto
      have turn: "?s = s\<lparr>ss_stack := ?n # its, ss_revisit := False\<rparr>"
        using c(1) lv(1) unfolding search_turn_def if_not_P [OF cond] by (simp add: Let_def)
      have "?P ((k # ks) # rest)"
      proof (rule new [of ?n its])
        show "work ((k # ks) # rest) False < work stk (ss_revisit s)"
          using adv Cons weight_eq [of k] by (auto simp: stk)
        show "coming b stk (ss_revisit s) = concat (map (visit b) (k # ks)) @ below b rest"
          using adv Cons by (auto simp: stk)
      qed (use turn c fl lv in simp_all)
      then show ?thesis ..
    qed
  qed
qed

lemma loop_correct:
  assumes "b = (F_bottom_up \<in> fl)"
  shows "stands_for u isdir list fl s stk \<Longrightarrow> stk \<noteq> [] \<Longrightarrow>
    \<exists>s' stk'. search_loop u isdir list s = Some s' \<and> stands_for u isdir list fl s' stk'
      \<and> (if stk' = [] then coming b stk (ss_revisit s) = []
         else coming b stk (ss_revisit s) = search_current s' # coming b stk' (ss_revisit s'))"
proof (induction "work stk (ss_revisit s)" arbitrary: s stk rule: less_induct)
  case less
  let ?t = "search_turn u isdir list s"
  obtain stk1 where t: "stands_for u isdir list fl ?t stk1" "work stk1 (ss_revisit ?t) < work stk (ss_revisit s)"
    "if stk1 = [] then coming b stk (ss_revisit s) = []
     else if goes_on isdir ?t then coming b stk (ss_revisit s) = coming b stk1 (ss_revisit ?t)
     else coming b stk (ss_revisit s) = search_current ?t # coming b stk1 (ss_revisit ?t)"
    using turn_correct [OF less.prems assms] by blast
  have loop: "search_loop u isdir list s = (if goes_on isdir ?t then search_loop u isdir list ?t else Some ?t)"
    by (subst search_loop.simps) (simp add: Let_def goes_on_def)
  show ?case
  proof (cases "goes_on isdir ?t")
    case True
    then have ne: "stk1 \<noteq> []" using t(1) by (auto simp: goes_on_def stands_for_def)
    from less.hyps [OF t(2,1) ne] obtain s' stk' where "search_loop u isdir list ?t = Some s'"
      "stands_for u isdir list fl s' stk'"
      "if stk' = [] then coming b stk1 (ss_revisit ?t) = []
       else coming b stk1 (ss_revisit ?t) = search_current s' # coming b stk' (ss_revisit s')" by blast
    then show ?thesis using loop True t(3) ne by (intro exI [of _ s'] exI [of _ stk']) (simp split: if_splits)
  next
    case False
    then show ?thesis using loop t(1,3) by (intro exI [of _ ?t] exI [of _ stk1]) (simp split: if_splits)
  qed
qed

lemma search_from_correct:
  assumes "b = (F_bottom_up \<in> fl)"
  shows "stands_for u isdir list fl s stk \<Longrightarrow> stk \<noteq> [] \<Longrightarrow>
    search_from u isdir list seen (Some s) = Some (seen @ search_current s # coming b stk (ss_revisit s))"
proof (induction "length (coming b stk (ss_revisit s))" arbitrary: s stk seen rule: less_induct)
  case less
  obtain s' stk' where l: "search_loop u isdir list s = Some s'" "stands_for u isdir list fl s' stk'"
    "if stk' = [] then coming b stk (ss_revisit s) = []
     else coming b stk (ss_revisit s) = search_current s' # coming b stk' (ss_revisit s')"
    using loop_correct [OF assms less.prems] by blast
  have iff: "ss_stack s' = [] \<longleftrightarrow> stk' = []" using l(2) by (auto simp: stands_for_def)
  show ?case
  proof (cases "stk' = []")
    case True
    then have "search_incr u isdir list s = Some None" "coming b stk (ss_revisit s) = []"
      using l(1,3) iff by (simp_all add: search_incr_def)
    then show ?thesis by (subst search_from.simps) (simp add: search_from.simps [of _ _ _ _ None])
  next
    case False
    then have i: "search_incr u isdir list s = Some (Some s')"
      and c: "coming b stk (ss_revisit s) = search_current s' # coming b stk' (ss_revisit s')"
      using l(1,3) iff by (simp_all add: search_incr_def)
    then have "length (coming b stk' (ss_revisit s')) < length (coming b stk (ss_revisit s))" by simp
    from less.hyps [OF this l(2) False, of "seen @ [search_current s]"] i c show ?thesis
      by (subst search_from.simps) simp
  qed
qed

text \<open>The constructor goes down to the first name without entries.\<close>

lemma descend_correct:
  assumes "F_bottom_up \<in> fl"
  shows "stands_for u isdir list fl s ((t # ts) # stk) \<Longrightarrow>
    \<exists>s' t' ts' stk'. descend (list fl) s = Some s' \<and> stands_for u isdir list fl s' ((t' # ts') # stk') \<and> kids t' = []
      \<and> concat (map post_order (t # ts)) @ below True stk = concat (map post_order (t' # ts')) @ below True stk'"
proof (induction t arbitrary: s ts stk)
  case (Tree p d ks)
  obtain it its where c: "ss_stack s = it # its" "search_current s = p" "isdir fl p = d"
    "describes u isdir list fl (Tree p d ks)"
    using stands_for_current [OF Tree.prems] by (metis tree.sel(1,2))
  show ?case
  proof (cases "ks = []")
    case True
    have "list fl p = None"
    proof (cases d)
      case d: True
      then show ?thesis using level_kids(1) [OF c(4)] True by simp
    next
      case False
      then show ?thesis using c(4) assms by simp
    qed
    then have "descend (list fl) s = Some s" using c(2) by (subst descend.simps) simp
    then show ?thesis using Tree.prems True
      by (intro exI [of _ s] exI [of _ "Tree p d ks"] exI [of _ ts] exI [of _ stk]) simp
  next
    case False
    then obtain k ks' where k: "ks = k # ks'" by (cases ks) auto
    have d: d using c(4) False by auto
    let ?s = "s\<lparr>ss_stack := list fl p # ss_stack s\<rparr>"
    have lv: "list fl p \<noteq> None" "level u isdir list fl (list fl p) ks"
      using level_kids [OF c(4)] d False by simp_all
    have st: "stands_for u isdir list fl ?s ((k # ks') # (Tree p d ks # ts) # stk)"
      using Tree.prems lv(2) k d by (auto simp: stands_for_def)
    have "\<not> list fl (search_current s) = None" using c(2) lv(1) by simp
    then have step: "descend (list fl) s = descend (list fl) ?s"
      unfolding c(2) descend.simps [of "list fl" s] Let_def by (rule if_not_P)
    obtain s' t' ts' stk' where r: "descend (list fl) ?s = Some s'" "stands_for u isdir list fl s' ((t' # ts') # stk')"
      "kids t' = []" "concat (map post_order (k # ks')) @ below True ((Tree p d ks # ts) # stk)
        = concat (map post_order (t' # ts')) @ below True stk'"
      using Tree.IH [OF _ st] k by auto
    have v: "visit True = post_order" by (simp add: visit_def fun_eq_iff)
    have "concat (map post_order (Tree p d ks # ts)) @ below True stk = concat (map post_order (t' # ts')) @ below True stk'"
      using r(4) k by (simp add: v)
    then show ?thesis using r(1-3) step by auto
  qed
qed

lemma search_paths_correct:
  assumes "describes u isdir list fl t" and "tree_dir t"
  shows "search_paths u isdir list (tree_path t) fl =
    Some (concat (map (visit (F_bottom_up \<in> fl)) (kids t)))"
proof -
  have dir: "isdir fl (tree_path t)" using assms describes_eq [of u isdir list fl t] by simp
  let ?r = "list fl (tree_path t)"
  show ?thesis
  proof (cases "kids t")
    case Nil
    then have "?r = None" using level_kids(1) [OF assms] by simp
    then show ?thesis using dir Nil by (simp add: search_paths_def search_begin_def search_from.simps)
  next
    case (Cons k ks)
    have lv: "?r \<noteq> None" "level u isdir list fl ?r (k # ks)" using level_kids [OF assms] Cons by auto
    define s where "s = \<lparr>ss_stack = [?r], ss_flags = fl, ss_revisit = False\<rparr>"
    have st: "stands_for u isdir list fl s [k # ks]" using lv(2) by (simp add: s_def stands_for_def)
    show ?thesis
    proof (cases "F_bottom_up \<in> fl")
      case False
      have b: "search_begin isdir list (tree_path t) fl = Some (Some s)"
        using dir lv(1) False by (auto simp: search_begin_def s_def)
      have "search_from u isdir list [] (Some s) = Some (search_current s # coming False [k # ks] False)"
        using search_from_correct [OF refl st, of "[]"] False by (simp add: s_def)
      moreover have "search_current s = tree_path k" "describes u isdir list fl k"
        using stands_for_now [OF st] by simp_all
      ultimately show ?thesis using False coming_new [of u isdir list fl k False ks "[]"] Cons
        by (simp add: search_paths_def b)
    next
      case True
      obtain s' t' ts' stk' where d: "descend (list fl) s = Some s'"
        "stands_for u isdir list fl s' ((t' # ts') # stk')" "kids t' = []"
        "concat (map post_order (k # ks)) = concat (map post_order (t' # ts')) @ below True stk'"
        using descend_correct [OF True st] by auto
      have c: "search_current s' = tree_path t'" "describes u isdir list fl t'" "ss_stack s' \<noteq> []"
        using stands_for_now [OF d(2)] by simp_all
      let ?s = "s'\<lparr>ss_revisit := tree_dir t'\<rparr>"
      have "isdir {} (tree_path t') = tree_dir t'" using c(2) True describes_eq [of u isdir list fl t'] by simp
      then have b: "search_begin isdir list (tree_path t) fl = Some (Some ?s)"
        using dir lv(1) True d(1) c(1,3) by (simp add: search_begin_def s_def Let_def)
      have st': "stands_for u isdir list fl ?s ((t' # ts') # stk')" using d(2) by (simp add: stands_for_def)
      have cur: "search_current ?s = tree_path t'" using c(1) by (simp add: search_current_def)
      have v: "visit True = post_order" by (simp add: visit_def fun_eq_iff)
      have "search_from u isdir list [] (Some ?s) = Some (tree_path t' # coming True ((t' # ts') # stk') (tree_dir t'))"
        using search_from_correct [OF refl st', of "[]"] True cur by simp
      also have "tree_path t' # coming True ((t' # ts') # stk') (tree_dir t') = concat (map post_order (k # ks))"
        using d(3,4) by (cases t') (simp add: v)
      finally show ?thesis using True Cons by (simp add: search_paths_def b v)
    qed
  qed
qed

section \<open>Properties\<close>

text \<open>
  C23. A deep search of a finite tree of directories ends, and visits every name below its directory
  once: each directory before its entries, or after them with the flag \<open>bottom_up\<close>, the entries of a
  directory in the order of the directory stream.
\<close>

theorem path_deep_search:
  assumes "describes u (\<lambda>flags p. is_directory os flags p w) (\<lambda>flags p. directory os u p flags w) fl (Tree dir True ts)"
  shows "deep_search os u dir fl w =
    Some (concat (map (if F_bottom_up \<in> fl then post_order else pre_order) ts))"
proof -
  have "visit True = post_order" "visit False = pre_order" by (simp_all add: visit_def fun_eq_iff)
  then show ?thesis using search_paths_correct [OF assms] by (simp add: deep_search_def)
qed

text \<open>A file system with the directory \<open>/a\<close>, in it the directory \<open>b\<close>, the file \<open>c\<close> in that, the empty
  directory \<open>d\<close>, and the link \<open>l\<close> to another directory, which holds \<open>x\<close>.\<close>

definition sample_kind :: "string \<Rightarrow> file_kind option" where
  "sample_kind = (\<lambda>_. None)(''/a'' := Some Kind_directory, ''/a/b'' := Some Kind_directory, ''/a/b/c'' := Some Kind_regular,
     ''/a/d'' := Some Kind_directory, ''/z'' := Some Kind_directory, ''/z/l'' := Some Kind_symlink, ''/z/l/x'' := Some Kind_regular)"

definition sample_stat :: "bool \<Rightarrow> string \<Rightarrow> stat_buf option" where
  "sample_stat follow f = map_option
     (\<lambda>k. zero_stat\<lparr>st_kind := (if follow \<and> k = Kind_symlink then Kind_directory else k)\<rparr>) (sample_kind f)"

definition sample_list :: "string \<Rightarrow> string list option" where
  "sample_list = (\<lambda>_. None)(''/a'' := Some [''.'', ''..'', ''b'', ''d''], ''/a/b'' := Some [''c''], ''/a/d'' := Some [],
     ''/z'' := Some [''l''], ''/z/l'' := Some [''x''])"

definition sample_os :: "unit posix" where
  "sample_os = \<lparr>sys_stat = (\<lambda>f w. sample_stat True f), sys_lstat = (\<lambda>f w. sample_stat False f),
     sys_getcwd = (\<lambda>n w. Inr ''/''), sys_readlink = (\<lambda>f n w. Inl EINVAL), sys_getenv = (\<lambda>n w. None),
     sys_getpw = (\<lambda>u n w. (0, None)), sys_listdir = (\<lambda>f w. sample_list f), sys_mkdir = (\<lambda>f w. (0, w)),
     sys_symlink = (\<lambda>f g w. (0, w)), sys_rename = (\<lambda>f g w. (0, w)), sys_remove = (\<lambda>f w. (0, w)),
     sys_chdir = (\<lambda>f w. (0, w)), sys_utimens = (\<lambda>f t b w. (0, w)), sys_fopen = (\<lambda>f m w. ((None, ENOENT), w)),
     sys_fclose = (\<lambda>f c w. w), std_in = (\<lambda>w. \<lparr>rest = [], sent = [], at_eof = False, hiccups = []\<rparr>),
     set_std_in = (\<lambda>c w. w), std_out = (\<lambda>w. \<lparr>rest = [], sent = [], at_eof = False, hiccups = []\<rparr>), set_std_out = (\<lambda>c w. w)\<rparr>"

lemmas sample_defs = sample_os_def sample_stat_def sample_kind_def sample_list_def is_directory_def get_stat_def
  directory_def dir_begin_def dir_incr_def zero_stat_def p_empty_def

lemma sample_join:
  "join \<lparr>filename = ''/a''\<rparr> (mk_path ''b'') = \<lparr>filename = ''/a/b''\<rparr>" "join \<lparr>filename = ''/a''\<rparr> (mk_path ''d'') = \<lparr>filename = ''/a/d''\<rparr>"
  "join \<lparr>filename = ''/a/b''\<rparr> (mk_path ''c'') = \<lparr>filename = ''/a/b/c''\<rparr>"
  "join \<lparr>filename = ''/z''\<rparr> (mk_path ''l'') = \<lparr>filename = ''/z/l''\<rparr>" "join \<lparr>filename = ''/z/l''\<rparr> (mk_path ''x'') = \<lparr>filename = ''/z/l/x''\<rparr>"
  by code_simp+

theorem path_deep_search_witness:
  "deep_search sample_os (\<lambda>_. True) \<lparr>filename = ''/a''\<rparr> {F_bottom_up} () =
    Some [\<lparr>filename = ''/a/b/c''\<rparr>, \<lparr>filename = ''/a/b''\<rparr>, \<lparr>filename = ''/a/d''\<rparr>]"
proof -
  let ?ts = "[Tree \<lparr>filename = ''/a/b''\<rparr> True [Tree \<lparr>filename = ''/a/b/c''\<rparr> False []], Tree \<lparr>filename = ''/a/d''\<rparr> True []]"
  have "describes (\<lambda>_. True) (\<lambda>flags p. is_directory sample_os flags p ()) (\<lambda>flags p. directory sample_os (\<lambda>_. True) p flags ())
     {F_bottom_up} (Tree \<lparr>filename = ''/a''\<rparr> True ?ts)"
    by (simp add: sample_defs sample_join)
  from path_deep_search [OF this] show ?thesis by simp
qed

text \<open>With \<open>no_follow\<close> a link is not a directory, but the constructor of a search from the bottom up
  goes down into it all the same, while \<open>operator++\<close> does not.\<close>

lemma deep_search_follows:
  "deep_search sample_os (\<lambda>_. True) \<lparr>filename = ''/z''\<rparr> {F_bottom_up, F_no_follow} () =
     Some [\<lparr>filename = ''/z/l/x''\<rparr>, \<lparr>filename = ''/z/l''\<rparr>]"
  "deep_search sample_os (\<lambda>_. True) \<lparr>filename = ''/z''\<rparr> {F_no_follow} () = Some [\<lparr>filename = ''/z/l''\<rparr>]"
  by (simp_all add: deep_search_def search_paths_def search_begin_def descend.simps search_from.simps search_incr_def
      search_loop.simps search_turn_def search_current_def sample_defs sample_join)

end
