(* ===== verification/Cstdio_Correct.thy ===== *)
theory Cstdio_Correct
  imports Cstdio
begin

text \<open>
  A C stream without read errors meets the contracts of \<open>Io_Base\<close>; what \<open>Cstdio::read_line\<close>, which
  overrides the loop of the base class, gives on a stream without zero bytes.
\<close>

definition calm :: "cfile \<Rightarrow> bool" where
  "calm f \<longleftrightarrow> hiccups f = []"

lemma calm_read: "calm f \<Longrightarrow> c_fread n f = (take n (rest f), 0, f\<lparr>rest := drop n (rest f), at_eof := (at_eof f \<or> length (rest f) < n)\<rparr>)"
  by (simp add: c_fread_def next_hiccup_def calm_def)

lemma calm_write: "calm f \<Longrightarrow> c_fwrite d f = (length d, 0, f\<lparr>sent := sent f @ d\<rparr>)"
  by (simp add: c_fwrite_def next_hiccup_def calm_def)

interpretation cstdio_in: reader cstdio_read rest calm
proof unfold_locales
  fix f n assume f: "calm f"
  let ?g = "f\<lparr>rest := drop n (rest f), at_eof := (at_eof f \<or> length (rest f) < n)\<rparr>"
  have "cstdio_read n f = (Inr (take n (rest f)), ?g)" "calm ?g"
    using calm_read [OF f] f by (simp_all add: cstdio_read_def check_for_error_def calm_def)
  then show "\<exists>d s'. cstdio_read n f = (Inr d, s') \<and> calm s' \<and> rest f = d @ rest s'
    \<and> length d \<le> n \<and> (d = [] \<longrightarrow> n = 0 \<or> rest f = [])" by auto
qed

interpretation cstdio_chars: char_reader cstdio_getc rest calm
proof unfold_locales
  fix f assume f: "calm f"
  let ?g = "f\<lparr>rest := drop 1 (rest f), at_eof := (at_eof f \<or> length (rest f) < 1)\<rparr>"
  have "cstdio_getc f = (Inr (case rest f of [] \<Rightarrow> None | c # _ \<Rightarrow> Some c), ?g)" "calm ?g"
    using calm_read [OF f, of 1] f
    by (cases "rest f"; simp add: cstdio_getc_def c_fgetc_def check_for_error_def calm_def)+
  then show "(rest f = [] \<and> (\<exists>s'. cstdio_getc f = (Inr None, s') \<and> calm s' \<and> rest s' = []))
    \<or> (\<exists>c s'. cstdio_getc f = (Inr (Some c), s') \<and> calm s' \<and> rest f = c # rest s')"
    by (cases "rest f") simp_all
qed

interpretation cstdio_out: writer cstdio_write sent calm
proof unfold_locales
  fix f d assume f: "calm f"
  have "cstdio_write d f = (Inr (length d), f\<lparr>sent := sent f @ d\<rparr>)" "calm (f\<lparr>sent := sent f @ d\<rparr>)"
    using calm_write [OF f] f by (simp_all add: cstdio_write_def check_for_error_def calm_def)
  then show "\<exists>n s'. cstdio_write d f = (Inr n, s') \<and> calm s' \<and> n \<le> length d
    \<and> sent s' = sent f @ take n d \<and> (d \<noteq> [] \<longrightarrow> 0 < n)" by auto
qed

section \<open>read_line\<close>

lemma upto_lf_first_line: "upto_lf s = first_line s"
  by (induction s rule: first_line.induct) (auto simp: upto_lf_def Let_def)

lemma first_line_cases:
  obtains "CHR 0x0A \<notin> set (first_line s)" "first_line s = s"
  | t where "first_line s = t @ [CHR 0x0A]" "CHR 0x0A \<notin> set t"
proof (induction s arbitrary: thesis rule: first_line.induct)
  case 1
  then show ?case by simp
next
  case (2 c s)
  show ?case
  proof (cases "c = CHR 0x0A")
    case True
    then show ?thesis by (intro "2.prems"(2) [of "[]"]) simp_all
  next
    case False
    show ?thesis
    proof (rule "2.IH" [OF False])
      assume "CHR 0x0A \<notin> set (first_line s)" "first_line s = s"
      then show thesis using False by (intro "2.prems"(1)) auto
    next
      fix t assume "first_line s = t @ [CHR 0x0A]" "CHR 0x0A \<notin> set t"
      then show thesis using False by (intro "2.prems"(2) [of "c # t"]) auto
    qed
  qed
qed

lemma first_line_skip: "n < length (first_line s) \<Longrightarrow> first_line (drop n s) = drop n (first_line s) \<and> CHR 0x0A \<notin> set (take n (first_line s))"
proof (induction s arbitrary: n rule: first_line.induct)
  case (2 c s)
  then show ?case by (cases n) (auto split: if_splits)
qed simp

text \<open>The zeros that \<open>read_line\<close> adds to a last line without line feed.\<close>

definition nul_pad :: "bool \<Rightarrow> string \<Rightarrow> nat" where
  "nul_pad first l =
     (if l = [] \<or> last l = CHR 0x0A \<or> first \<and> length l < 255 then 0 else (255 - length l mod 255) mod 255)"

lemma read_line_step:
  assumes "calm f"
  shows "cstdio_read_line_loop buf f =
    (let d = take 255 (first_line (rest f)); ended = (length d < 255 \<and> CHR 0x0A \<notin> set d);
         g = f\<lparr>rest := drop (length d) (rest f), at_eof := (at_eof f \<or> ended)\<rparr>;
         new = buf @ d @ replicate (256 - length d) (CHR 0x00)
     in if d = [] then (Inr buf, g)
        else case find_from ((=) (CHR 0x0A)) new (length buf) of
            Some lfpos \<Rightarrow> (Inr (take (lfpos + 1) new), g)
          | None \<Rightarrow> if text_end new < 255 then (Inr (take (text_end new) new), g)
                    else cstdio_read_line_loop (butlast new) g)"
proof -
  define d where "d = take 255 (first_line (rest f))"
  define g where "g = f\<lparr>rest := drop (length d) (rest f), at_eof := (at_eof f \<or> length d < 255 \<and> CHR 0x0A \<notin> set d)\<rparr>"
  have "c_fgets small_block f = (if d = [] then None else Some d, 0, g)"
    using assms unfolding c_fgets_def next_hiccup_def calm_def upto_lf_first_line small_block_def Let_def d_def g_def by simp
  then show ?thesis
    unfolding cstdio_read_line_loop.simps [of buf f] Let_def d_def [symmetric] g_def [symmetric]
    by (cases "d = []") (simp_all add: small_block_def substr_def split: option.split)
qed

lemma text_end_pad:
  assumes "d \<noteq> []" and "CHR 0x00 \<notin> set d"
  shows "text_end (buf @ d @ replicate n (CHR 0x00)) = length buf + length d"
proof -
  obtain t z where d: "d = t @ [z]" using assms(1) by (cases d rule: rev_cases) auto
  have "find_last (\<lambda>c. c \<noteq> CHR 0x00) ((buf @ t) @ z # replicate n (CHR 0x00)) = Some (length (buf @ t))"
    using assms(2) d by (intro find_last_append) auto
  then show ?thesis using d by (simp add: text_end_def)
qed

lemma read_line_loop_calm:
  "calm f \<Longrightarrow> CHR 0x00 \<notin> set (rest f) \<Longrightarrow> 255 dvd length buf \<Longrightarrow>
     \<exists>g. cstdio_read_line_loop buf f =
           (Inr (buf @ first_line (rest f) @ replicate (nul_pad (buf = []) (first_line (rest f))) (CHR 0x00)), g)
         \<and> calm g \<and> rest g = drop (length (first_line (rest f))) (rest f)"
proof (induction "length (rest f)" arbitrary: buf f rule: less_induct)
  case less
  let ?l = "first_line (rest f)"
  define d where "d = take 255 ?l"
  define g where "g = f\<lparr>rest := drop (length d) (rest f), at_eof := (at_eof f \<or> (length d < 255 \<and> CHR 0x0A \<notin> set d))\<rparr>"
  define new where "new = buf @ d @ replicate (256 - length d) (CHR 0x00)"
  have g: "calm g" "rest g = drop (length d) (rest f)" using less.prems(1) by (simp_all add: g_def calm_def)
  have step: "cstdio_read_line_loop buf f =
      (if d = [] then (Inr buf, g)
       else case find_from ((=) (CHR 0x0A)) new (length buf) of
            Some lfpos \<Rightarrow> (Inr (take (lfpos + 1) new), g)
          | None \<Rightarrow> if text_end new < 255 then (Inr (take (text_end new) new), g)
                    else cstdio_read_line_loop (butlast new) g)"
    using read_line_step [OF less.prems(1), of buf] unfolding Let_def d_def g_def new_def .
  have nul: "CHR 0x00 \<notin> set ?l" using less.prems(2) first_line_drop [of "rest f"] by (metis Un_iff set_append)
  then have nuld: "CHR 0x00 \<notin> set d" unfolding d_def by (meson in_set_takeD)
  show ?case
  proof (cases "d = []")
    case True
    then have "?l = []" by (simp add: d_def)
    then show ?thesis using step True g by (simp add: nul_pad_def)
  next
    case ne: False
    have none: "find_from ((=) (CHR 0x0A)) new (length buf) = None" if "CHR 0x0A \<notin> set d"
    proof -
      have "find_from ((=) (CHR 0x0A)) (d @ replicate (256 - length d) (CHR 0x00)) 0 = None"
        using that by (intro find_from_0_None) auto
      then show ?thesis unfolding new_def find_from_append by simp
    qed
    have te: "text_end new = length buf + length d" unfolding new_def by (rule text_end_pad [OF ne nuld])
    have bl: "butlast new = buf @ d @ replicate (255 - length d) (CHR 0x00)"
    proof -
      have "length d \<le> 255" by (simp add: d_def)
      then have "replicate (256 - length d) (CHR 0x00) = replicate (255 - length d) (CHR 0x00) @ [CHR 0x00]"
        by (simp add: replicate_append_same Suc_diff_le flip: replicate_Suc)
      then show ?thesis unfolding new_def by (simp add: butlast_append)
    qed
    show ?thesis
    proof (cases "length ?l \<le> 255")
      case True
      then have d: "d = ?l" by (simp add: d_def)
      show ?thesis
      proof (rule first_line_cases [of "rest f"])
        fix t assume t: "?l = t @ [CHR 0x0A]" "CHR 0x0A \<notin> set t"
        have "find_from ((=) (CHR 0x0A)) (t @ CHR 0x0A # replicate (256 - length d) (CHR 0x00)) 0 = Some (length t)"
          using t(2) by (intro find_from_0_append) auto
        then have "find_from ((=) (CHR 0x0A)) new (length buf) = Some (length buf + length t)"
          unfolding new_def find_from_append using t(1) d by simp
        then show ?thesis using step ne g d t(1) by (simp add: new_def nul_pad_def)
      next
        assume t: "CHR 0x0A \<notin> set ?l" "?l = rest f"
        note n = none [unfolded d, OF t(1)]
        show ?thesis
        proof (cases "length buf + length d < 255")
          case short: True
          then have "buf = []" using less.prems(3) by (cases buf) (auto dest: dvd_imp_le)
          then show ?thesis using step ne g n te short d t by (auto simp: new_def nul_pad_def)
        next
          case long: False
          have "rest g = []" using g(2) d t(2) by simp
          then have last: "cstdio_read_line_loop (butlast new) g = (Inr (butlast new), g\<lparr>rest := [], at_eof := True\<rparr>)"
            using read_line_step [OF g(1), of "butlast new"] by (simp add: Let_def)
          have "nul_pad (buf = []) ?l = 255 - length ?l"
          proof -
            have "last ?l \<noteq> CHR 0x0A" using t(1) ne d by (metis last_in_set)
            moreover have "length ?l = 255 \<or> length ?l mod 255 = length ?l" using True by (cases "length ?l = 255") simp_all
            moreover have "0 < length ?l" using ne d by simp
            ultimately show ?thesis using long ne d by (auto simp: nul_pad_def)
          qed
          then show ?thesis
            using step ne n te long last bl d g t(2) less.prems(1) by (simp add: calm_def)
        qed
      qed
    next
      case False
      then have len: "length d = 255" by (simp add: d_def)
      have sk: "first_line (rest g) = drop 255 ?l" "CHR 0x0A \<notin> set d"
        using first_line_skip [of 255 "rest f"] False g(2) len by (simp_all add: d_def)
      have "length (rest g) < length (rest f)"
        using g(2) len first_line_le [of "rest f"] False by simp
      moreover have "CHR 0x00 \<notin> set (rest g)" using g(2) less.prems(2) by (metis in_set_dropD)
      moreover have "255 dvd length (buf @ d)" using less.prems(3) len by simp
      ultimately obtain h where h: "cstdio_read_line_loop (buf @ d) g =
          (Inr ((buf @ d) @ drop 255 ?l @ replicate (nul_pad (buf @ d = []) (drop 255 ?l)) (CHR 0x00)), h)"
        "calm h" "rest h = drop (length (drop 255 ?l)) (rest g)"
        using less.hyps [OF _ g(1), of "buf @ d"] sk(1) by auto
      have "nul_pad (buf @ d = []) (drop 255 ?l) = nul_pad (buf = []) ?l"
      proof -
        have "last (drop 255 ?l) = last ?l" using False by simp
        moreover have "(length ?l - 255) mod 255 = length ?l mod 255" using False by (simp add: le_mod_geq)
        ultimately show ?thesis using ne False by (auto simp: nul_pad_def)
      qed
      moreover have "cstdio_read_line_loop buf f = cstdio_read_line_loop (buf @ d) g"
        using step ne none [OF sk(2)] te bl len by simp
      moreover have "d @ drop 255 ?l = ?l" by (simp add: d_def)
      moreover have "rest h = drop (length ?l) (rest f)" using h(3) g(2) len False by simp
      ultimately show ?thesis using h(1,2) by (metis append.assoc)
    qed
  qed
qed

text \<open>Streams on which \<open>Cstdio::read_line\<close> reads what the base class reads: text whose last line is ended.\<close>

definition text_stream :: "cfile \<Rightarrow> bool" where
  "text_stream f \<longleftrightarrow> calm f \<and> CHR 0x00 \<notin> set (rest f) \<and> (rest f = [] \<or> last (rest f) = CHR 0x0A)"

lemma last_first_line: "s \<noteq> [] \<Longrightarrow> last s = CHR 0x0A \<Longrightarrow> last (first_line s) = CHR 0x0A"
  by (rule first_line_cases [of s]) auto

interpretation cstdio_text: line_reader "\<lambda>f. Some (cstdio_read_line f)" rest text_stream
proof unfold_locales
  fix f assume f: "text_stream f"
  let ?l = "first_line (rest f)"
  obtain g where g: "cstdio_read_line f = (Inr (?l @ replicate (nul_pad True ?l) (CHR 0x00)), g)"
    "calm g" "rest g = drop (length ?l) (rest f)"
    using read_line_loop_calm [of f "[]"] f by (auto simp: text_stream_def cstdio_read_line_def)
  have "nul_pad True ?l = 0" using f last_first_line [of "rest f"] by (auto simp: text_stream_def nul_pad_def)
  moreover have "text_stream g"
    using f g(2,3) by (auto simp: text_stream_def dest: in_set_dropD) (cases "length ?l < length (rest f)"; simp)+
  ultimately show "\<exists>s'. Some (cstdio_read_line f) = Some (Inr ?l, s') \<and> text_stream s' \<and> rest s' = drop (length ?l) (rest f)"
    using g by simp
qed

section \<open>Properties\<close>

text \<open>
  C21. The loops of \<open>IoBase\<close> end on every C stream without errors: \<open>read_all\<close> gives everything that
  is left, \<open>read_line\<close> the next line, \<open>writes\<close> writes the whole text, and \<open>write_line\<close> adds the line feed
  where the text does not end in one.
\<close>

theorem stdio_loops_end:
  assumes "hiccups f = []"
  shows "(\<exists>g. base_read_all cstdio_read f = Some (Inr (rest f), g) \<and> rest g = [])
    \<and> (\<exists>g. base_read_line cstdio_getc f = Some (Inr (first_line (rest f)), g)
         \<and> rest g = drop (length (first_line (rest f))) (rest f))
    \<and> (\<exists>g. base_writes cstdio_write str f = Some (Inr (length str), g) \<and> sent g = sent f @ str)
    \<and> (\<exists>g. write_line cstdio_write cstdio_putc str f = Some (Inr (), g)
         \<and> sent g = sent f @ str @ (if str \<noteq> [] \<and> last str = CHR 0x0A then [] else [CHR 0x0A]))"
proof (intro conjI)
  have f: "calm f" using assms by (simp add: calm_def)
  show "\<exists>g. base_read_all cstdio_read f = Some (Inr (rest f), g) \<and> rest g = []"
    using cstdio_in.read_all_ready [OF f, of "[]"] by (auto simp: base_read_all_def)
  show "\<exists>g. base_read_line cstdio_getc f = Some (Inr (first_line (rest f)), g)
         \<and> rest g = drop (length (first_line (rest f))) (rest f)"
    using cstdio_chars.read_line_ready [OF f, of "[]"] by (auto simp: base_read_line_def)
  have writes: "\<exists>g. base_writes cstdio_write d f = Some (Inr (length d), g) \<and> sent g = sent f @ d" for d
    using cstdio_out.writes_loop_ready [OF f, of 0 d] by (auto simp: base_writes_def)
  then show "\<exists>g. base_writes cstdio_write str f = Some (Inr (length str), g) \<and> sent g = sent f @ str" .
  show "\<exists>g. write_line cstdio_write cstdio_putc str f = Some (Inr (), g)
         \<and> sent g = sent f @ str @ (if str \<noteq> [] \<and> last str = CHR 0x0A then [] else [CHR 0x0A])"
  proof (cases "str = []")
    case True
    then show ?thesis
      using calm_write [OF f, of "[CHR 0x0A]"] by (simp add: write_line_def cstdio_putc_def c_fputc_def check_for_error_def)
  next
    case False
    obtain g where g: "base_writes cstdio_write (if last str = CHR 0x0A then str else str @ [CHR 0x0A]) f =
        Some (Inr (length (if last str = CHR 0x0A then str else str @ [CHR 0x0A])), g)"
      "sent g = sent f @ (if last str = CHR 0x0A then str else str @ [CHR 0x0A])" using writes by blast
    then show ?thesis using False by (auto simp: write_line_def)
  qed
qed

theorem stdio_loops_end_witness:
  "\<exists>g. base_read_all cstdio_read \<lparr>rest = ''abc'', sent = [], at_eof = False, hiccups = []\<rparr> = Some (Inr ''abc'', g)"
  using stdio_loops_end [of "\<lparr>rest = ''abc'', sent = [], at_eof = False, hiccups = []\<rparr>"] by auto

text \<open>
  C20. \<open>Cstdio::read_line\<close>, which reads in blocks, gives the same line as the character loop of the
  base class on a stream without zero bytes, except that a last line without line feed of more
  than 255 bytes is filled up with zero bytes to a multiple of 255.
\<close>

theorem stdio_read_line:
  assumes "hiccups f = []" and "CHR 0x00 \<notin> set (rest f)"
  shows "\<exists>l g h. base_read_line cstdio_getc f = Some (Inr l, h) \<and> l = first_line (rest f) \<and> rest g = rest h
    \<and> cstdio_read_line f = (Inr (l @ replicate
          (if l = [] \<or> last l = CHR 0x0A \<or> length l < 255 then 0 else (255 - length l mod 255) mod 255) (CHR 0x00)), g)"
proof -
  have f: "calm f" using assms by (simp add: calm_def)
  obtain h where "base_read_line cstdio_getc f = Some (Inr (first_line (rest f)), h)"
    "rest h = drop (length (first_line (rest f))) (rest f)"
    using cstdio_chars.read_line_ready [OF f, of "[]"] by (auto simp: base_read_line_def)
  then show ?thesis
    using read_line_loop_calm [OF f assms(2), of "[]"] by (auto simp: cstdio_read_line_def nul_pad_def)
qed

theorem stdio_read_line_witness:
  "\<exists>g. cstdio_read_line \<lparr>rest = replicate 300 CHR ''x'', sent = [], at_eof = False, hiccups = []\<rparr>
    = (Inr (replicate 300 CHR ''x'' @ replicate 210 (CHR 0x00)), g)"
proof -
  let ?f = "\<lparr>rest = replicate 300 CHR ''x'', sent = [], at_eof = False, hiccups = []\<rparr>"
  have "CHR 0x0A \<noteq> CHR ''x''" by simp
  then have l: "first_line (replicate n CHR ''x'') = replicate n CHR ''x''" for n by (induction n) simp_all
  obtain g where "cstdio_read_line ?f = (Inr (replicate 300 CHR ''x'' @ replicate
      (if replicate 300 CHR ''x'' = [] \<or> last (replicate 300 CHR ''x'') = CHR 0x0A \<or> length (replicate 300 CHR ''x'') < 255
       then 0 else (255 - length (replicate 300 CHR ''x'') mod 255) mod 255) (CHR 0x00)), g)"
    using stdio_read_line [of ?f] l [of 300] by auto
  then show ?thesis by simp
qed

text \<open>Writing a list of lines.\<close>

fun write_lines :: "string list \<Rightarrow> cfile \<Rightarrow> cfile option" where
  "write_lines [] f = Some f"
| "write_lines (l # ls) f = (case write_line cstdio_write cstdio_putc l f of
      Some (Inr u, g) \<Rightarrow> write_lines ls g | _ \<Rightarrow> None)"

lemma write_line_calm:
  assumes "calm f" and "CHR 0x0A \<notin> set l"
  shows "\<exists>g. write_line cstdio_write cstdio_putc l f = Some (Inr (), g) \<and> calm g \<and> sent g = sent f @ l @ [CHR 0x0A]"
proof (cases "l = []")
  case True
  then show ?thesis
    using calm_write [OF assms(1), of "[CHR 0x0A]"] assms(1)
    by (simp add: write_line_def cstdio_putc_def c_fputc_def check_for_error_def calm_def)
next
  case False
  then have "last l \<noteq> CHR 0x0A" using assms(2) by (metis last_in_set)
  moreover obtain g where "base_writes cstdio_write (l @ [CHR 0x0A]) f = Some (Inr (length (l @ [CHR 0x0A])), g)"
    "calm g" "sent g = sent f @ l @ [CHR 0x0A]"
    using cstdio_out.writes_loop_ready [OF assms(1), of 0 "l @ [CHR 0x0A]"] by (auto simp: base_writes_def)
  ultimately show ?thesis using False by (simp add: write_line_def)
qed

lemma write_lines_calm:
  "calm f \<Longrightarrow> \<forall>l \<in> set ls. CHR 0x0A \<notin> set l \<Longrightarrow>
     \<exists>g. write_lines ls f = Some g \<and> sent g = sent f @ concat (map (\<lambda>l. l @ [CHR 0x0A]) ls)"
proof (induction ls arbitrary: f)
  case (Cons l ls)
  obtain g where g: "write_line cstdio_write cstdio_putc l f = Some (Inr (), g)" "calm g" "sent g = sent f @ l @ [CHR 0x0A]"
    using write_line_calm [OF Cons.prems(1), of l] Cons.prems(2) by (metis list.set_intros(1))
  obtain h where "write_lines ls g = Some h" "sent h = sent g @ concat (map (\<lambda>l. l @ [CHR 0x0A]) ls)"
    using Cons.IH [OF g(2)] Cons.prems(2) by (metis list.set_intros(2))
  then show ?case using g(1,3) by simp
qed simp

lemma first_line_ended: "CHR 0x0A \<notin> set l \<Longrightarrow> first_line (l @ CHR 0x0A # s) = l @ [CHR 0x0A]"
  by (induction l) auto

lemma text_lines_ended:
  "\<forall>l \<in> set ls. CHR 0x0A \<notin> set l \<Longrightarrow> text_lines (concat (map (\<lambda>l. l @ [CHR 0x0A]) ls)) = map (\<lambda>l. l @ [CHR 0x0A]) ls"
proof (induction ls)
  case Nil
  then show ?case by (simp add: text_lines.simps)
next
  case (Cons l ls)
  then show ?case using first_line_ended [of l "concat (map (\<lambda>l. l @ [CHR 0x0A]) ls)"]
    by (subst text_lines.simps) simp
qed

text \<open>
  C22. Lines written with \<open>write_line\<close> come back from a loop over \<open>lines()\<close>: every text without line
  feeds and zero bytes, in order, each with its line feed, and the loop ends.
\<close>

theorem stdio_lines_roundtrip:
  assumes "hiccups f = []" and "sent f = []" and "\<forall>l \<in> set ls. CHR 0x0A \<notin> set l \<and> CHR 0x00 \<notin> set l"
  shows "\<exists>g h. write_lines ls f = Some g
    \<and> io_lines (\<lambda>f. Some (cstdio_read_line f)) \<lparr>rest = sent g, sent = [], at_eof = False, hiccups = []\<rparr>
      = Some (Inr (map (\<lambda>l. l @ [CHR 0x0A]) ls), h)"
proof -
  let ?s = "concat (map (\<lambda>l. l @ [CHR 0x0A]) ls)"
  obtain g where g: "write_lines ls f = Some g" "sent g = ?s"
    using write_lines_calm [of f ls] assms by (auto simp: calm_def)
  have "?s = [] \<or> last ?s = CHR 0x0A" by (cases ls rule: rev_cases) simp_all
  then have "text_stream \<lparr>rest = sent g, sent = [], at_eof = False, hiccups = []\<rparr>"
    using g(2) assms(3) by (auto simp: text_stream_def calm_def)
  from cstdio_text.io_lines_ready [OF this] g text_lines_ended [of ls] assms(3) show ?thesis by auto
qed

theorem stdio_lines_roundtrip_witness:
  "\<exists>h. io_lines (\<lambda>f. Some (cstdio_read_line f))
      \<lparr>rest = ''ab'' @ [CHR 0x0A] @ [CHR 0x0A], sent = [], at_eof = False, hiccups = []\<rparr>
    = Some (Inr [''ab'' @ [CHR 0x0A], [CHR 0x0A]], h)"
proof -
  let ?f = "\<lparr>rest = [], sent = [], at_eof = False, hiccups = []\<rparr>"
  obtain g h where g: "write_lines [''ab'', []] ?f = Some g"
    "io_lines (\<lambda>f. Some (cstdio_read_line f)) \<lparr>rest = sent g, sent = [], at_eof = False, hiccups = []\<rparr>
      = Some (Inr [''ab'' @ [CHR 0x0A], [CHR 0x0A]], h)"
    using stdio_lines_roundtrip [of ?f "[''ab'', []]"] by auto
  have "\<exists>g. write_lines [''ab'', []] ?f = Some g \<and> sent g = ''ab'' @ [CHR 0x0A] @ [CHR 0x0A]"
    using write_lines_calm [of ?f "[''ab'', []]"] by (simp add: calm_def)
  then have "sent g = ''ab'' @ [CHR 0x0A] @ [CHR 0x0A]" using g(1) by (metis option.inject)
  then show ?thesis using g(2) by metis
qed

end
