(* ===== verification/Path_Io.thy ===== *)
theory Path_Io
  imports Path_Tree Cstdio_Correct
begin

text \<open>\<open>load\<close> and \<open>save\<close>: what the two loops transfer, and that a file saved can be loaded.\<close>

lemma load_loop_calm:
  "calm f \<Longrightarrow> (case maxlen of None \<Rightarrow> True | Some m \<Rightarrow> length str \<le> m) \<Longrightarrow>
     fst (load_loop maxlen str f) = str @ (case maxlen of None \<Rightarrow> rest f | Some m \<Rightarrow> take (m - length str) (rest f))"
proof (induction "length (rest f)" arbitrary: f str rule: less_induct)
  case less
  define n where "n = (case maxlen of None \<Rightarrow> io_block | Some m \<Rightarrow> min (m - length str) io_block)"
  let ?d = "take n (rest f)" and ?g = "f\<lparr>rest := drop n (rest f), at_eof := (at_eof f \<or> length (rest f) < n)\<rparr>"
  let ?more = "case maxlen of None \<Rightarrow> True | Some m \<Rightarrow> length str < m"
  have step: "load_loop maxlen str f =
      (if ?more then if length ?d < n then (str @ ?d, ?g) else load_loop maxlen (str @ ?d) ?g else (str, f))"
    using calm_read [OF less.prems(1), of n] by (subst load_loop.simps) (simp add: n_def Let_def)
  show ?case
  proof (cases ?more)
    case False
    then obtain m where "maxlen = Some m" "length str = m" using less.prems(2) by (auto split: option.splits)
    then show ?thesis using step by simp
  next
    case more: True
    then have n0: "0 < n" by (auto simp: n_def io_block_def split: option.splits)
    show ?thesis
    proof (cases "length ?d < n")
      case True
      then have short: "length (rest f) < n" "?d = rest f" by simp_all
      then have "take (m - length str) (rest f) = rest f" if "maxlen = Some m" for m
        using that by (simp add: n_def)
      then show ?thesis using step more True short by (auto split: option.splits)
    next
      case False
      then have len: "length ?d = n" by simp
      then have "length (rest ?g) < length (rest f)" using n0 False by simp
      moreover have "calm ?g" using less.prems(1) by (simp add: calm_def)
      moreover have "case maxlen of None \<Rightarrow> True | Some m \<Rightarrow> length (str @ ?d) \<le> m"
        using len more by (auto simp: n_def split: option.splits)
      ultimately have "fst (load_loop maxlen (str @ ?d) ?g) =
          (str @ ?d) @ (case maxlen of None \<Rightarrow> rest ?g | Some m \<Rightarrow> take (m - length (str @ ?d)) (rest ?g))"
        by (rule less.hyps)
      moreover have "?d @ (case maxlen of None \<Rightarrow> rest ?g | Some m \<Rightarrow> take (m - length (str @ ?d)) (rest ?g))
          = (case maxlen of None \<Rightarrow> rest f | Some m \<Rightarrow> take (m - length str) (rest f))"
      proof (cases maxlen)
        case (Some m)
        then have "n \<le> m - length str" by (simp add: n_def)
        then have "take (m - length str) (rest f) = ?d @ take (m - length str - n) (drop n (rest f))"
          by (metis le_add_diff_inverse take_add)
        then show ?thesis using Some len by simp
      qed simp
      ultimately show ?thesis using step more False by simp
    qed
  qed
qed

lemma save_loop_calm:
  "calm f \<Longrightarrow> pos \<le> length str \<Longrightarrow> save_loop str pos f = Some (Inr (), f\<lparr>sent := sent f @ drop pos str\<rparr>)"
proof -
  assume f: "calm f" and pos: "pos \<le> length str"
  let ?g = "f\<lparr>sent := sent f @ drop pos str\<rparr>"
  show ?thesis
  proof (cases "pos < length str")
    case True
    have "save_loop str pos f = save_loop str (pos + length (drop pos str)) ?g"
      using True calm_write [OF f] by (subst save_loop.simps) simp
    also have "\<dots> = Some (Inr (), ?g)" using True by (subst save_loop.simps) simp
    finally show ?thesis .
  next
    case False
    then show ?thesis by (subst save_loop.simps) simp
  qed
qed

text \<open>
  C28. What \<open>save\<close> writes \<open>load\<close> reads: on a file system that gives an empty stream for a file opened
  for writing and the bytes stored for one opened for reading, the text comes back, or its first
  bytes where a maximal length is given. A read error ends the text that \<open>load\<close> gives and is not
  reported; contradictory flags and an existing file make \<open>save\<close> throw and change nothing.
\<close>

theorem path_save_load:
  assumes "sys_fopen os (filename p) ''wb'' w = ((Some out, 0), w1)" and "hiccups out = []" and "sent out = []"
    and "sys_fopen os (filename p) ''rb'' (sys_fclose os (filename p) (out\<lparr>sent := str\<rparr>) w1) = ((Some inp, e), w3)"
    and "rest inp = str" and "hiccups inp = []"
  shows "\<exists>w2 w4 w5. p_save os {F_overwrite} p str w = Some (Inr (), w2)
    \<and> p_load os None {} p w2 = (Inr str, w4) \<and> p_load os (Some m) {} p w2 = (Inr (take m str), w5)
    \<and> (hiccups f = Some (k, e') # hs \<and> k < io_block \<longrightarrow> fst (load_loop None [] f) = take k (rest f))
    \<and> p_save os {F_append, F_overwrite} p str w = Some (Inl (Invalid_argument ''Invalid options to Path::save()''), w)
    \<and> (p_exists os {} p w \<longrightarrow> p_save os {} p str w = Some (Inl (System_error EEXIST), w))"
proof -
  let ?w2 = "sys_fclose os (filename p) (out\<lparr>sent := str\<rparr>) w1"
  have "save_loop str 0 out = Some (Inr (), out\<lparr>sent := str\<rparr>)"
    using save_loop_calm [of out 0 str] assms(2,3) by (simp add: calm_def)
  then have s: "p_save os {F_overwrite} p str w = Some (Inr (), ?w2)" using assms(1) by (simp add: p_save_def)
  have l: "\<exists>w'. p_load os n {} p ?w2 = (Inr (case n of None \<Rightarrow> str | Some m \<Rightarrow> take m str), w')" for n
  proof -
    have "fst (load_loop n [] inp) = (case n of None \<Rightarrow> str | Some m \<Rightarrow> take m str)"
      using load_loop_calm [where f = inp and maxlen = n and str = "[]"] assms(5,6) by (simp add: calm_def split: option.splits)
    then show ?thesis using assms(4) by (cases "load_loop n [] inp") (simp add: p_load_def)
  qed
  have err: "fst (load_loop None [] f) = take k (rest f)" if "hiccups f = Some (k, e') # hs" "k < io_block"
  proof -
    have "min (length (rest f)) k < io_block" using that(2) by simp
    then show ?thesis using that by (subst load_loop.simps) (simp add: c_fread_def next_hiccup_def)
  qed
  show ?thesis using s l [of None] l [of "Some m"] err by (auto simp: p_save_def)
qed

definition memory_os :: "(string \<Rightarrow> string option) posix" where
  "memory_os = \<lparr>sys_stat = (\<lambda>f w. None), sys_lstat = (\<lambda>f w. None),
     sys_getcwd = (\<lambda>n w. Inr ''/''), sys_readlink = (\<lambda>f n w. Inl EINVAL), sys_getenv = (\<lambda>n w. None),
     sys_getpw = (\<lambda>u n w. (0, None)), sys_listdir = (\<lambda>f w. None), sys_mkdir = (\<lambda>f w. (0, w)),
     sys_symlink = (\<lambda>f g w. (0, w)), sys_rename = (\<lambda>f g w. (0, w)), sys_remove = (\<lambda>f w. (0, w(f := None))),
     sys_chdir = (\<lambda>f w. (0, w)), sys_utimens = (\<lambda>f t b w. (0, w)),
     sys_fopen = (\<lambda>f m w. ((Some \<lparr>rest = (if m = ''rb'' then the (w f) else []), sent = [], at_eof = False, hiccups = []\<rparr>, 0), w)),
     sys_fclose = (\<lambda>f c w. if sent c \<noteq> [] then w(f \<mapsto> sent c) else w), std_in = (\<lambda>w. \<lparr>rest = [], sent = [], at_eof = False, hiccups = []\<rparr>),
     set_std_in = (\<lambda>c w. w), std_out = (\<lambda>w. \<lparr>rest = [], sent = [], at_eof = False, hiccups = []\<rparr>), set_std_out = (\<lambda>c w. w)\<rparr>"

theorem path_save_load_witness:
  "\<exists>w2 w4. p_save memory_os {F_overwrite} \<lparr>filename = ''f''\<rparr> ''text'' Map.empty = Some (Inr (), w2)
    \<and> p_load memory_os None {} \<lparr>filename = ''f''\<rparr> w2 = (Inr ''text'', w4)"
proof -
  let ?p = "\<lparr>filename = ''f''\<rparr>" and ?c = "\<lparr>rest = [], sent = [], at_eof = False, hiccups = []\<rparr>"
    and ?in = "\<lparr>rest = ''text'', sent = [], at_eof = False, hiccups = []\<rparr>"
  have "sys_fopen memory_os (filename ?p) ''wb'' Map.empty = ((Some ?c, 0), Map.empty)"
    "hiccups ?c = []" "sent ?c = []"
    "sys_fopen memory_os (filename ?p) ''rb'' (sys_fclose memory_os (filename ?p) (?c\<lparr>sent := ''text''\<rparr>) Map.empty)
      = ((Some ?in, 0), Map.empty(''f'' \<mapsto> ''text''))"
    "rest ?in = ''text''" "hiccups ?in = []"
    by (simp_all add: memory_os_def)
  from path_save_load [OF this] show ?thesis by metis
qed

end
