(* ===== verification/Stdio_Handles.thy ===== *)
theory Stdio_Handles
  imports Cstdio Resource
begin

text \<open>
  The handles of \<open>stdio.cpp\<close>: opening and closing of \<open>Cstdio\<close> and \<open>Fdio\<close>, the file descriptor
  functions and \<open>TempFile\<close>. The C library and the operating system are fields of a record: each call
  gives its result, the value it leaves in \<open>errno\<close> (set to 0 before the call) and the state of the
  world after it. \<open>where\<close> of a temporary file is \<open>tf_where\<close>.
\<close>

datatype io_mode = Mode_read | Mode_write | Mode_append | Mode_create_always | Mode_open_always | Mode_open_existing

section \<open>Cstdio\<close>

record ('h, 'w) c_library =
  null_file :: 'h
  c_stdin :: 'h
  c_stdout :: 'h
  c_stderr :: 'h
  lib_fopen :: "string \<Rightarrow> string \<Rightarrow> 'w \<Rightarrow> ('h \<times> int) \<times> 'w"
  lib_fclose :: "'h \<Rightarrow> 'w \<Rightarrow> int \<times> 'w"
  lib_fflush :: "'h \<Rightarrow> 'w \<Rightarrow> int \<times> 'w"
  lib_fseeko :: "'h \<Rightarrow> int \<Rightarrow> int \<Rightarrow> 'w \<Rightarrow> int \<times> 'w"
  lib_ftello :: "'h \<Rightarrow> 'w \<Rightarrow> (int \<times> int) \<times> 'w"
  lib_fgetc :: "'h \<Rightarrow> 'w \<Rightarrow> 'w"
  lib_fdopen :: "int \<Rightarrow> string \<Rightarrow> 'w \<Rightarrow> 'h \<times> 'w"
  lib_tmpfile :: "'w \<Rightarrow> ('h \<times> int) \<times> 'w"
  lib_fileno :: "'h \<Rightarrow> int"

text \<open>The deleter of \<open>Resource<FILE*>\<close>; the error number it leaves is that of \<open>fclose\<close>.\<close>

definition cstdio_deleter :: "('h, 'w) c_library \<Rightarrow> 'h \<Rightarrow> 'w \<Rightarrow> int \<times> 'w" where
  "cstdio_deleter lib h w =
     (if h \<noteq> c_stdin lib \<and> h \<noteq> c_stdout lib \<and> h \<noteq> c_stderr lib then lib_fclose lib h w else (0, w))"

definition cstdio_open_str :: "('h, 'w) c_library \<Rightarrow> path \<Rightarrow> string \<Rightarrow> 'w \<Rightarrow> 'h res \<times> 'w" where
  "cstdio_open_str lib f iomode w =
     (case lib_fopen lib (filename f) iomode w of
        ((h, err), w') \<Rightarrow> (if err \<noteq> 0 then Inl (io_error err) else Inr h, w'))"

definition stdio_mode :: "io_mode \<Rightarrow> string" where
  "stdio_mode m = (case m of
      Mode_read \<Rightarrow> ''rb''
    | Mode_write \<Rightarrow> ''wb''
    | Mode_append \<Rightarrow> ''ab''
    | Mode_create_always \<Rightarrow> ''wb+''
    | Mode_open_existing \<Rightarrow> ''rb+''
    | Mode_open_always \<Rightarrow> [])"

definition cstdio_open :: "('h, 'w) c_library \<Rightarrow> path \<Rightarrow> io_mode \<Rightarrow> 'w \<Rightarrow> 'h res \<times> 'w" where
  "cstdio_open lib f m w =
     (if p_empty f \<or> filename f = ''-''
      then (if m = Mode_read then (Inr (c_stdin lib), w)
            else if m = Mode_write \<or> m = Mode_append then (Inr (c_stdout lib), w)
            else (Inr (null_file lib), w))
      else if m = Mode_open_always
      then (case cstdio_open_str lib f ''rb+'' w of
              (Inl e, w') \<Rightarrow> (Inl e, w')
            | (Inr h, w') \<Rightarrow> if h = null_file lib then cstdio_open_str lib f ''wb+'' w' else (Inr h, w'))
      else cstdio_open_str lib f (stdio_mode m) w)"

definition cstdio_close :: "('h, 'w) c_library \<Rightarrow> 'h resource \<Rightarrow> 'w \<Rightarrow> unit res \<times> 'h resource \<times> 'w" where
  "cstdio_close lib r w =
     (case res_reset (null_file lib) r of (r', dels) \<Rightarrow>
        (case dels of
           [] \<Rightarrow> (Inr (), r', w)
         | h # _ \<Rightarrow> (case cstdio_deleter lib h w of (e, w') \<Rightarrow> (check_for_error e (), r', w'))))"

definition cstdio_flush :: "('h, 'w) c_library \<Rightarrow> 'h \<Rightarrow> 'w \<Rightarrow> unit res \<times> 'w" where
  "cstdio_flush lib h w = (case lib_fflush lib h w of (e, w') \<Rightarrow> (check_for_error e (), w'))"

definition cstdio_seek :: "('h, 'w) c_library \<Rightarrow> 'h \<Rightarrow> int \<Rightarrow> int \<Rightarrow> 'w \<Rightarrow> unit res \<times> 'w" where
  "cstdio_seek lib h ofs which w = (case lib_fseeko lib h ofs which w of (e, w') \<Rightarrow> (check_for_error e (), w'))"

definition cstdio_tell :: "('h, 'w) c_library \<Rightarrow> 'h \<Rightarrow> 'w \<Rightarrow> int res \<times> 'w" where
  "cstdio_tell lib h w = (case lib_ftello lib h w of ((ofs, e), w') \<Rightarrow> (check_for_error e ofs, w'))"

definition cstdio_fd :: "('h, 'w) c_library \<Rightarrow> 'h \<Rightarrow> int" where
  "cstdio_fd lib h = (if h \<noteq> null_file lib then lib_fileno lib h else -1)"

definition null_device :: string where "null_device = ''/dev/null''"

definition cstdio_null :: "('h, 'w) c_library \<Rightarrow> 'w \<Rightarrow> 'h res \<times> 'w" where
  "cstdio_null lib w = (case cstdio_open_str lib (mk_path null_device) ''r+'' w of
      (Inl e, w') \<Rightarrow> (Inl e, w') | (Inr h, w') \<Rightarrow> (Inr h, lib_fgetc lib h w'))"

section \<open>Fdio\<close>

datatype open_flag = O_RDONLY | O_WRONLY | O_RDWR | O_CREAT | O_TRUNC | O_APPEND | O_EXCL | O_CLOEXEC

record 'w fd_system =
  sys_open :: "string \<Rightarrow> open_flag list \<Rightarrow> nat \<Rightarrow> 'w \<Rightarrow> (int \<times> int) \<times> 'w"
  sys_close :: "int \<Rightarrow> 'w \<Rightarrow> int \<times> 'w"
  sys_read :: "int \<Rightarrow> nat \<Rightarrow> 'w \<Rightarrow> (string \<times> int) \<times> 'w"
  sys_write :: "int \<Rightarrow> string \<Rightarrow> 'w \<Rightarrow> (nat \<times> int) \<times> 'w"
  sys_lseek :: "int \<Rightarrow> int \<Rightarrow> int \<Rightarrow> 'w \<Rightarrow> (int \<times> int) \<times> 'w"
  sys_fsync :: "int \<Rightarrow> 'w \<Rightarrow> int \<times> 'w"
  sys_dup :: "int \<Rightarrow> 'w \<Rightarrow> (int \<times> int) \<times> 'w"
  sys_dup2 :: "int \<Rightarrow> int \<Rightarrow> 'w \<Rightarrow> int \<times> 'w"
  sys_pipe :: "'w \<Rightarrow> ((int \<times> int) option \<times> int) \<times> 'w"

definition fdio_deleter :: "'w fd_system \<Rightarrow> int \<Rightarrow> 'w \<Rightarrow> int \<times> 'w" where
  "fdio_deleter sys fd w = (if 2 < fd then sys_close sys fd w else (0, w))"

definition fdio_open_flags :: "'w fd_system \<Rightarrow> path \<Rightarrow> open_flag list \<Rightarrow> nat \<Rightarrow> 'w \<Rightarrow> int res \<times> 'w" where
  "fdio_open_flags sys f iomode perm w =
     (case sys_open sys (filename f) iomode perm w of
        ((fd, err), w') \<Rightarrow> (if err \<noteq> 0 then Inl (io_error err) else Inr fd, w'))"

definition fd_mode :: "io_mode \<Rightarrow> open_flag list" where
  "fd_mode m = (case m of
      Mode_read \<Rightarrow> [O_RDONLY]
    | Mode_write \<Rightarrow> [O_WRONLY, O_CREAT, O_TRUNC]
    | Mode_append \<Rightarrow> [O_WRONLY, O_APPEND, O_CREAT]
    | Mode_create_always \<Rightarrow> [O_RDWR, O_CREAT, O_TRUNC]
    | Mode_open_always \<Rightarrow> [O_RDWR, O_CREAT]
    | Mode_open_existing \<Rightarrow> [O_RDWR])"

definition fdio_open :: "'w fd_system \<Rightarrow> path \<Rightarrow> io_mode \<Rightarrow> 'w \<Rightarrow> int res \<times> 'w" where
  "fdio_open sys f m w =
     (if (p_empty f \<or> filename f = ''-'') \<and> m = Mode_read then (Inr 0, w)
      else if (p_empty f \<or> filename f = ''-'') \<and> (m = Mode_write \<or> m = Mode_append) then (Inr 1, w)
      else fdio_open_flags sys f (fd_mode m) 438 w)"

definition fdio_close :: "'w fd_system \<Rightarrow> int resource \<Rightarrow> 'w \<Rightarrow> unit res \<times> int resource \<times> 'w" where
  "fdio_close sys r w =
     (case res_reset (-1) r of (r', dels) \<Rightarrow>
        (case dels of
           [] \<Rightarrow> (Inr (), r', w)
         | fd # _ \<Rightarrow> (case fdio_deleter sys fd w of (e, w') \<Rightarrow> (check_for_error e (), r', w'))))"

definition fdio_flush :: "'w fd_system \<Rightarrow> int \<Rightarrow> 'w \<Rightarrow> unit res \<times> 'w" where
  "fdio_flush sys fd w = (case sys_fsync sys fd w of (e, w') \<Rightarrow> (check_for_error e (), w'))"

definition fdio_read :: "'w fd_system \<Rightarrow> int \<Rightarrow> nat \<Rightarrow> 'w \<Rightarrow> string res \<times> 'w" where
  "fdio_read sys fd maxlen w = (case sys_read sys fd maxlen w of ((d, e), w') \<Rightarrow> (check_for_error e d, w'))"

definition fdio_write :: "'w fd_system \<Rightarrow> int \<Rightarrow> string \<Rightarrow> 'w \<Rightarrow> nat res \<times> 'w" where
  "fdio_write sys fd d w = (case sys_write sys fd d w of ((n, e), w') \<Rightarrow> (check_for_error e n, w'))"

definition fdio_seek :: "'w fd_system \<Rightarrow> int \<Rightarrow> int \<Rightarrow> int \<Rightarrow> 'w \<Rightarrow> unit res \<times> 'w" where
  "fdio_seek sys fd ofs which w = (case sys_lseek sys fd ofs which w of ((p, e), w') \<Rightarrow> (check_for_error e (), w'))"

definition SEEK_CUR :: int where "SEEK_CUR = 1"

definition fdio_tell :: "'w fd_system \<Rightarrow> int \<Rightarrow> 'w \<Rightarrow> int res \<times> 'w" where
  "fdio_tell sys fd w = (case sys_lseek sys fd 0 SEEK_CUR w of ((p, e), w') \<Rightarrow> (check_for_error e p, w'))"

definition fdio_dup :: "'w fd_system \<Rightarrow> int \<Rightarrow> 'w \<Rightarrow> int res \<times> 'w" where
  "fdio_dup sys fd w = (case sys_dup sys fd w of ((rc, e), w') \<Rightarrow> (check_for_error e rc, w'))"

definition fdio_dup_to :: "'w fd_system \<Rightarrow> int \<Rightarrow> int \<Rightarrow> 'w \<Rightarrow> int res \<times> 'w" where
  "fdio_dup_to sys fd f w = (case sys_dup2 sys fd f w of (e, w') \<Rightarrow> (check_for_error e f, w'))"

definition fdio_null :: "'w fd_system \<Rightarrow> 'w \<Rightarrow> int res \<times> 'w" where
  "fdio_null sys w = fdio_open_flags sys (mk_path null_device) [O_RDWR, O_CLOEXEC] 438 w"

text \<open>\<open>pipe\<close>: \<open>None\<close> is a result code other than 0. A failed call with \<open>errno\<close> 0 leaves the array
  \<open>fds\<close> without values, which are \<open>junk\<close>.\<close>

definition fdio_pipe :: "'w fd_system \<Rightarrow> int \<times> int \<Rightarrow> 'w \<Rightarrow> (int \<times> int) res \<times> 'w" where
  "fdio_pipe sys junk w = (case sys_pipe sys w of
      ((Some fds, e), w') \<Rightarrow> (Inr fds, w')
    | ((None, e), w') \<Rightarrow> (check_for_error e junk, w'))"

section \<open>TempFile\<close>

definition max_tries :: nat where "max_tries = 100"

text \<open>The name for two numbers of the random device: \<open>hex\<close> is \<open>Format::hex\<close> and \<open>resolve\<close> is \<open>Path::resolve\<close>.\<close>

definition temp_name ::
    "(64 word \<Rightarrow> string) \<Rightarrow> (path \<Rightarrow> path res) \<Rightarrow> path \<Rightarrow> string \<Rightarrow> 64 word \<Rightarrow> 64 word \<Rightarrow> path res" where
  "temp_name hex resolve dir prefix x y =
     (let z = push_bit 32 x + y in resolve (join dir (mk_path (prefix @ hex z))))"

text \<open>The loop of the constructor; \<open>nm i\<close> is the name of the \<open>i\<close>th turn. The result is the name tried
  last, the descriptor (\<open>-1\<close> if none is open), the last error number and the world.\<close>

function temp_loop :: "'w fd_system \<Rightarrow> (nat \<Rightarrow> path res) \<Rightarrow> nat \<Rightarrow> path \<Rightarrow> int \<Rightarrow> int \<Rightarrow> 'w \<Rightarrow>
    (path \<times> int \<times> int) res \<times> 'w" where
  "temp_loop sys nm i at fd err w =
     (if i < max_tries \<and> fd = -1
      then (case nm i of
              Inl e \<Rightarrow> (Inl e, w)
            | Inr p \<Rightarrow>
                (case fdio_open_flags sys p [O_RDWR, O_CREAT, O_EXCL] 438 w of
                   (Inl e, w') \<Rightarrow> (Inl e, w')
                 | (Inr fd', w') \<Rightarrow> temp_loop sys nm (i + 1) p fd' 0 w'))
      else (Inr (at, fd, err), w))"
  by pat_completeness auto

termination by (relation "measure (\<lambda>(sys, nm, i, at, fd, err, w). max_tries - i)") auto

declare temp_loop.simps [simp del]

record 'h temp_file =
  tf_file :: 'h
  tf_where :: path

definition temp_file_named ::
    "('h, 'w) c_library \<Rightarrow> 'w fd_system \<Rightarrow> bool \<Rightarrow> (nat \<Rightarrow> path res) \<Rightarrow> path \<Rightarrow> 'w \<Rightarrow> 'h temp_file res \<times> 'w" where
  "temp_file_named lib sys dir_ok nm dir w =
     (if \<not> p_empty dir \<and> \<not> dir_ok then (Inl (System_error 2), w)
      else case temp_loop sys nm 0 path_empty (-1) 0 w of
          (Inl e, w') \<Rightarrow> (Inl e, w')
        | (Inr (at, fd, err), w') \<Rightarrow>
            if fd = -1 then (Inl (io_error err), w')
            else case lib_fdopen lib fd ''rb+'' w' of (h, w'') \<Rightarrow> (Inr \<lparr>tf_file = h, tf_where = at\<rparr>, w''))"

definition temp_file_unnamed :: "('h, 'w) c_library \<Rightarrow> 'w \<Rightarrow> 'h temp_file res \<times> 'w" where
  "temp_file_unnamed lib w = (case lib_tmpfile lib w of
      ((h, err), w') \<Rightarrow> if h = null_file lib then (Inl (io_error err), w') else (Inr \<lparr>tf_file = h, tf_where = path_empty\<rparr>, w'))"

definition temp_file_destroy ::
    "('h, 'w) c_library \<Rightarrow> (path \<Rightarrow> 'w \<Rightarrow> 'w) \<Rightarrow> 'h temp_file \<Rightarrow> 'w \<Rightarrow> 'w" where
  "temp_file_destroy lib rm t w =
     (if p_empty (tf_where t)
      then snd (snd (cstdio_close lib \<lparr>res_value = tf_file t\<rparr> w))
      else rm (tf_where t) (snd (snd (cstdio_close lib \<lparr>res_value = tf_file t\<rparr> w))))"

section \<open>Failed opens\<close>

text \<open>
  A file that cannot be opened ends a constructor at once. So \<open>open_always\<close> of \<open>Cstdio\<close> throws
  for a file that does not exist and never reaches its second call, which would make it, and
  \<open>TempFile\<close> makes one attempt, not \<open>max_tries\<close>; if the attempt succeeds the file has that name.
  \<open>open_always\<close> of \<open>Fdio\<close> asks for the file to be made.
\<close>

theorem stdio_open_first_try:
  assumes "\<not> p_empty f" and "filename f \<noteq> ''-''" and "lib_fopen lib (filename f) ''rb+'' w = ((h, e), w')" and "e \<noteq> 0"
    and "p_empty dir \<or> dir_ok" and "nm 0 = Inr p" and "sys_open sys (filename p) [O_RDWR, O_CREAT, O_EXCL] 438 w = ((fd, e'), w'')"
  shows "cstdio_open lib f Mode_open_always w = (Inl (System_error e), w')
    \<and> (e' \<noteq> 0 \<longrightarrow> temp_file_named lib sys dir_ok nm dir w = (Inl (System_error e'), w''))
    \<and> (e' = 0 \<and> fd \<noteq> -1 \<longrightarrow> (\<exists>t w2. temp_file_named lib sys dir_ok nm dir w = (Inr t, w2) \<and> tf_where t = p))
    \<and> fdio_open sys f Mode_open_always w = fdio_open_flags sys f [O_RDWR, O_CREAT] 438 w"
proof (intro conjI impI)
  show "cstdio_open lib f Mode_open_always w = (Inl (System_error e), w')"
    using assms(1-4) by (simp add: cstdio_open_def cstdio_open_str_def io_error_def)
  have start: "\<not> (\<not> p_empty dir \<and> \<not> dir_ok)" using assms(5) by auto
  have loop: "temp_loop sys nm 0 path_empty (-1) 0 w =
      (case fdio_open_flags sys p [O_RDWR, O_CREAT, O_EXCL] 438 w of
         (Inl e, w') \<Rightarrow> (Inl e, w') | (Inr fd', w') \<Rightarrow> temp_loop sys nm 1 p fd' 0 w')"
    using assms(6) by (subst temp_loop.simps) (simp add: max_tries_def split: sum.split prod.split)
  show "temp_file_named lib sys dir_ok nm dir w = (Inl (System_error e'), w'')" if "e' \<noteq> 0"
    using that assms(7) unfolding temp_file_named_def if_not_P [OF start] loop
    by (simp add: fdio_open_flags_def io_error_def)
  show "\<exists>t w2. temp_file_named lib sys dir_ok nm dir w = (Inr t, w2) \<and> tf_where t = p" if "e' = 0 \<and> fd \<noteq> -1"
  proof -
    have "temp_loop sys nm 0 path_empty (-1) 0 w = (Inr (p, fd, 0), w'')"
      using that assms(7) unfolding loop by (simp add: fdio_open_flags_def temp_loop.simps [of _ _ "Suc 0"])
    then show ?thesis
      using that unfolding temp_file_named_def if_not_P [OF start] by (auto split: prod.splits)
  qed
  show "fdio_open sys f Mode_open_always w = fdio_open_flags sys f [O_RDWR, O_CREAT] 438 w"
    using assms(1,2) by (simp add: fdio_open_def fd_mode_def)
qed

theorem stdio_open_first_try_witness:
  "\<exists>(lib :: (nat, nat) c_library) sys. cstdio_open lib \<lparr>filename = ''x''\<rparr> Mode_open_always 0 = (Inl (System_error 2), 1)
    \<and> temp_file_named lib sys True (\<lambda>i. Inr \<lparr>filename = ''/tmp/x''\<rparr>) path_empty 0 = (Inl (System_error 17), 1)"
proof -
  define lib :: "(nat, nat) c_library" where
    "lib = \<lparr>null_file = 0, c_stdin = 1, c_stdout = 2, c_stderr = 3,
      lib_fopen = (\<lambda>f m w. ((if m = ''wb+'' then 4 else 0, if m = ''wb+'' then 0 else 2), w + 1)),
      lib_fclose = (\<lambda>h w. (0, w)), lib_fflush = (\<lambda>h w. (0, w)), lib_fseeko = (\<lambda>h p q w. (0, w)),
      lib_ftello = (\<lambda>h w. ((0, 0), w)), lib_fgetc = (\<lambda>h w. w), lib_fdopen = (\<lambda>fd m w. (5, w)),
      lib_tmpfile = (\<lambda>w. ((6, 0), w)), lib_fileno = (\<lambda>h. int h)\<rparr>"
  define sys :: "nat fd_system" where
    "sys = \<lparr>sys_open = (\<lambda>f m p w. ((-1, 17), w + 1)), sys_close = (\<lambda>fd w. (0, w)), sys_read = (\<lambda>fd n w. (([], 0), w)),
      sys_write = (\<lambda>fd d w. ((length d, 0), w)), sys_lseek = (\<lambda>fd p q w. ((0, 0), w)), sys_fsync = (\<lambda>fd w. (0, w)),
      sys_dup = (\<lambda>fd w. ((fd, 0), w)), sys_dup2 = (\<lambda>fd f w. (0, w)), sys_pipe = (\<lambda>w. ((Some (3, 4), 0), w))\<rparr>"
  have "cstdio_open lib \<lparr>filename = ''x''\<rparr> Mode_open_always 0 = (Inl (System_error 2), 1)
    \<and> temp_file_named lib sys True (\<lambda>i. Inr \<lparr>filename = ''/tmp/x''\<rparr>) path_empty 0 = (Inl (System_error 17), 1)"
    using stdio_open_first_try [of "\<lparr>filename = ''x''\<rparr>" lib 0 0 2 1 path_empty True "\<lambda>i. Inr \<lparr>filename = ''/tmp/x''\<rparr>"
        "\<lparr>filename = ''/tmp/x''\<rparr>" sys "-1" 17 1]
    by (simp add: lib_def sys_def p_empty_def)
  then show ?thesis by blast
qed

end
