(* ===== verification/Net_Address.thy ===== *)
theory Net_Address
  imports Numeric_Text
begin

text \<open>
  The address classes of \<open>net.hpp\<close> and \<open>net.cpp\<close>: \<open>IPv4\<close>, \<open>IPv6\<close> and \<open>SocketAddress\<close>. A socket
  address is the union of \<open>sockaddr_in\<close> and \<open>sockaddr_in6\<close> as 28 bytes, laid out as on Linux (the
  family in two bytes, the low one first), with the number of bytes in use. The functions
  \<open>inet_pton\<close> and \<open>inet_ntop\<close> of the system are arguments.
\<close>

section \<open>Bytes\<close>

type_synonym byte = "8 word"

text \<open>Network byte order, as \<open>htonl\<close> and \<open>htons\<close> put a number into memory.\<close>

primrec be_bytes :: "nat \<Rightarrow> nat \<Rightarrow> byte list" where
  "be_bytes 0 v = []"
| "be_bytes (Suc n) v = be_bytes n (v div 256) @ [of_nat v]"

definition be_value :: "byte list \<Rightarrow> nat" where
  "be_value bs = foldl (\<lambda>a b. a * 256 + unat b) 0 bs"

lemma length_be_bytes [simp]: "length (be_bytes n v) = n"
  by (induction n arbitrary: v) simp_all

lemma be_value_snoc [simp]: "be_value (bs @ [b]) = be_value bs * 256 + unat b"
  by (simp add: be_value_def)

lemma unat_of_nat_byte: "unat (of_nat v :: byte) = v mod 256"
  by (simp add: unat_of_nat)

lemma be_value_bytes: "be_value (be_bytes n v) = v mod 256 ^ n"
proof (induction n arbitrary: v)
  case 0
  then show ?case by (simp add: be_value_def)
next
  case (Suc n)
  have "v mod (256 * 256 ^ n) = 256 * (v div 256 mod 256 ^ n) + v mod 256" by (rule mod_mult2_eq)
  then show ?case using Suc [of "v div 256"] by (simp add: unat_of_nat_byte)
qed

lemma byte_less: "unat (b :: byte) < 256"
  using unsigned_less [of b] by simp

lemma be_bytes_value: "be_bytes (length bs) (be_value bs) = bs"
proof (induction bs rule: rev_induct)
  case (snoc b bs)
  have "(be_value bs * 256 + unat b) div 256 = be_value bs" using byte_less [of b] by simp
  moreover have "(of_nat (be_value bs * 256 + unat b) :: byte) = b"
  proof -
    have "unat (of_nat (be_value bs * 256 + unat b) :: byte) = unat b"
      using byte_less [of b] by (simp only: unat_of_nat_byte) simp
    then show ?thesis by (simp only: word_unat_eq_iff)
  qed
  ultimately show ?case using snoc by simp
qed simp

lemma be_value_less: "be_value bs < 256 ^ length bs"
proof (induction bs rule: rev_induct)
  case (snoc b bs)
  then show ?case using byte_less [of b] by simp
qed (simp add: be_value_def)

lemma be_value_inj: "length xs = length ys \<Longrightarrow> be_value xs = be_value ys \<longleftrightarrow> xs = ys"
  by (metis be_bytes_value)

text \<open>\<open>memcmp\<close> and \<open>mem_compare\<close>\<close>

fun memcmp :: "byte list \<Rightarrow> byte list \<Rightarrow> int" where
  "memcmp (x # xs) (y # ys) = (if x < y then -1 else if y < x then 1 else memcmp xs ys)"
| "memcmp _ _ = 0"

definition mem_compare :: "byte list \<Rightarrow> byte list \<Rightarrow> int" where
  "mem_compare l r =
     (let n1 = length l; n2 = length r; rc = memcmp (take (min n1 n2) l) (take (min n1 n2) r)
      in if rc < 0 then -1 else if 0 < rc then 1 else if n1 < n2 then -1 else if n2 < n1 then 1 else 0)"

lemma memcmp_values: "memcmp l r = -1 \<or> memcmp l r = 0 \<or> memcmp l r = 1"
  by (induction l r rule: memcmp.induct) auto

lemma mem_compare_simps [simp]:
  "mem_compare [] [] = 0" "mem_compare [] (y # ys) = -1" "mem_compare (x # xs) [] = 1"
  "mem_compare (x # xs) (y # ys) = (if x < y then -1 else if y < x then 1 else mem_compare xs ys)"
  using memcmp_values [of "take (min (length xs) (length ys)) xs" "take (min (length xs) (length ys)) ys"]
  by (auto simp: mem_compare_def Let_def)

lemma mem_compare_values: "mem_compare l r = -1 \<or> mem_compare l r = 0 \<or> mem_compare l r = 1"
  by (induction l r rule: list_induct2') auto

lemma mem_compare_eq: "mem_compare l r = 0 \<longleftrightarrow> l = r"
  by (induction l r rule: list_induct2') auto

lemma mem_compare_swap: "mem_compare r l = - mem_compare l r"
  by (induction l r rule: list_induct2') auto

lemma mem_compare_trans: "mem_compare l m < 0 \<Longrightarrow> mem_compare m r < 0 \<Longrightarrow> mem_compare l r < 0"
proof (induction l m arbitrary: r rule: list_induct2')
  case (4 x xs y ys)
  then show ?case by (cases r) (auto split: if_splits)
next
  case (3 y ys)
  then show ?case by (cases r) (auto split: if_splits)
qed auto

text \<open>On numbers in network order of the same length the order of the bytes is the order of the numbers.\<close>

lemma be_value_Cons: "be_value (x # xs) = unat x * 256 ^ length xs + be_value xs"
proof (induction xs rule: rev_induct)
  case (snoc b bs)
  have "be_value (x # bs @ [b]) = be_value (x # bs) * 256 + unat b" using be_value_snoc [of "x # bs" b] by simp
  then show ?case using snoc by (simp add: algebra_simps)
qed (simp add: be_value_def)

lemma mem_compare_value: "length xs = length ys \<Longrightarrow> mem_compare xs ys < 0 \<longleftrightarrow> be_value xs < be_value ys"
proof (induction xs ys rule: list_induct2)
  case (Cons x xs y ys)
  let ?p = "256 ^ length xs :: nat"
  have b: "be_value xs < ?p" "be_value ys < ?p" using be_value_less [of xs] be_value_less [of ys] Cons.hyps by simp_all
  have less: "unat u * ?p + v < unat w * ?p + z" if "unat u < unat w" "v < ?p" for u w :: byte and v z
  proof -
    have "unat u * ?p + v < Suc (unat u) * ?p" using that(2) by simp
    also have "\<dots> \<le> unat w * ?p" using that(1) by (intro mult_le_mono1) simp
    finally show ?thesis by simp
  qed
  consider "x < y" | "y < x" | "x = y" by (meson linorder_less_linear)
  then show ?case
  proof cases
    case 1
    then show ?thesis using less [of x y "be_value xs" "be_value ys"] b Cons.hyps by (simp add: be_value_Cons word_less_nat_alt)
  next
    case 2
    then have "be_value (y # ys) < be_value (x # xs)"
      using less [of y x "be_value ys" "be_value xs"] b Cons.hyps by (simp add: be_value_Cons word_less_nat_alt)
    then show ?thesis using 2 by (simp add: order.asym)
  next
    case 3
    then show ?thesis using Cons by (simp add: be_value_Cons)
  qed
qed simp

definition bernstein_hash :: "byte list \<Rightarrow> 32 word" where
  "bernstein_hash bs = foldl (\<lambda>hash b. 33 * hash + ucast b) 5381 bs"

section \<open>IPv4\<close>

datatype ipv4 = IPv4 byte byte byte byte

definition ipv4_bytes :: "ipv4 \<Rightarrow> byte list" where
  "ipv4_bytes ip = (case ip of IPv4 a b c d \<Rightarrow> [a, b, c, d])"

definition ipv4_from_bytes :: "byte list \<Rightarrow> ipv4" where
  "ipv4_from_bytes bs = IPv4 (bs ! 0) (bs ! 1) (bs ! 2) (bs ! 3)"

definition ipv4_default :: ipv4 where
  "ipv4_default = IPv4 0 0 0 0"

text \<open>\<open>htonl\<close> puts the number into memory in network order, \<open>ntohl\<close> reads it.\<close>

definition ipv4_of_value :: "32 word \<Rightarrow> ipv4" where
  "ipv4_of_value addr = ipv4_from_bytes (be_bytes 4 (unat addr))"

definition ipv4_value :: "ipv4 \<Rightarrow> 32 word" where
  "ipv4_value ip = of_nat (be_value (ipv4_bytes ip))"

definition ipv4_index :: "ipv4 \<Rightarrow> nat \<Rightarrow> byte" where
  "ipv4_index ip i = (if i < 4 then ipv4_bytes ip ! i else 0)"

definition ipv4_any :: ipv4 where "ipv4_any = ipv4_default"

definition ipv4_broadcast :: ipv4 where "ipv4_broadcast = ipv4_of_value 0xffffffff"

definition ipv4_localhost :: ipv4 where "ipv4_localhost = ipv4_of_value 0x7f000001"

definition ipv4_from_sin :: "byte list option \<Rightarrow> ipv4" where
  "ipv4_from_sin ptr = (case ptr of None \<Rightarrow> ipv4_default | Some bs \<Rightarrow> ipv4_from_bytes bs)"

text \<open>\<open>pton\<close> is \<open>inet_pton\<close>: the bytes, \<^const>\<open>None\<close> for a text that is no address, or an error number.\<close>

definition ipv4_of_string :: "(string \<Rightarrow> int + byte list option) \<Rightarrow> string \<Rightarrow> ipv4 res" where
  "ipv4_of_string pton s = (case pton s of
      Inl err \<Rightarrow> Inl (System_error err)
    | Inr None \<Rightarrow> Inl (Invalid_argument ''Invalid IPv4 address'')
    | Inr (Some bs) \<Rightarrow> Inr (ipv4_from_bytes bs))"

definition ENOSPC :: int where "ENOSPC = 28"

text \<open>\<open>ntop bytes n\<close> is \<open>inet_ntop\<close> with a buffer of \<open>n\<close> bytes: an error number, or the bytes of the
  buffer.\<close>

definition null_term :: "string \<Rightarrow> string" where
  "null_term s = (case find_from ((=) (CHR 0x00)) s 0 of None \<Rightarrow> s | Some pos \<Rightarrow> str_resize s pos (CHR 0x00))"

partial_function (option) ntop_loop :: "(byte list \<Rightarrow> nat \<Rightarrow> int + string) \<Rightarrow> nat \<Rightarrow> byte list \<Rightarrow> nat \<Rightarrow> string res option" where
  "ntop_loop ntop step bs n = (case ntop bs n of
      Inr buf \<Rightarrow> Some (Inr (null_term buf))
    | Inl err \<Rightarrow> if err \<noteq> ENOSPC then Some (Inl (System_error err)) else ntop_loop ntop step bs (n + step))"

definition ipv4_str :: "(byte list \<Rightarrow> nat \<Rightarrow> int + string) \<Rightarrow> ipv4 \<Rightarrow> string res option" where
  "ipv4_str ntop ip = ntop_loop ntop 16 (ipv4_bytes ip) 16"

lemma ipv4_from_bytes_bytes [simp]: "ipv4_from_bytes (ipv4_bytes ip) = ip"
  by (cases ip) (simp add: ipv4_from_bytes_def ipv4_bytes_def)

lemma ipv4_bytes_from_bytes: "length bs = 4 \<Longrightarrow> ipv4_bytes (ipv4_from_bytes bs) = bs"
  by (auto simp: ipv4_from_bytes_def ipv4_bytes_def numeral_eq_Suc length_Suc_conv)

lemma length_ipv4_bytes [simp]: "length (ipv4_bytes ip) = 4"
  by (cases ip) (simp add: ipv4_bytes_def)

lemma ipv4_value_unat: "unat (ipv4_value ip) = be_value (ipv4_bytes ip)"
  using be_value_less [of "ipv4_bytes ip"] by (simp add: ipv4_value_def unat_of_nat)

lemma ipv4_value_of_value [simp]: "ipv4_value (ipv4_of_value w) = w"
proof -
  have "unat w < 4294967296" using unsigned_less [of w] by simp
  then have "be_value (be_bytes 4 (unat w)) = unat w" by (simp only: be_value_bytes) simp
  then show ?thesis by (simp add: ipv4_value_def ipv4_of_value_def ipv4_bytes_from_bytes)
qed

lemma ipv4_of_value_value [simp]: "ipv4_of_value (ipv4_value ip) = ip"
  using be_bytes_value [of "ipv4_bytes ip"] by (simp add: ipv4_of_value_def ipv4_value_unat)

lemma ipv4_value_inj: "ipv4_value a = ipv4_value b \<longleftrightarrow> a = b"
  by (metis ipv4_of_value_value)

definition ipv4_less :: "ipv4 \<Rightarrow> ipv4 \<Rightarrow> bool" where
  "ipv4_less a b \<longleftrightarrow> ipv4_value a < ipv4_value b"

definition ipv4_less_eq :: "ipv4 \<Rightarrow> ipv4 \<Rightarrow> bool" where
  "ipv4_less_eq a b \<longleftrightarrow> ipv4_value a \<le> ipv4_value b"

instantiation ipv4 :: linorder
begin

definition less_eq_ipv4 :: "ipv4 \<Rightarrow> ipv4 \<Rightarrow> bool" where
  "less_eq_ipv4 = ipv4_less_eq"

definition less_ipv4 :: "ipv4 \<Rightarrow> ipv4 \<Rightarrow> bool" where
  "less_ipv4 = ipv4_less"

instance
proof
  fix x y z :: ipv4
  show "x < y \<longleftrightarrow> x \<le> y \<and> \<not> y \<le> x" by (simp add: less_eq_ipv4_def less_ipv4_def ipv4_less_eq_def ipv4_less_def less_le_not_le)
  show "x \<le> y \<Longrightarrow> y \<le> z \<Longrightarrow> x \<le> z" unfolding less_eq_ipv4_def ipv4_less_eq_def by (rule order_trans)
  show "x \<le> y \<Longrightarrow> y \<le> x \<Longrightarrow> x = y" unfolding less_eq_ipv4_def ipv4_less_eq_def ipv4_value_inj [symmetric] by (rule antisym)
  show "x \<le> x" "x \<le> y \<or> y \<le> x" by (simp_all add: less_eq_ipv4_def ipv4_less_eq_def linear)
qed

end

section \<open>IPv6\<close>

datatype ipv6 = IPv6 (ipv6_bytes: "byte list")

definition ipv6_default :: ipv6 where
  "ipv6_default = IPv6 (replicate 16 0)"

definition ipv6_localhost :: ipv6 where
  "ipv6_localhost = IPv6 (replicate 15 0 @ [1])"

definition ipv6_index :: "ipv6 \<Rightarrow> nat \<Rightarrow> byte" where
  "ipv6_index ip i = (if i < 16 then ipv6_bytes ip ! i else 0)"

definition ipv6_hash :: "ipv6 \<Rightarrow> 32 word" where
  "ipv6_hash ip = bernstein_hash (ipv6_bytes ip)"

definition ipv6_from_sin :: "byte list option \<Rightarrow> ipv6" where
  "ipv6_from_sin ptr = (case ptr of None \<Rightarrow> ipv6_default | Some bs \<Rightarrow> IPv6 (take 16 bs))"

definition ipv6_of_string :: "(string \<Rightarrow> int + byte list option) \<Rightarrow> string \<Rightarrow> ipv6 res" where
  "ipv6_of_string pton s = (case pton s of
      Inl err \<Rightarrow> Inl (System_error err)
    | Inr None \<Rightarrow> Inl (Invalid_argument ''Invalid IPv6 address'')
    | Inr (Some bs) \<Rightarrow> Inr (IPv6 bs))"

definition ipv6_str :: "(byte list \<Rightarrow> nat \<Rightarrow> int + string) \<Rightarrow> ipv6 \<Rightarrow> string res option" where
  "ipv6_str ntop ip = ntop_loop ntop 40 (ipv6_bytes ip) 40"

definition ipv6_less :: "ipv6 \<Rightarrow> ipv6 \<Rightarrow> bool" where
  "ipv6_less a b \<longleftrightarrow> mem_compare (ipv6_bytes a) (ipv6_bytes b) < 0"

definition ipv6_less_eq :: "ipv6 \<Rightarrow> ipv6 \<Rightarrow> bool" where
  "ipv6_less_eq a b \<longleftrightarrow> \<not> ipv6_less b a"

instantiation ipv6 :: linorder
begin

definition less_ipv6 :: "ipv6 \<Rightarrow> ipv6 \<Rightarrow> bool" where
  "less_ipv6 = ipv6_less"

definition less_eq_ipv6 :: "ipv6 \<Rightarrow> ipv6 \<Rightarrow> bool" where
  "less_eq_ipv6 = ipv6_less_eq"

instance
proof
  fix x y z :: ipv6
  note sw = mem_compare_swap [of "ipv6_bytes x" "ipv6_bytes y"]
  note val = mem_compare_values [of "ipv6_bytes x" "ipv6_bytes y"]
  show "x < y \<longleftrightarrow> x \<le> y \<and> \<not> y \<le> x" using sw val by (auto simp: less_ipv6_def less_eq_ipv6_def ipv6_less_eq_def ipv6_less_def)
  have "mem_compare (ipv6_bytes x) (ipv6_bytes x) = 0" by (simp add: mem_compare_eq)
  then show "x \<le> x" by (simp add: less_eq_ipv6_def ipv6_less_eq_def ipv6_less_def)
  show "x \<le> y \<or> y \<le> x" using sw val by (auto simp: less_eq_ipv6_def ipv6_less_eq_def ipv6_less_def)
  show "x = y" if "x \<le> y" "y \<le> x"
  proof -
    have "mem_compare (ipv6_bytes x) (ipv6_bytes y) = 0" using that sw val by (auto simp: less_eq_ipv6_def ipv6_less_eq_def ipv6_less_def)
    then show ?thesis by (simp add: mem_compare_eq ipv6.expand)
  qed
  show "x \<le> z" if "x \<le> y" "y \<le> z"
  proof (rule ccontr)
    assume "\<not> x \<le> z"
    then have zx: "mem_compare (ipv6_bytes z) (ipv6_bytes x) < 0" by (simp add: less_eq_ipv6_def ipv6_less_eq_def ipv6_less_def)
    have "mem_compare (ipv6_bytes x) (ipv6_bytes y) < 0 \<or> x = y"
      using that(1) sw val mem_compare_eq [of "ipv6_bytes x" "ipv6_bytes y"] by (auto simp: less_eq_ipv6_def ipv6_less_eq_def ipv6_less_def ipv6.expand)
    then have "mem_compare (ipv6_bytes z) (ipv6_bytes y) < 0" using zx mem_compare_trans by blast
    with that(2) show False by (simp add: less_eq_ipv6_def ipv6_less_eq_def ipv6_less_def)
  qed
qed

end

end
