(* ===== verification/Socket_Address.thy ===== *)
theory Socket_Address
  imports Net_Address
begin

text \<open>
  Class \<open>SocketAddress\<close> and \<open>parse_port\<close> of \<open>net.cpp\<close>, and the lists of addresses of \<open>Dns\<close>.
\<close>

section \<open>The class\<close>

record socket_address =
  sa_bytes :: "byte list"
  sa_size :: nat

definition AF_INET :: "16 word" where "AF_INET = 2"
definition AF_INET6 :: "16 word" where "AF_INET6 = 10"
definition sockaddr_size :: nat where "sockaddr_size = 16"
definition sa_max_size :: nat where "sa_max_size = 28"

definition sa_default :: socket_address where
  "sa_default = \<lparr>sa_bytes = replicate sa_max_size 0, sa_size = 0\<rparr>"

text \<open>\<open>sa_family\<close>, in the byte order of the machine.\<close>

definition family_bytes :: "16 word \<Rightarrow> byte list" where
  "family_bytes f = [of_nat (unat f), of_nat (unat f div 256)]"

definition bytes_family :: "byte list \<Rightarrow> 16 word" where
  "bytes_family bs = of_nat (unat (bs ! 0) + 256 * unat (bs ! 1))"

definition sa_ipv4 :: "ipv4 \<Rightarrow> 16 word \<Rightarrow> socket_address" where
  "sa_ipv4 ip port =
     \<lparr>sa_bytes = family_bytes AF_INET @ be_bytes 2 (unat port) @ ipv4_bytes ip @ replicate 20 0, sa_size = 16\<rparr>"

definition sa_ipv6 :: "ipv6 \<Rightarrow> 16 word \<Rightarrow> 32 word \<Rightarrow> 32 word \<Rightarrow> socket_address" where
  "sa_ipv6 ip port flow scope =
     \<lparr>sa_bytes = family_bytes AF_INET6 @ be_bytes 2 (unat port) @ be_bytes 4 (unat flow) @ ipv6_bytes ip
        @ be_bytes 4 (unat scope), sa_size = 28\<rparr>"

definition sa_raw :: "byte list \<Rightarrow> socket_address" where
  "sa_raw mem = (let n = min (length mem) sa_max_size in \<lparr>sa_bytes = take n mem @ replicate (sa_max_size - n) 0, sa_size = n\<rparr>)"

definition sa_family :: "socket_address \<Rightarrow> 16 word" where
  "sa_family sa = (if sa_size sa < sockaddr_size then 0 else bytes_family (sa_bytes sa))"

definition field :: "nat \<Rightarrow> nat \<Rightarrow> socket_address \<Rightarrow> byte list" where
  "field p n sa = take n (drop p (sa_bytes sa))"

definition sa_get_ipv4 :: "socket_address \<Rightarrow> ipv4" where
  "sa_get_ipv4 sa =
     (if sa_family sa = AF_INET then ipv4_of_value (of_nat (be_value (field 4 4 sa))) else ipv4_default)"

definition sa_get_ipv6 :: "socket_address \<Rightarrow> ipv6" where
  "sa_get_ipv6 sa = (if sa_family sa = AF_INET6 then ipv6_from_sin (Some (field 8 16 sa)) else ipv6_default)"

definition sa_port :: "socket_address \<Rightarrow> 16 word" where
  "sa_port sa = (if sa_family sa = AF_INET then of_nat (be_value (field 2 2 sa))
     else if sa_family sa = AF_INET6 then of_nat (be_value (field 2 2 sa)) else 0)"

definition sa_flow :: "socket_address \<Rightarrow> 32 word" where
  "sa_flow sa = (if sa_family sa = AF_INET6 then of_nat (be_value (field 4 4 sa)) else 0)"

definition sa_scope :: "socket_address \<Rightarrow> 32 word" where
  "sa_scope sa = (if sa_family sa = AF_INET6 then of_nat (be_value (field 24 4 sa)) else 0)"

definition sa_nonzero :: "socket_address \<Rightarrow> bool" where
  "sa_nonzero sa =
     (if sa_family sa = 0 then False
      else if sa_family sa = AF_INET then sa_get_ipv4 sa \<noteq> ipv4_default \<or> sa_port sa \<noteq> 0
      else if sa_family sa = AF_INET6 then sa_get_ipv6 sa \<noteq> ipv6_default \<or> sa_port sa \<noteq> 0
      else \<exists>b \<in> set (drop sockaddr_size (take (sa_size sa) (sa_bytes sa))). b \<noteq> 0)"

definition sa_hash :: "socket_address \<Rightarrow> 32 word" where
  "sa_hash sa = bernstein_hash (take (sa_size sa) (sa_bytes sa))"

definition sa_set_family :: "16 word \<Rightarrow> socket_address \<Rightarrow> socket_address" where
  "sa_set_family f sa = sa\<lparr>sa_size := (if sa_size sa < sockaddr_size then sockaddr_size else sa_size sa),
     sa_bytes := family_bytes f @ drop 2 (sa_bytes sa)\<rparr>"

definition sa_set_size :: "nat \<Rightarrow> socket_address \<Rightarrow> socket_address res" where
  "sa_set_size n sa =
     (if sa_max_size < n then Inl (Length_error ''SocketAddress size is too big'') else Inr (sa\<lparr>sa_size := n\<rparr>))"

definition sa_compare :: "socket_address \<Rightarrow> socket_address \<Rightarrow> int" where
  "sa_compare lhs rhs = mem_compare (take (sa_size lhs) (sa_bytes lhs)) (take (sa_size rhs) (sa_bytes rhs))"

definition sa_eq :: "socket_address \<Rightarrow> socket_address \<Rightarrow> bool" where
  "sa_eq lhs rhs = (sa_compare lhs rhs = 0)"

definition sa_less :: "socket_address \<Rightarrow> socket_address \<Rightarrow> bool" where
  "sa_less lhs rhs = (sa_compare lhs rhs < 0)"

section \<open>Text\<close>

definition hex_digit :: "nat \<Rightarrow> char" where
  "hex_digit d = ''0123456789abcdef'' ! d"

definition hex_bytes :: "byte list \<Rightarrow> string" where
  "hex_bytes bs = concat (map (\<lambda>b. [hex_digit (unat (drop_bit 4 b)), hex_digit (unat (take_bit 4 b))]) bs)"

definition opt_map :: "('a \<Rightarrow> 'b) \<Rightarrow> 'a res option \<Rightarrow> 'b res option" where
  "opt_map f = map_option (map_sum id f)"

definition sa_str ::
    "(byte list \<Rightarrow> nat \<Rightarrow> int + string) \<Rightarrow> (byte list \<Rightarrow> nat \<Rightarrow> int + string) \<Rightarrow> socket_address \<Rightarrow> string res option" where
  "sa_str ntop4 ntop6 sa =
     (if sa_eq sa sa_default then Some (Inr ''null'')
      else if sa_family sa = AF_INET
      then opt_map (\<lambda>s. s @ '':'' @ to_string (unat (sa_port sa))) (ipv4_str ntop4 (sa_get_ipv4 sa))
      else if sa_family sa = AF_INET6
      then opt_map (\<lambda>s. ''['' @ s @ '']:'' @ to_string (unat (sa_port sa))) (ipv6_str ntop6 (sa_get_ipv6 sa))
      else Some (Inr (hex_bytes (take (sa_size sa) (sa_bytes sa)))))"

text \<open>\<open>errno\<close> is set by \<open>strtoull\<close> only where the value does not fit into 64 bits, and then the number is
  larger than 65535 as well.\<close>

definition parse_port :: "string \<Rightarrow> 16 word res" where
  "parse_port s = (case strtoull s of (n, used) \<Rightarrow>
     if used \<noteq> length s \<or> 65535 < n then Inl (Invalid_argument ''Invalid port number'') else Inr (of_nat n))"

definition sa_of_string ::
    "(string \<Rightarrow> int + byte list option) \<Rightarrow> (string \<Rightarrow> int + byte list option) \<Rightarrow> string \<Rightarrow> socket_address res" where
  "sa_of_string pton4 pton6 s =
     (if s \<noteq> [] \<and> is_digit (s ! 0)
      then (let colon = find_from ((=) CHR '':'') s 0
            in if (case colon of None \<Rightarrow> False | Some c \<Rightarrow> find_from ((=) CHR '':'') s (c + 1) \<noteq> None)
               then res_bind (ipv6_of_string pton6 s) (\<lambda>ip. Inr (sa_ipv6 ip 0 0 0))
               else res_bind (ipv4_of_string pton4 (case colon of None \<Rightarrow> s | Some c \<Rightarrow> substr s 0 c))
                      (\<lambda>ip. res_bind (case colon of None \<Rightarrow> Inr 0 | Some c \<Rightarrow> parse_port (drop (c + 1) s))
                        (\<lambda>port. Inr (sa_ipv4 ip port))))
      else case (if s \<noteq> [] \<and> s ! 0 = CHR ''['' then find_from ((=) CHR '']'') s 0 else None) of
          Some close \<Rightarrow>
            res_bind (ipv6_of_string pton6 (substr s 1 (close - 1)))
              (\<lambda>ip. res_bind (if close + 2 < length s then parse_port (drop (close + 2) s) else Inr 0)
                (\<lambda>port. Inr (sa_ipv6 ip port 0 0)))
        | None \<Rightarrow> Inl (Invalid_argument ''Invalid socket address''))"

section \<open>DNS queries\<close>

datatype gai_code = Gai_ok | Gai_again | Gai_noname | Gai_overflow | Gai_system | Gai_other int

text \<open>\<open>getaddrinfo\<close> gives a code, the error number and the addresses found.\<close>

definition host_to_ip ::
    "(string \<Rightarrow> int \<Rightarrow> gai_code \<times> int \<times> byte list list) \<Rightarrow> string \<Rightarrow> int \<Rightarrow> socket_address res" where
  "host_to_ip getaddrinfo nm family = (case getaddrinfo nm family of (rc, err, infos) \<Rightarrow>
     (case rc of
        Gai_ok \<Rightarrow> Inr (sa_raw (hd infos))
      | Gai_again \<Rightarrow> Inr sa_default
      | Gai_noname \<Rightarrow> Inr sa_default
      | Gai_system \<Rightarrow> Inl (System_error err)
      | Gai_overflow \<Rightarrow> Inl (System_error (-12))
      | Gai_other rc \<Rightarrow> Inl (System_error rc)))"

text \<open>The loop over the list, with the set \<open>seen\<close>: its elements are found by \<open>operator<\<close>.\<close>

definition in_seen :: "socket_address \<Rightarrow> socket_address list \<Rightarrow> bool" where
  "in_seen sa seen \<longleftrightarrow> (\<exists>x \<in> set seen. \<not> sa_less x sa \<and> \<not> sa_less sa x)"

fun collect_addrs :: "byte list list \<Rightarrow> socket_address list \<Rightarrow> socket_address list" where
  "collect_addrs [] addrs = addrs"
| "collect_addrs (ai # infos) addrs =
     (let sa = sa_raw ai
      in collect_addrs infos (if sa_nonzero sa \<and> \<not> in_seen sa addrs then addrs @ [sa] else addrs))"

definition host_to_ips ::
    "(string \<Rightarrow> int \<Rightarrow> gai_code \<times> int \<times> byte list list) \<Rightarrow> string \<Rightarrow> int \<Rightarrow> socket_address list res" where
  "host_to_ips getaddrinfo nm family = (case getaddrinfo nm family of (rc, err, infos) \<Rightarrow>
     (case rc of
        Gai_ok \<Rightarrow> Inr (collect_addrs infos [])
      | Gai_again \<Rightarrow> Inr []
      | Gai_noname \<Rightarrow> Inr []
      | Gai_system \<Rightarrow> Inl (System_error err)
      | Gai_overflow \<Rightarrow> Inl (System_error (-12))
      | Gai_other rc \<Rightarrow> Inl (System_error rc)))"

partial_function (option) ip_to_host_loop ::
    "(byte list \<Rightarrow> nat \<Rightarrow> gai_code \<times> int \<times> string) \<Rightarrow> byte list \<Rightarrow> nat \<Rightarrow> string res option" where
  "ip_to_host_loop getnameinfo addr n = (case getnameinfo addr n of (rc, err, nm) \<Rightarrow>
     (case rc of
        Gai_ok \<Rightarrow> Some (Inr (null_term nm))
      | Gai_again \<Rightarrow> Some (Inr [])
      | Gai_noname \<Rightarrow> Some (Inr [])
      | Gai_overflow \<Rightarrow> ip_to_host_loop getnameinfo addr (2 * n)
      | Gai_system \<Rightarrow> Some (Inl (System_error err))
      | Gai_other rc \<Rightarrow> Some (Inl (System_error rc))))"

definition ip_to_host :: "(byte list \<Rightarrow> nat \<Rightarrow> gai_code \<times> int \<times> string) \<Rightarrow> socket_address \<Rightarrow> string res option" where
  "ip_to_host getnameinfo addr = ip_to_host_loop getnameinfo (take (sa_size addr) (sa_bytes addr)) 100"

section \<open>Properties\<close>

lemma family_roundtrip: "bytes_family (family_bytes f @ r) = f"
proof -
  have "unat f < 65536" using unsigned_less [of f] by simp
  then have "unat f div 256 < 256" by simp
  then have "unat f mod 256 + 256 * (unat f div 256 mod 256) = unat f" by (simp only: mod_less mod_mult_div_eq)
  then have "(of_nat (unat f mod 256 + 256 * (unat f div 256 mod 256)) :: 16 word) = f" by (simp only: of_nat_unat ucast_id)
  then show ?thesis
    unfolding bytes_family_def family_bytes_def
    by (simp only: append_Cons nth_Cons_0 One_nat_def nth_Cons_Suc unat_of_nat_byte)
qed

lemma be_value_2 [simp]: "(of_nat (be_value (be_bytes 2 (unat (p :: 16 word)))) :: 16 word) = p"
proof -
  have "unat p < 65536" using unsigned_less [of p] by simp
  then have "be_value (be_bytes 2 (unat p)) = unat p" by (simp only: be_value_bytes) simp
  then show ?thesis by simp
qed

lemma be_value_4 [simp]: "(of_nat (be_value (be_bytes 4 (unat (p :: 32 word)))) :: 32 word) = p"
proof -
  have "unat p < 4294967296" using unsigned_less [of p] by simp
  then have "be_value (be_bytes 4 (unat p)) = unat p" by (simp only: be_value_bytes) simp
  then show ?thesis by simp
qed

lemma length_family_bytes [simp]: "length (family_bytes f) = 2"
  by (simp add: family_bytes_def)

lemma field_seg: "length A = p \<Longrightarrow> length B = n \<Longrightarrow> field p n \<lparr>sa_bytes = A @ B @ C, sa_size = k\<rparr> = B"
  by (simp add: field_def)

lemma sa_ipv4_access:
  "sa_family (sa_ipv4 ip port) = AF_INET" "sa_get_ipv4 (sa_ipv4 ip port) = ip" "sa_port (sa_ipv4 ip port) = port"
proof -
  let ?sa = "sa_ipv4 ip port"
  show f: "sa_family ?sa = AF_INET" by (simp add: sa_family_def sa_ipv4_def sockaddr_size_def family_roundtrip)
  have "field 2 2 ?sa = be_bytes 2 (unat port)"
    unfolding sa_ipv4_def by (rule field_seg) simp_all
  then show "sa_port ?sa = port" by (simp add: sa_port_def f)
  have "field 4 4 ?sa = ipv4_bytes ip"
    using field_seg [of "family_bytes AF_INET @ be_bytes 2 (unat port)" 4 "ipv4_bytes ip" 4] by (simp add: sa_ipv4_def)
  then have "ipv4_of_value (of_nat (be_value (field 4 4 ?sa))) = ipv4_of_value (ipv4_value ip)" by (simp add: ipv4_value_def)
  then show "sa_get_ipv4 ?sa = ip" by (simp add: sa_get_ipv4_def f)
qed

lemma AF_distinct [simp]: "AF_INET6 \<noteq> AF_INET" "AF_INET \<noteq> AF_INET6" "AF_INET \<noteq> 0" "AF_INET6 \<noteq> 0"
  by (simp_all add: AF_INET_def AF_INET6_def)

lemma sa_ipv6_access:
  assumes "length (ipv6_bytes ip) = 16"
  shows "sa_family (sa_ipv6 ip port flow scope) = AF_INET6" and "sa_get_ipv6 (sa_ipv6 ip port flow scope) = ip"
    and "sa_port (sa_ipv6 ip port flow scope) = port" and "sa_flow (sa_ipv6 ip port flow scope) = flow"
    and "sa_scope (sa_ipv6 ip port flow scope) = scope"
proof -
  let ?sa = "sa_ipv6 ip port flow scope"
  let ?a = "family_bytes AF_INET6" and ?b = "be_bytes 2 (unat port)" and ?c = "be_bytes 4 (unat flow)"
    and ?d = "ipv6_bytes ip" and ?e = "be_bytes 4 (unat scope)"
  show f: "sa_family ?sa = AF_INET6" by (simp add: sa_family_def sa_ipv6_def sockaddr_size_def family_roundtrip)
  have "field 2 2 ?sa = ?b" unfolding sa_ipv6_def by (rule field_seg) simp_all
  then show "sa_port ?sa = port" by (simp add: sa_port_def f)
  have "field 4 4 ?sa = ?c" using field_seg [of "?a @ ?b" 4 ?c 4] by (simp add: sa_ipv6_def)
  then show "sa_flow ?sa = flow" by (simp add: sa_flow_def f)
  have "field 8 16 ?sa = ?d" using field_seg [of "?a @ ?b @ ?c" 8 ?d 16] assms by (simp add: sa_ipv6_def)
  then have "sa_get_ipv6 ?sa = IPv6 (ipv6_bytes ip)" using assms by (simp add: sa_get_ipv6_def f ipv6_from_sin_def)
  then show "sa_get_ipv6 ?sa = ip" by simp
  have "field 24 4 ?sa = ?e" using field_seg [of "?a @ ?b @ ?c @ ?d" 24 ?e 4 "[]"] assms by (simp add: sa_ipv6_def)
  then show "sa_scope ?sa = scope" by (simp add: sa_scope_def f)
qed

text \<open>
  The constructors of \<open>SocketAddress\<close> and its accessors are inverse: the address, the port, the
  flow number and the scope come back, whatever the byte order in memory.
\<close>

theorem sa_fields_roundtrip:
  assumes "length (ipv6_bytes ip6) = 16"
  shows "sa_family (sa_ipv4 ip port) = AF_INET \<and> sa_get_ipv4 (sa_ipv4 ip port) = ip \<and> sa_port (sa_ipv4 ip port) = port
    \<and> sa_family (sa_ipv6 ip6 port flow scope) = AF_INET6 \<and> sa_get_ipv6 (sa_ipv6 ip6 port flow scope) = ip6
    \<and> sa_port (sa_ipv6 ip6 port flow scope) = port \<and> sa_flow (sa_ipv6 ip6 port flow scope) = flow
    \<and> sa_scope (sa_ipv6 ip6 port flow scope) = scope
    \<and> ipv4_value (ipv4_of_value w) = w \<and> ipv4_of_value (ipv4_value ip) = ip"
  using sa_ipv4_access [of ip port] sa_ipv6_access [OF assms, of port flow scope] by simp

theorem sa_fields_roundtrip_witness:
  "sa_port (sa_ipv6 ipv6_localhost 8080 1 2) = 8080 \<and> sa_scope (sa_ipv6 ipv6_localhost 8080 1 2) = 2"
  using sa_fields_roundtrip [of ipv6_localhost ipv4_any 8080 1 2 0] by (simp add: ipv6_localhost_def)

text \<open>
  The comparison of addresses is a total order with \<open>==\<close> as its equality: exactly one of less,
  equal and greater holds, the order is transitive, equality means the same bytes in use, and for
  IPv4 addresses the order of the bytes is the order of the 32-bit values.
\<close>

theorem sa_total_order:
  "(sa_less a b \<longleftrightarrow> \<not> sa_eq a b \<and> \<not> sa_less b a)
    \<and> (sa_less a b \<and> sa_less b c \<longrightarrow> sa_less a c)
    \<and> (sa_eq a b \<longleftrightarrow> take (sa_size a) (sa_bytes a) = take (sa_size b) (sa_bytes b))
    \<and> (ip < (jp :: ipv4) \<longleftrightarrow> mem_compare (ipv4_bytes ip) (ipv4_bytes jp) < 0)"
proof (intro conjI impI)
  let ?x = "\<lambda>s. take (sa_size s) (sa_bytes s)"
  have v: "mem_compare (?x a) (?x b) = -1 \<or> mem_compare (?x a) (?x b) = 0 \<or> mem_compare (?x a) (?x b) = 1"
    by (rule mem_compare_values)
  show "sa_less a b \<longleftrightarrow> \<not> sa_eq a b \<and> \<not> sa_less b a"
    using v mem_compare_swap [of "?x a" "?x b"] by (auto simp: sa_less_def sa_eq_def sa_compare_def)
  show "sa_less a c" if "sa_less a b \<and> sa_less b c"
    using that mem_compare_trans unfolding sa_less_def sa_compare_def by blast
  show "sa_eq a b \<longleftrightarrow> ?x a = ?x b" by (simp add: sa_eq_def sa_compare_def mem_compare_eq)
  have "length (ipv4_bytes ip) = length (ipv4_bytes jp)" by simp
  from mem_compare_value [OF this] show "ip < jp \<longleftrightarrow> mem_compare (ipv4_bytes ip) (ipv4_bytes jp) < 0"
    by (simp add: less_ipv4_def ipv4_less_def word_less_nat_alt ipv4_value_unat)
qed

theorem sa_total_order_witness:
  "ipv4_localhost < ipv4_broadcast \<and> (sa_less sa_default (sa_ipv4 ipv4_any 0) \<longrightarrow> sa_less sa_default (sa_ipv4 ipv4_any 0))"
  using sa_total_order [of sa_default "sa_ipv4 ipv4_any 0" sa_default ipv4_localhost ipv4_broadcast]
  by (simp add: less_ipv4_def ipv4_less_def ipv4_localhost_def ipv4_broadcast_def)

section \<open>Literals\<close>

text \<open>\<open>operator""_ip4\<close> and so on: \<open>p\<close> is \<^const>\<open>None\<close> for a null pointer.\<close>

definition ip4_literal :: "(string \<Rightarrow> int + byte list option) \<Rightarrow> string option \<Rightarrow> ipv4 res" where
  "ip4_literal pton p = (case p of None \<Rightarrow> Inr ipv4_default | Some s \<Rightarrow> if s = [] then Inr ipv4_default else ipv4_of_string pton s)"

definition ip6_literal :: "(string \<Rightarrow> int + byte list option) \<Rightarrow> string option \<Rightarrow> ipv6 res" where
  "ip6_literal pton p = (case p of None \<Rightarrow> Inr ipv6_default | Some s \<Rightarrow> if s = [] then Inr ipv6_default else ipv6_of_string pton s)"

definition sa_literal ::
    "(string \<Rightarrow> int + byte list option) \<Rightarrow> (string \<Rightarrow> int + byte list option) \<Rightarrow> string option \<Rightarrow> socket_address res" where
  "sa_literal pton4 pton6 p =
     (case p of None \<Rightarrow> Inr sa_default | Some s \<Rightarrow> if s = [] then Inr sa_default else sa_of_string pton4 pton6 s)"

end
