(* ===== verification/Address_Text.thy ===== *)
theory Address_Text
  imports Socket_Address
begin

text \<open>
  The text of socket addresses: what \<open>SocketAddress::str\<close> prints, the constructor from a string reads. The
  functions \<open>inet_ntop\<close> and \<open>inet_pton\<close> of the C library are parameters; \<open>inet4_ok\<close> and \<open>inet6_ok\<close> are
  their documented behaviour on one address.
\<close>

section \<open>inet_ntop and inet_pton\<close>

definition dotted :: "ipv4 \<Rightarrow> string" where
  "dotted ip = (case ip of IPv4 a b c d \<Rightarrow>
     to_string (unat a) @ ''.'' @ to_string (unat b) @ ''.'' @ to_string (unat c) @ ''.'' @ to_string (unat d))"

text \<open>A buffer of 16 bytes is enough for the dotted decimal notation; a null byte ends the text.\<close>

definition inet4_ok ::
    "(byte list \<Rightarrow> nat \<Rightarrow> int + string) \<Rightarrow> (string \<Rightarrow> int + byte list option) \<Rightarrow> ipv4 \<Rightarrow> bool" where
  "inet4_ok ntop pton ip \<longleftrightarrow>
     (\<exists>r. ntop (ipv4_bytes ip) 16 = Inr (dotted ip @ CHR 0x00 # r)) \<and> pton (dotted ip) = Inr (Some (ipv4_bytes ip))"

text \<open>The text \<open>t\<close> of an IPv6 address has at most 45 characters; a buffer that is too short gives \<open>ENOSPC\<close>.\<close>

definition inet6_ok ::
    "(byte list \<Rightarrow> nat \<Rightarrow> int + string) \<Rightarrow> (string \<Rightarrow> int + byte list option) \<Rightarrow> string \<Rightarrow> ipv6 \<Rightarrow> bool" where
  "inet6_ok ntop pton t ip \<longleftrightarrow> length t \<le> 45 \<and> CHR '']'' \<notin> set t \<and> CHR 0x00 \<notin> set t
     \<and> (\<forall>n. if length t < n then \<exists>r. ntop (ipv6_bytes ip) n = Inr (t @ CHR 0x00 # r)
             else ntop (ipv6_bytes ip) n = Inl ENOSPC)
     \<and> pton t = Inr (Some (ipv6_bytes ip))"

lemma null_term_append: "CHR 0x00 \<notin> set t \<Longrightarrow> null_term (t @ CHR 0x00 # r) = t"
proof -
  assume "CHR 0x00 \<notin> set t"
  then have "\<forall>x \<in> set t. CHR 0x00 \<noteq> x" by blast
  from find_from_0_append [OF this, of "CHR 0x00" r] show ?thesis by (simp add: null_term_def str_resize_def)
qed

lemma digit_not_special: "is_digit c \<Longrightarrow> c \<noteq> CHR '':'' \<and> c \<noteq> CHR 0x00 \<and> c \<noteq> CHR ''[''"
  by (auto simp: is_digit_def)

lemma to_string_chars: "c \<in> set (to_string n) \<Longrightarrow> c \<noteq> CHR '':'' \<and> c \<noteq> CHR 0x00"
  using to_string_digits [of n] digit_not_special by blast

lemma dotted_chars: "c \<in> set (dotted ip) \<Longrightarrow> c \<noteq> CHR '':'' \<and> c \<noteq> CHR 0x00"
  by (cases ip) (auto simp: dotted_def dest: to_string_chars)

lemma dotted_digit: "dotted ip \<noteq> [] \<and> is_digit (dotted ip ! 0)"
proof (cases ip)
  case (IPv4 a b c d)
  have "is_digit (to_string (unat a) ! 0)" using to_string_digits [of "unat a"] by (simp add: nth_mem)
  then show ?thesis using IPv4 by (simp add: dotted_def nth_append)
qed

lemma ipv4_str_dotted: "inet4_ok ntop pton ip \<Longrightarrow> ipv4_str ntop ip = Some (Inr (dotted ip))"
proof -
  assume "inet4_ok ntop pton ip"
  then obtain r where "ntop (ipv4_bytes ip) 16 = Inr (dotted ip @ CHR 0x00 # r)" by (auto simp: inet4_ok_def)
  moreover have "CHR 0x00 \<notin> set (dotted ip)" using dotted_chars by blast
  ultimately show ?thesis by (simp add: ipv4_str_def ntop_loop.simps [of _ _ _ 16] null_term_append)
qed

lemma ipv6_str_text: "inet6_ok ntop pton t ip \<Longrightarrow> ipv6_str ntop ip = Some (Inr t)"
proof -
  assume a: "inet6_ok ntop pton t ip"
  have buf: "\<exists>r. ntop (ipv6_bytes ip) n = Inr (t @ CHR 0x00 # r)" if "length t < n" for n
    using a that by (auto simp: inet6_ok_def)
  have fin: "ntop_loop ntop 40 (ipv6_bytes ip) n = Some (Inr t)" if "length t < n" for n
    using buf [OF that] a by (auto simp: ntop_loop.simps [of _ _ _ n] inet6_ok_def null_term_append)
  show ?thesis
  proof (cases "length t < 40")
    case True
    then show ?thesis by (simp add: ipv6_str_def fin)
  next
    case False
    then have "ntop (ipv6_bytes ip) 40 = Inl ENOSPC" using a by (auto simp: inet6_ok_def)
    then have "ntop_loop ntop 40 (ipv6_bytes ip) 40 = ntop_loop ntop 40 (ipv6_bytes ip) (40 + 40)"
      by (subst ntop_loop.simps) (simp add: ENOSPC_def)
    also have "\<dots> = Some (Inr t)" using a by (intro fin) (auto simp: inet6_ok_def)
    finally show ?thesis by (simp add: ipv6_str_def)
  qed
qed

section \<open>Ports\<close>

lemma parse_port_to_string: "parse_port (to_string (unat (p :: 16 word))) = Inr p"
proof -
  have "unat p < 65536" using unsigned_less [of p] by simp
  then show ?thesis using strtoull_to_string [of "unat p" "[]"] by (simp add: parse_port_def)
qed

text \<open>What else \<open>parse_port\<close> takes for a number: nothing at all, and a sign.\<close>

lemma parse_port_lenient: "parse_port [] = Inr 0" "parse_port ''+80'' = Inr 80" "parse_port '' 80'' = Inr 80"
  by (simp_all add: parse_port_def strtoull_def is_digit_def is_space_def digits_val_def digit_val_def)

section \<open>Property\<close>

text \<open>
  C32. The text of an address with a port, made by \<open>str\<close>, gives the address back when the constructor reads it;
  for IPv6 the flow number and the scope are not part of the text. The loop of \<open>IPv6::str\<close> ends with the
  second buffer at the latest.
\<close>

theorem sa_text_roundtrip:
  assumes "inet4_ok ntop4 pton4 ip4" and "inet6_ok ntop6 pton6 t6 ip6" and "length (ipv6_bytes ip6) = 16"
  shows "(\<exists>t. sa_str ntop4 ntop6 (sa_ipv4 ip4 port) = Some (Inr t) \<and> sa_of_string pton4 pton6 t = Inr (sa_ipv4 ip4 port))
    \<and> (\<exists>t. sa_str ntop4 ntop6 (sa_ipv6 ip6 port flow scope) = Some (Inr t)
          \<and> sa_of_string pton4 pton6 t = Inr (sa_ipv6 ip6 port 0 0))"
proof (intro conjI exI)
  let ?a = "sa_ipv4 ip4 port" and ?b = "sa_ipv6 ip6 port flow scope"
  let ?p = "to_string (unat port)"
  have "\<not> sa_eq ?a sa_default" by (simp add: sa_eq_def sa_compare_def mem_compare_eq sa_default_def sa_ipv4_def family_bytes_def)
  then show "sa_str ntop4 ntop6 ?a = Some (Inr (dotted ip4 @ '':'' @ ?p))"
    using ipv4_str_dotted [OF assms(1)] by (simp add: sa_str_def sa_ipv4_access opt_map_def)
  have "\<not> sa_eq ?b sa_default" by (simp add: sa_eq_def sa_compare_def mem_compare_eq sa_default_def sa_ipv6_def family_bytes_def)
  then show "sa_str ntop4 ntop6 ?b = Some (Inr (''['' @ t6 @ '']:'' @ ?p))"
    using ipv6_str_text [OF assms(2)] by (simp add: sa_str_def sa_ipv6_access [OF assms(3)] opt_map_def)
  have c: "find_from ((=) CHR '':'') (dotted ip4 @ '':'' @ ?p) 0 = Some (length (dotted ip4))"
    using find_from_0_append [of "dotted ip4" "(=) CHR '':''" "CHR '':''" ?p] dotted_chars by force
  have "find_from ((=) CHR '':'') ((dotted ip4 @ '':'') @ ?p) (length (dotted ip4 @ '':'')) = None"
    unfolding find_from_append using to_string_chars by (subst find_from_0_None) auto
  then have n: "find_from ((=) CHR '':'') (dotted ip4 @ '':'' @ ?p) (length (dotted ip4) + 1) = None" by simp
  have d: "is_digit ((dotted ip4 @ '':'' @ ?p) ! 0)" using dotted_digit [of ip4] by (simp add: nth_append)
  show "sa_of_string pton4 pton6 (dotted ip4 @ '':'' @ ?p) = Inr ?a"
    using c n d assms(1) parse_port_to_string [of port]
    by (simp add: sa_of_string_def substr_def ipv4_of_string_def inet4_ok_def Let_def)
  have e: "find_from ((=) CHR '']'') (''['' @ t6 @ '']:'' @ ?p) 0 = Some (length t6 + 1)"
    using find_from_0_append [of "''['' @ t6" "(=) CHR '']''" "CHR '']''" "'':'' @ ?p"] assms(2) by (auto simp: inet6_ok_def)
  have "\<not> is_digit CHR ''[''" by code_simp
  then show "sa_of_string pton4 pton6 (''['' @ t6 @ '']:'' @ ?p) = Inr (sa_ipv6 ip6 port 0 0)"
    using e assms(2) parse_port_to_string [of port]
    by (simp add: sa_of_string_def substr_def ipv6_of_string_def inet6_ok_def)
qed

definition localhost_pton :: "string \<Rightarrow> byte list \<Rightarrow> string \<Rightarrow> int + byte list option" where
  "localhost_pton t bs s = (if s = t then Inr (Some bs) else Inr None)"

definition localhost_ntop :: "string \<Rightarrow> byte list \<Rightarrow> nat \<Rightarrow> int + string" where
  "localhost_ntop t bs n = (if length t < n then Inr (t @ replicate (n - length t) CHR 0x00) else Inl ENOSPC)"

theorem sa_text_roundtrip_witness:
  "\<exists>t. sa_str (localhost_ntop ''127.0.0.1'') (localhost_ntop ''::1'') (sa_ipv4 (IPv4 127 0 0 1) 8080) = Some (Inr t)
     \<and> sa_of_string (localhost_pton ''127.0.0.1'' [127, 0, 0, 1]) (localhost_pton ''::1'' (ipv6_bytes ipv6_localhost)) t
         = Inr (sa_ipv4 (IPv4 127 0 0 1) 8080)"
proof -
  have "dotted (IPv4 127 0 0 1) = ''127.0.0.1''" by code_simp
  then have 4: "inet4_ok (localhost_ntop ''127.0.0.1'') (localhost_pton ''127.0.0.1'' [127, 0, 0, 1]) (IPv4 127 0 0 1)"
    by (simp add: inet4_ok_def localhost_ntop_def localhost_pton_def ipv4_bytes_def numeral_eq_Suc)
  have "\<exists>r. replicate (n - 3) (CHR 0x00) = CHR 0x00 # r" if "3 < n" for n
    using that by (cases "n - 3") auto
  then have 6: "inet6_ok (localhost_ntop ''::1'') (localhost_pton ''::1'' (ipv6_bytes ipv6_localhost)) ''::1'' ipv6_localhost"
    by (simp add: inet6_ok_def localhost_ntop_def localhost_pton_def eval_nat_numeral)
  show ?thesis using sa_text_roundtrip [OF 4 6, of 8080 0 0] by (simp add: ipv6_localhost_def)
qed

end
