(* ===== verification/Net_Socket.thy ===== *)
theory Net_Socket
  imports Socket_Address Time_Conv
begin

text \<open>
  The socket classes of \<open>net.cpp\<close> (\<open>Socket\<close>, \<open>TcpClient\<close>, \<open>TcpServer\<close>, \<open>UdpClient\<close> and
  \<open>SocketSet::do_select\<close>). The socket calls of the operating system are fields of a record: each call
  gives what it returns, the error number it leaves and the state of the world after it. A
  \<open>Socket\<close> is its descriptor \<open>sock_\<close>, which is \<open>no_socket\<close> when the socket is closed.
\<close>

section \<open>The operating system\<close>

record 'w net_system =
  os_socket :: "int \<Rightarrow> int \<Rightarrow> int \<Rightarrow> 'w \<Rightarrow> (int \<times> int) \<times> 'w"
  os_close :: "int \<Rightarrow> 'w \<Rightarrow> 'w"
  os_getsockname :: "int \<Rightarrow> 'w \<Rightarrow> (int \<times> int) \<times> byte list \<times> 'w"
  os_getpeername :: "int \<Rightarrow> 'w \<Rightarrow> (int \<times> int) \<times> byte list \<times> 'w"
  os_ioctl :: "int \<Rightarrow> int \<Rightarrow> 'w \<Rightarrow> (int \<times> int) \<times> 'w"
  os_setsockopt :: "int \<Rightarrow> int \<Rightarrow> int \<Rightarrow> int \<Rightarrow> 'w \<Rightarrow> (int \<times> int) \<times> 'w"
  os_bind :: "int \<Rightarrow> byte list \<Rightarrow> 'w \<Rightarrow> (int \<times> int) \<times> 'w"
  os_connect :: "int \<Rightarrow> byte list \<Rightarrow> 'w \<Rightarrow> (int \<times> int) \<times> 'w"
  os_listen :: "int \<Rightarrow> int \<Rightarrow> 'w \<Rightarrow> (int \<times> int) \<times> 'w"
  os_accept :: "int \<Rightarrow> 'w \<Rightarrow> (int \<times> int) \<times> 'w"
  os_select :: "int \<Rightarrow> int list \<Rightarrow> int list \<Rightarrow> timeval \<Rightarrow> 'w \<Rightarrow> (int \<times> int) \<times> (int list \<times> int list) \<times> 'w"
  os_recv :: "int \<Rightarrow> nat \<Rightarrow> 'w \<Rightarrow> (int \<times> int) \<times> byte list \<times> 'w"
  os_recvfrom :: "int \<Rightarrow> nat \<Rightarrow> 'w \<Rightarrow> (int \<times> int) \<times> (byte list \<times> byte list) \<times> 'w"
  os_send :: "int \<Rightarrow> byte list \<Rightarrow> 'w \<Rightarrow> (int \<times> int) \<times> 'w"
  os_sendto :: "int \<Rightarrow> byte list \<Rightarrow> byte list \<Rightarrow> 'w \<Rightarrow> (int \<times> int) \<times> 'w"
  os_sleep :: "'w \<Rightarrow> 'w"

definition no_socket :: int where "no_socket = -1"
definition EAGAIN :: int where "EAGAIN = 11"
definition EBADF :: int where "EBADF = 9"
definition PF_INET :: int where "PF_INET = 2"
definition SOCK_STREAM :: int where "SOCK_STREAM = 1"
definition SOCK_DGRAM :: int where "SOCK_DGRAM = 2"
definition IPPROTO_TCP :: int where "IPPROTO_TCP = 6"
definition TCP_NODELAY :: int where "TCP_NODELAY = 1"
definition SOL_SOCKET :: int where "SOL_SOCKET = 1"
definition SO_REUSEADDR :: int where "SO_REUSEADDR = 2"

text \<open>\<open>NetResult::fail_if\<close>: the value, or the exception with the error number when it is \<open>t\<close>.\<close>

definition fail_if :: "int \<Rightarrow> int \<times> int \<Rightarrow> int res" where
  "fail_if t r = (case r of (rc, err) \<Rightarrow> if rc = t then Inl (System_error err) else Inr rc)"

text \<open>A call checked by \<open>fail_if\<close> followed by the rest of the function, which is skipped when it throws.\<close>

definition net_then ::
    "int \<Rightarrow> (int \<times> int) \<times> 'w \<Rightarrow> (int \<Rightarrow> 'w \<Rightarrow> 'b res \<times> 'w) \<Rightarrow> 'b res \<times> 'w" where
  "net_then t call k = (case call of (r, w) \<Rightarrow> (case fail_if t r of Inl e \<Rightarrow> (Inl e, w) | Inr rc \<Rightarrow> k rc w))"

definition res_then :: "'a res \<times> 'w \<Rightarrow> ('a \<Rightarrow> 'w \<Rightarrow> 'b res \<times> 'w) \<Rightarrow> 'b res \<times> 'w" where
  "res_then call k = (case call of (Inl e, w) \<Rightarrow> (Inl e, w) | (Inr x, w) \<Rightarrow> k x w)"

definition control_blocking :: "'w net_system \<Rightarrow> int \<Rightarrow> bool \<Rightarrow> 'w \<Rightarrow> unit res \<times> 'w" where
  "control_blocking os sock flag w =
     net_then (-1) (os_ioctl os sock (if flag then 0 else 1) w) (\<lambda>_ w. (Inr (), w))"

definition control_nagle :: "'w net_system \<Rightarrow> int \<Rightarrow> bool \<Rightarrow> 'w \<Rightarrow> unit res \<times> 'w" where
  "control_nagle os sock flag w =
     net_then (-1) (os_setsockopt os sock IPPROTO_TCP TCP_NODELAY (if flag then 0 else 1) w) (\<lambda>_ w. (Inr (), w))"

section \<open>SocketSet::do_select\<close>

text \<open>The first loop: the descriptors put into the set and the largest of them.\<close>

definition select_fds :: "int list \<Rightarrow> int list" where
  "select_fds sockets = List.filter (\<lambda>s. s \<noteq> no_socket) sockets"

definition select_last :: "int list \<Rightarrow> int" where
  "select_last sockets = foldl (\<lambda>last s. max last s) (-1) (select_fds sockets)"

text \<open>The last loop: the first socket that is readable or has an exception.\<close>

fun select_pos :: "int list \<Rightarrow> int list \<Rightarrow> int list \<Rightarrow> nat \<Rightarrow> nat option" where
  "select_pos [] rfds efds i = None"
| "select_pos (s # sockets) rfds efds i =
     (if s \<noteq> no_socket \<and> (s \<in> set rfds \<or> s \<in> set efds) then Some i else select_pos sockets rfds efds (Suc i))"

text \<open>The result and \<open>index\<close>, \<^const>\<open>None\<close> for \<open>npos\<close>. A duration counts nanoseconds.\<close>

definition do_select :: "'w net_system \<Rightarrow> int list \<Rightarrow> int \<Rightarrow> 'w \<Rightarrow> (int \<times> nat option) res \<times> 'w" where
  "do_select os sockets t w =
     (let fds = select_fds sockets;
          tv = (if 0 < t then duration_to_timeval 1 t else make_timeval 0)
      in case os_select os (select_last sockets + 1) fds fds tv w of
           ((rc, err), (rfds, efds), w') \<Rightarrow>
             (if rc = 0 then Inr (0, None)
              else if rc = -1 \<and> err = EBADF then Inr (-1, None)
              else res_bind (fail_if (-1) (rc, err))
                (\<lambda>_. case select_pos sockets rfds efds 0 of None \<Rightarrow> Inr (0, None) | Some pos \<Rightarrow> Inr (1, Some pos)),
              w'))"

section \<open>Socket\<close>

definition socket_open :: "'w net_system \<Rightarrow> int \<Rightarrow> int \<Rightarrow> int \<Rightarrow> 'w \<Rightarrow> int res \<times> 'w" where
  "socket_open os domain ty protocol w = net_then no_socket (os_socket os domain ty protocol w) (\<lambda>s w. (Inr s, w))"

text \<open>\<open>sa.native()\<close> as the buffer of a call that gives the address \<open>bs\<close> and its length: what does not fit is cut off.\<close>

definition sa_store :: "byte list \<Rightarrow> socket_address \<Rightarrow> socket_address" where
  "sa_store bs sa = sa\<lparr>sa_bytes := take sa_max_size bs @ drop (min (length bs) sa_max_size) (sa_bytes sa)\<rparr>"

definition socket_local :: "'w net_system \<Rightarrow> int \<Rightarrow> 'w \<Rightarrow> socket_address res \<times> 'w" where
  "socket_local os sock w =
     (if sock = no_socket then (Inr sa_default, w)
      else case os_getsockname os sock w of (r, bs, w') \<Rightarrow>
        (res_bind (fail_if (-1) r) (\<lambda>_. sa_set_size (length bs) (sa_store bs sa_default)), w'))"

definition socket_remote :: "'w net_system \<Rightarrow> int \<Rightarrow> 'w \<Rightarrow> socket_address res \<times> 'w" where
  "socket_remote os sock w =
     (if sock = no_socket then (Inr sa_default, w)
      else case os_getpeername os sock w of (r, bs, w') \<Rightarrow>
        (res_bind (fail_if (-1) r) (\<lambda>_. sa_set_size (length bs) (sa_store bs sa_default)), w'))"

definition socket_is_closed :: "int \<Rightarrow> bool" where
  "socket_is_closed sock = (sock = no_socket)"

definition socket_do_close :: "'w net_system \<Rightarrow> int \<Rightarrow> 'w \<Rightarrow> int \<times> 'w" where
  "socket_do_close os sock w = (if sock \<noteq> no_socket then (no_socket, os_close os sock w) else (sock, w))"

definition socket_do_wait_for :: "'w net_system \<Rightarrow> int \<Rightarrow> int \<Rightarrow> 'w \<Rightarrow> bool res \<times> 'w" where
  "socket_do_wait_for os sock t w =
     (if sock = no_socket then (Inr True, w)
      else case do_select os [sock] t w of (r, w') \<Rightarrow> (res_bind r (\<lambda>(rc, _). Inr (rc \<noteq> 0)), w'))"

text \<open>\<open>socket_iosize\<close> has 32 bits.\<close>

definition iosize :: "nat \<Rightarrow> nat" where "iosize n = n mod 2 ^ 32"

text \<open>
  \<open>do_read\<close>: \<open>dst\<close> tells whether the pointer is not null, \<open>from\<close> is the address to fill, if any. The
  result is the bytes received, as many as the function returns, then the address, the
  descriptor and the world. \<open>recv\<close> gives \<open>rc\<close> bytes where it succeeds.
\<close>

definition socket_do_read ::
    "'w net_system \<Rightarrow> bool \<Rightarrow> nat \<Rightarrow> socket_address option \<Rightarrow> int \<Rightarrow> 'w
      \<Rightarrow> byte list res \<times> socket_address option \<times> int \<times> 'w" where
  "socket_do_read os dst maxlen from sock w =
     (if \<not> dst \<or> maxlen = 0 \<or> sock = no_socket then (Inr [], from, sock, w)
      else case do_select os [sock] 0 w of
        (Inl e, w1) \<Rightarrow> (Inl e, from, sock, w1)
      | (Inr (ready, _), w1) \<Rightarrow>
          if ready \<noteq> 1 then (Inr [], from, sock, w1)
          else (case from of
            Some sa \<Rightarrow> (case os_recvfrom os sock (iosize maxlen) w1 of ((rc, err), (bs, addr), w2) \<Rightarrow>
              (if rc = -1 then (Inl (System_error err), Some (sa_store addr sa), sock, w2)
               else let sa1 = sa_store addr sa;
                        sized = (if 0 < rc then sa_set_size (length addr) sa1 else Inr sa1)
                    in (case sized of
                          Inl e \<Rightarrow> (Inl e, Some sa1, sock, w2)
                        | Inr sa2 \<Rightarrow> (case if rc = 0 then socket_do_close os sock w2 else (sock, w2) of
                            (sock', w3) \<Rightarrow> (Inr bs, Some sa2, sock', w3)))))
          | None \<Rightarrow> (case os_recv os sock (iosize maxlen) w1 of ((rc, err), bs, w2) \<Rightarrow>
              (if rc = -1 then (Inl (System_error err), None, sock, w2)
               else (case if rc = 0 then socket_do_close os sock w2 else (sock, w2) of
                       (sock', w3) \<Rightarrow> (Inr bs, None, sock', w3))))))"

text \<open>\<open>do_write\<close>: the loop, which always sends from the start; \<open>written\<close> has 64 bits.\<close>

definition net_send :: "'w net_system \<Rightarrow> int \<Rightarrow> socket_address option \<Rightarrow> byte list \<Rightarrow> 'w \<Rightarrow> (int \<times> int) \<times> 'w" where
  "net_send os sock to src w = (case to of
      Some sa \<Rightarrow> os_sendto os sock (take (iosize (length src)) src) (take (sa_size sa) (sa_bytes sa)) w
    | None \<Rightarrow> os_send os sock (take (iosize (length src)) src) w)"

partial_function (option) write_loop ::
    "'w net_system \<Rightarrow> int \<Rightarrow> socket_address option \<Rightarrow> byte list \<Rightarrow> 64 word \<Rightarrow> 'w \<Rightarrow> (bool res \<times> 'w) option" where
  "write_loop os sock to src written w =
     (if unat written < length src
      then (case net_send os sock to src w of ((rc, err), w1) \<Rightarrow>
        (if rc = -1 \<and> err = EAGAIN
         then write_loop os sock to src (written + of_int rc) (os_sleep os w1)
         else if rc = -1 then Some (Inl (System_error err), w1)
         else write_loop os sock to src (written + of_int rc) w1))
      else Some (Inr True, w))"

definition socket_do_write ::
    "'w net_system \<Rightarrow> byte list option \<Rightarrow> socket_address option \<Rightarrow> int \<Rightarrow> 'w \<Rightarrow> (bool res \<times> 'w) option" where
  "socket_do_write os src to sock w = (case src of
      None \<Rightarrow> Some (Inr False, w)
    | Some bs \<Rightarrow> if sock = no_socket then Some (Inr False, w) else write_loop os sock to bs 0 w)"

text \<open>The public functions. \<open>write\<close> and \<open>write_to\<close> of text and of memory are the same function here.\<close>

definition socket_read :: "'w net_system \<Rightarrow> bool \<Rightarrow> nat \<Rightarrow> int \<Rightarrow> 'w \<Rightarrow> byte list res \<times> int \<times> 'w" where
  "socket_read os dst maxlen sock w = (case socket_do_read os dst maxlen None sock w of (r, _, sock', w') \<Rightarrow> (r, sock', w'))"

definition socket_read_from ::
    "'w net_system \<Rightarrow> bool \<Rightarrow> nat \<Rightarrow> socket_address \<Rightarrow> int \<Rightarrow> 'w \<Rightarrow> byte list res \<times> socket_address option \<times> int \<times> 'w" where
  "socket_read_from os dst maxlen from sock w = socket_do_read os dst maxlen (Some from) sock w"

definition socket_write_all :: "'w net_system \<Rightarrow> byte list option \<Rightarrow> int \<Rightarrow> 'w \<Rightarrow> (bool res \<times> 'w) option" where
  "socket_write_all os src sock w = socket_do_write os src None sock w"

definition socket_write_to ::
    "'w net_system \<Rightarrow> byte list option \<Rightarrow> socket_address \<Rightarrow> int \<Rightarrow> 'w \<Rightarrow> (bool res \<times> 'w) option" where
  "socket_write_to os src to sock w = socket_do_write os src (Some to) sock w"

definition set_blocking :: "'w net_system \<Rightarrow> bool \<Rightarrow> int \<Rightarrow> 'w \<Rightarrow> unit res \<times> 'w" where
  "set_blocking os flag sock w = control_blocking os sock flag w"

definition set_nagle :: "'w net_system \<Rightarrow> bool \<Rightarrow> int \<Rightarrow> 'w \<Rightarrow> unit res \<times> 'w" where
  "set_nagle os flag sock w = control_nagle os sock flag w"

section \<open>TcpClient, TcpServer and UdpClient\<close>

text \<open>A constructor whose body throws destroys the socket it was built on.\<close>

definition or_close :: "'w net_system \<Rightarrow> int \<Rightarrow> unit res \<times> 'w \<Rightarrow> int res \<times> 'w" where
  "or_close os sock r = (case r of
      (Inl e, w) \<Rightarrow> (Inl e, snd (socket_do_close os sock w))
    | (Inr _, w) \<Rightarrow> (Inr sock, w))"

definition bind_if :: "'w net_system \<Rightarrow> int \<Rightarrow> socket_address \<Rightarrow> 'w \<Rightarrow> unit res \<times> 'w" where
  "bind_if os sock local w =
     (if sa_nonzero local
      then net_then (-1) (os_bind os sock (take (sa_size local) (sa_bytes local)) w) (\<lambda>_ w. (Inr (), w))
      else (Inr (), w))"

definition do_connect :: "'w net_system \<Rightarrow> int \<Rightarrow> socket_address \<Rightarrow> 'w \<Rightarrow> unit res \<times> 'w" where
  "do_connect os sock remote w =
     net_then (-1) (os_connect os sock (take (sa_size remote) (sa_bytes remote)) w) (\<lambda>_ w. (Inr (), w))"

definition tcp_client :: "'w net_system \<Rightarrow> socket_address \<Rightarrow> socket_address \<Rightarrow> 'w \<Rightarrow> int res \<times> 'w" where
  "tcp_client os remote local w =
     res_then (socket_open os PF_INET SOCK_STREAM 0 w) (\<lambda>sock w1.
       or_close os sock
         (res_then (bind_if os sock local w1) (\<lambda>_ w2.
          res_then (do_connect os sock remote w2) (\<lambda>_ w3.
          res_then (control_blocking os sock False w3) (\<lambda>_ w4.
          control_nagle os sock False w4)))))"

definition backlog :: int where "backlog = 10"

definition tcp_server :: "'w net_system \<Rightarrow> socket_address \<Rightarrow> 'w \<Rightarrow> int res \<times> 'w" where
  "tcp_server os local w =
     res_then (socket_open os PF_INET SOCK_STREAM 0 w) (\<lambda>sock w1.
       or_close os sock
         (case os_setsockopt os sock SOL_SOCKET SO_REUSEADDR 1 w1 of (_, w2) \<Rightarrow>
          res_then (bind_if os sock local w2) (\<lambda>_ w3.
          res_then (control_blocking os sock False w3) (\<lambda>_ w4.
          net_then (-1) (os_listen os sock backlog w4) (\<lambda>_ w5. (Inr (), w5))))))"

text \<open>\<open>t\<close> is the client the pointer holds; giving it a new one closes the socket of the old one.\<close>

definition tcp_server_read :: "'w net_system \<Rightarrow> int \<Rightarrow> int option \<Rightarrow> 'w \<Rightarrow> bool res \<times> int option \<times> 'w" where
  "tcp_server_read os sock t w =
     (if sock = no_socket then (Inr False, t, w)
      else case do_select os [sock] 0 w of
        (Inl e, w1) \<Rightarrow> (Inl e, t, w1)
      | (Inr (ready, _), w1) \<Rightarrow>
          if ready \<noteq> 1 then (Inr False, t, w1)
          else case os_accept os sock w1 of ((rc, err), w2) \<Rightarrow>
            (if rc = no_socket then (Inl (System_error err), t, w2)
             else let w3 = (case t of None \<Rightarrow> w2 | Some old \<Rightarrow> snd (socket_do_close os old w2))
                  in (case res_then (control_blocking os rc False w3) (\<lambda>_ w4. control_nagle os rc False w4) of
                        (Inl e, w5) \<Rightarrow> (Inl e, Some rc, w5)
                      | (Inr _, w5) \<Rightarrow> (Inr True, Some rc, w5))))"

definition udp_client :: "'w net_system \<Rightarrow> socket_address \<Rightarrow> socket_address \<Rightarrow> 'w \<Rightarrow> int res \<times> 'w" where
  "udp_client os remote local w =
     res_then (socket_open os PF_INET SOCK_DGRAM 0 w) (\<lambda>sock w1.
       or_close os sock
         (res_then (bind_if os sock local w1) (\<lambda>_ w2.
          res_then (if sa_nonzero remote then do_connect os sock remote w2 else (Inr (), w2)) (\<lambda>_ w3.
          control_blocking os sock False w3))))"

section \<open>A system that never fails\<close>

text \<open>Every socket is ready, every write takes everything; the world is the stream of the bytes sent.\<close>

definition plain_system :: "byte list net_system" where
  "plain_system = \<lparr>
     os_socket = (\<lambda>_ _ _ w. ((3, 0), w)), os_close = (\<lambda>_ w. w),
     os_getsockname = (\<lambda>_ w. ((0, 0), sa_bytes sa_default, w)), os_getpeername = (\<lambda>_ w. ((0, 0), sa_bytes sa_default, w)),
     os_ioctl = (\<lambda>_ _ w. ((0, 0), w)), os_setsockopt = (\<lambda>_ _ _ _ w. ((0, 0), w)),
     os_bind = (\<lambda>_ _ w. ((0, 0), w)), os_connect = (\<lambda>_ _ w. ((0, 0), w)),
     os_listen = (\<lambda>_ _ w. ((0, 0), w)), os_accept = (\<lambda>_ w. ((4, 0), w)),
     os_select = (\<lambda>_ r e _ w. ((int (length r), 0), (r, e), w)),
     os_recv = (\<lambda>_ n w. ((int (min n (length w)), 0), take n w, drop n w)),
     os_recvfrom = (\<lambda>_ n w. ((int (min n (length w)), 0), (take n w, sa_bytes (sa_ipv4 ipv4_localhost 80)), drop n w)),
     os_send = (\<lambda>_ bs w. ((int (length bs), 0), w @ bs)), os_sendto = (\<lambda>_ bs _ w. ((int (length bs), 0), w @ bs)),
     os_sleep = (\<lambda>w. w)\<rparr>"

end
