(* ===== verification/Socket_Set.thy ===== *)
theory Socket_Set
  imports Net_Socket Channel
begin

text \<open>
  Class \<open>SocketSet\<close> of \<open>net.cpp\<close>: the channels with their descriptors, and the channel \<open>current_\<close> that the
  last wait found ready. Channels are identified by their address, here a value of type \<open>'c\<close>.
\<close>

record 'c socket_set =
  channels :: "'c list"
  natives :: "int list"
  current :: "'c option"
  set_open :: bool

definition set_default :: "'c socket_set" where
  "set_default = \<lparr>channels = [], natives = [], current = None, set_open = True\<rparr>"

definition set_close :: "'c socket_set \<Rightarrow> 'c socket_set" where
  "set_close s = s\<lparr>set_open := False\<rparr>"

definition set_is_closed :: "'c socket_set \<Rightarrow> bool" where
  "set_is_closed s = (\<not> set_open s)"

definition set_is_empty :: "'c socket_set \<Rightarrow> bool" where
  "set_is_empty s = (channels s = [])"

definition set_size :: "'c socket_set \<Rightarrow> nat" where
  "set_size s = length (channels s)"

definition set_clear :: "'c socket_set \<Rightarrow> 'c socket_set" where
  "set_clear s = s\<lparr>channels := [], natives := [], current := None\<rparr>"

definition set_insert :: "'c \<Rightarrow> int \<Rightarrow> 'c socket_set \<Rightarrow> 'c socket_set" where
  "set_insert c native s = s\<lparr>channels := channels s @ [c], natives := natives s @ [native]\<rparr>"

definition erase_at :: "nat \<Rightarrow> 'a list \<Rightarrow> 'a list" where
  "erase_at i xs = take i xs @ drop (Suc i) xs"

definition set_erase :: "'c \<Rightarrow> 'c socket_set \<Rightarrow> 'c socket_set" where
  "set_erase c s = (case find_from (\<lambda>x. x = c) (channels s) 0 of
      None \<Rightarrow> s
    | Some i \<Rightarrow> s\<lparr>natives := erase_at i (natives s), channels := erase_at i (channels s),
                  current := (if current s = Some c then None else current s)\<rparr>)"

definition set_read :: "'w net_system \<Rightarrow> 'c socket_set \<Rightarrow> 'w \<Rightarrow> 'c option res \<times> 'c socket_set \<times> 'w" where
  "set_read os s w =
     (if \<not> set_open s \<or> channels s = [] then (Inr None, s, w)
      else case current s of
        Some c \<Rightarrow> (Inr (Some c), s\<lparr>current := None\<rparr>, w)
      | None \<Rightarrow> (case do_select os (natives s) 0 w of
            (Inl e, w') \<Rightarrow> (Inl e, s, w')
          | (Inr (_, None), w') \<Rightarrow> (Inr None, s, w')
          | (Inr (_, Some index), w') \<Rightarrow> (Inr (Some (channels s ! index)), s, w')))"

definition set_do_wait_for :: "'w net_system \<Rightarrow> int \<Rightarrow> 'c socket_set \<Rightarrow> 'w \<Rightarrow> bool res \<times> 'c socket_set \<times> 'w" where
  "set_do_wait_for os t s w =
     (if \<not> set_open s \<or> current s \<noteq> None then (Inr True, s, w)
      else case do_select os (natives s) t w of
        (Inl e, w') \<Rightarrow> (Inl e, s, w')
      | (Inr (rc, index), w') \<Rightarrow>
          (Inr (rc \<noteq> 0),
           (case index of
              None \<Rightarrow> s
            | Some i \<Rightarrow> if rc \<noteq> 0 \<and> i < length (channels s) then s\<lparr>current := Some (channels s ! i)\<rparr> else s),
           w'))"

section \<open>What a selection finds\<close>

lemma select_pos_Some:
  "select_pos sockets rfds efds i = Some j \<Longrightarrow>
     i \<le> j \<and> j < i + length sockets \<and> sockets ! (j - i) \<noteq> no_socket
       \<and> (sockets ! (j - i) \<in> set rfds \<or> sockets ! (j - i) \<in> set efds)
       \<and> (\<forall>k < j - i. sockets ! k = no_socket \<or> sockets ! k \<notin> set rfds \<union> set efds)"
proof (induction sockets arbitrary: i)
  case Nil
  then show ?case by simp
next
  case (Cons s sockets)
  show ?case
  proof (cases "s \<noteq> no_socket \<and> (s \<in> set rfds \<or> s \<in> set efds)")
    case True
    with Cons.prems show ?thesis by auto
  next
    case False
    then have "select_pos sockets rfds efds (Suc i) = Some j" using Cons.prems by (simp split: if_splits)
    from Cons.IH [OF this] False show ?thesis
      by (auto simp: nth_Cons' less_Suc_eq_0_disj nth_Cons split: nat.splits)
  qed
qed

lemma do_select_values:
  assumes "do_select os sockets t w = (Inr (rc, index), w')"
  shows "(rc = 1 \<and> (\<exists>i < length sockets. index = Some i \<and> sockets ! i \<noteq> no_socket)) \<or> (rc \<in> {0, -1} \<and> index = None)"
proof (cases index)
  case None
  with assms show ?thesis
    by (auto simp: do_select_def fail_if_def Let_def split: prod.splits if_splits option.splits)
next
  case (Some i)
  with assms obtain rfds efds where "rc = 1" and "select_pos sockets rfds efds 0 = Some i"
    by (auto simp: do_select_def fail_if_def Let_def split: prod.splits if_splits option.splits)
  with Some select_pos_Some [of sockets rfds efds 0 i] show ?thesis by simp
qed

section \<open>The invariant\<close>

definition set_ok :: "'c socket_set \<Rightarrow> bool" where
  "set_ok s \<longleftrightarrow> length (channels s) = length (natives s) \<and> (case current s of None \<Rightarrow> True | Some c \<Rightarrow> c \<in> set (channels s))"

text \<open>The calls on a set; the exceptions of \<open>select\<close> leave the set as it is.\<close>

datatype 'c set_call = SInsert 'c int | SErase 'c | SClear | SClose | SRead | SWait int

fun set_exec :: "'w net_system \<Rightarrow> 'c set_call \<Rightarrow> 'c socket_set \<times> 'w \<Rightarrow> 'c socket_set \<times> 'w" where
  "set_exec os (SInsert c n) (s, w) = (set_insert c n s, w)"
| "set_exec os (SErase c) (s, w) = (set_erase c s, w)"
| "set_exec os SClear (s, w) = (set_clear s, w)"
| "set_exec os SClose (s, w) = (set_close s, w)"
| "set_exec os SRead (s, w) = snd (set_read os s w)"
| "set_exec os (SWait t) (s, w) = snd (set_do_wait_for os t s w)"

definition set_run :: "'w net_system \<Rightarrow> 'c set_call list \<Rightarrow> 'c socket_set \<times> 'w \<Rightarrow> 'c socket_set \<times> 'w" where
  "set_run os calls sw = fold (set_exec os) calls sw"

named_theorems set_defs

lemmas [set_defs] = set_ok_def set_close_def set_clear_def set_insert_def set_is_closed_def

lemma erase_at_length: "i < length xs \<Longrightarrow> length (erase_at i xs) = length xs - 1"
  by (auto simp: erase_at_def)

lemma set_erase_at: "x \<in> set xs \<Longrightarrow> i < length xs \<Longrightarrow> x \<noteq> xs ! i \<Longrightarrow> x \<in> set (erase_at i xs)"
proof -
  assume x: "x \<in> set xs" and i: "i < length xs" and n: "x \<noteq> xs ! i"
  have "xs = take i xs @ xs ! i # drop (Suc i) xs" using i by (simp add: id_take_nth_drop [symmetric])
  then have "x \<in> set (take i xs @ xs ! i # drop (Suc i) xs)" using x by simp
  then show ?thesis using n by (auto simp: erase_at_def)
qed

lemma erase_first:
  assumes "find_from (\<lambda>x. x = c) xs 0 = Some i"
  shows "i < length xs \<and> xs ! i = c \<and> erase_at i xs = remove1 c xs"
proof -
  have f: "i < length xs" "xs ! i = c" "\<forall>k < i. xs ! k \<noteq> c"
    using find_from_Some [OF assms] by auto
  have "c \<notin> set (take i xs)" using f by (auto simp: in_set_conv_nth)
  then have "remove1 c (take i xs @ xs ! i # drop (Suc i) xs) = take i xs @ drop (Suc i) xs"
    using f(2) by (simp add: remove1_append)
  then have "remove1 c xs = take i xs @ drop (Suc i) xs" using f(1) by (simp add: id_take_nth_drop [symmetric])
  then show ?thesis using f by (simp add: erase_at_def)
qed

lemma find_from_eq_None: "find_from (\<lambda>x. x = c) xs 0 = None \<longleftrightarrow> c \<notin> set xs"
proof
  assume "find_from (\<lambda>x. x = c) xs 0 = None"
  from find_from_None [OF this] show "c \<notin> set xs" by (metis in_set_conv_nth le0)
next
  assume "c \<notin> set xs"
  then have "\<forall>x \<in> set xs. \<not> x = c" by blast
  then show "find_from (\<lambda>x. x = c) xs 0 = None" by (rule find_from_0_None)
qed

lemma set_erase_channels: "channels (set_erase c s) = remove1 c (channels s)"
proof (cases "find_from (\<lambda>x. x = c) (channels s) 0")
  case None
  then have "c \<notin> set (channels s)" by (simp add: find_from_eq_None)
  with None show ?thesis by (simp add: set_erase_def remove1_idem)
next
  case (Some i)
  then show ?thesis using erase_first [OF Some] by (simp add: set_erase_def)
qed

lemma set_erase_current:
  "set_ok s \<Longrightarrow> current (set_erase c s) = (if current s = Some c then None else current s)"
  by (auto simp: set_erase_def set_ok_def find_from_eq_None split: option.splits)

lemma set_ok_erase: "set_ok s \<Longrightarrow> set_ok (set_erase c s)"
proof -
  assume ok: "set_ok s"
  have "length (channels (set_erase c s)) = length (natives (set_erase c s))"
  proof (cases "find_from (\<lambda>x. x = c) (channels s) 0")
    case None
    then show ?thesis using ok by (simp add: set_erase_def set_ok_def)
  next
    case (Some i)
    then have "i < length (channels s)" using erase_first by fast
    then show ?thesis using ok Some by (simp add: set_erase_def set_ok_def erase_at_length)
  qed
  moreover have "\<And>d. d \<noteq> c \<Longrightarrow> d \<in> set (channels s) \<Longrightarrow> d \<in> set (channels (set_erase c s))"
    by (simp add: set_erase_channels)
  ultimately show ?thesis
    using ok by (auto simp: set_ok_def set_erase_current split: option.splits)
qed

lemma set_read_fields [simp]:
  "channels (fst (snd (set_read os s w))) = channels s" "natives (fst (snd (set_read os s w))) = natives s"
  "set_open (fst (snd (set_read os s w))) = set_open s"
  by (auto simp: set_read_def split: option.splits prod.splits sum.splits)

lemma set_read_current: "current (fst (snd (set_read os s w))) \<in> {None, current s}"
  by (auto simp: set_read_def split: option.splits prod.splits sum.splits)

lemma set_wait_fields [simp]:
  "channels (fst (snd (set_do_wait_for os t s w))) = channels s"
  "natives (fst (snd (set_do_wait_for os t s w))) = natives s"
  "set_open (fst (snd (set_do_wait_for os t s w))) = set_open s"
  by (auto simp: set_do_wait_for_def split: option.splits prod.splits sum.splits)

lemma set_wait_current:
  "current (fst (snd (set_do_wait_for os t s w))) \<in> {current s} \<union> Some ` set (channels s)"
  by (auto simp: set_do_wait_for_def split: option.splits prod.splits sum.splits)

lemma set_ok_read: "set_ok s \<Longrightarrow> set_ok (fst (snd (set_read os s w)))"
  using set_read_current [of os s w] by (auto simp: set_ok_def split: option.splits)

lemma set_ok_wait: "set_ok s \<Longrightarrow> set_ok (fst (snd (set_do_wait_for os t s w)))"
  using set_wait_current [of os t s w] by (auto simp: set_ok_def split: option.splits)

lemma set_read_member:
  assumes "set_ok s" and "set_read os s w = (Inr (Some c), s', w')"
  shows "c \<in> set (channels s) \<and> set_open s"
proof (cases "current s")
  case None
  with assms obtain i rc where "set_open s" "do_select os (natives s) 0 w = (Inr (rc, Some i), w')" "c = channels s ! i"
    by (auto simp: set_read_def split: if_splits option.splits prod.splits sum.splits)
  with do_select_values assms(1) show ?thesis by (fastforce simp: set_ok_def)
next
  case (Some d)
  with assms show ?thesis by (auto simp: set_read_def set_ok_def split: if_splits)
qed

lemma set_ok_exec: "set_ok (fst sw) \<Longrightarrow> set_ok (fst (set_exec os call sw))"
  by (cases sw; cases call) (auto simp: set_ok_read set_ok_wait set_ok_erase, auto simp: set_defs split: option.splits)

lemma set_ok_run: "set_ok (fst sw) \<Longrightarrow> set_ok (fst (set_run os calls sw))"
  by (induction calls arbitrary: sw) (simp_all add: set_run_def set_ok_exec)

section \<open>The set as a message channel\<close>

definition set_holds :: "'c socket_set \<times> 'w \<Rightarrow> bool" where
  "set_holds sw \<longleftrightarrow> \<not> set_open (fst sw) \<or> current (fst sw) \<noteq> None"

definition set_message :: "'w net_system \<Rightarrow> 'c socket_set \<times> 'w \<Rightarrow> 'c option \<times> ('c socket_set \<times> 'w)" where
  "set_message os sw = (case set_read os (fst sw) (snd sw) of (r, sw') \<Rightarrow>
     ((case r of Inl _ \<Rightarrow> None | Inr m \<Rightarrow> m), sw'))"

lemma set_read_held:
  assumes "set_ok s" and "set_open s" and "current s = Some c"
  shows "set_read os s w = (Inr (Some c), s\<lparr>current := None\<rparr>, w)"
  using assms by (auto simp: set_read_def set_ok_def)

text \<open>With a channel found by an earlier wait, the set is a message channel that needs no system call.\<close>

interpretation sset: message_channel
  "\<lambda>sw. set_ok (fst sw)" "\<lambda>sw. (set_close (fst sw), snd sw)" "\<lambda>sw. set_is_closed (fst sw)" set_holds "set_message os" for os
proof unfold_locales
  fix sw :: "'a socket_set \<times> 'b"
  assume ok: "set_ok (fst sw)"
  show "set_ok (fst (set_close (fst sw), snd sw))" using ok by (simp add: set_defs split: option.splits)
  show "set_is_closed (fst (set_close (fst sw), snd sw))" by (simp add: set_defs)
  show "(set_close (fst (set_close (fst sw), snd sw)), snd (set_close (fst sw), snd sw)) = (set_close (fst sw), snd sw)"
    by (simp add: set_defs)
  show "set_holds sw" if "set_is_closed (fst sw)" using that by (simp add: set_holds_def set_is_closed_def)
next
  fix os :: "'b net_system" and sw :: "'a socket_set \<times> 'b"
  assume ok: "set_ok (fst sw)"
  show "set_ok (fst (snd (set_message os sw)))"
    using set_ok_read [OF ok, of os "snd sw"] by (simp add: set_message_def case_prod_beta)
  show "fst (set_message os sw) = None" if "set_is_closed (fst sw)"
    using that by (simp add: set_message_def set_read_def set_is_closed_def)
  show "\<exists>m. fst (set_message os sw) = Some m" if "\<not> set_is_closed (fst sw)" and "set_holds sw"
  proof -
    from that obtain c where "set_open (fst sw)" "current (fst sw) = Some c" by (auto simp: set_holds_def set_is_closed_def)
    then show ?thesis by (simp add: set_message_def set_read_held [OF ok])
  qed
  show "set_is_closed (fst (snd (set_message os sw))) = set_is_closed (fst sw)"
    by (simp add: set_message_def set_is_closed_def case_prod_beta)
qed

section \<open>Property\<close>

text \<open>
  C29. Whatever calls were made on a \<open>SocketSet\<close>, whatever the sockets did: channels and descriptors
  correspond; a read gives only a channel that is in the set, and only while the set is open; the channel
  that a wait found is the one the next read gives, without asking the system again; an erased channel
  is taken out with the first of its entries, is no longer the one that was found, and a channel that
  was in the set once is not given by any read after that.
\<close>

theorem socket_set_safe:
  assumes "set_run os calls (set_default, w) = (s, w1)"
  shows "length (channels s) = length (natives s)
    \<and> (\<forall>c s' w'. set_read os s w1 = (Inr (Some c), s', w') \<longrightarrow> c \<in> set (channels s) \<and> set_open s)
    \<and> (\<forall>t c s' w'. set_do_wait_for os t s w1 = (Inr True, s', w') \<and> set_open s \<and> current s' = Some c
          \<longrightarrow> set_read os s' w' = (Inr (Some c), s'\<lparr>current := None\<rparr>, w'))
    \<and> (\<forall>c. channels (set_erase c s) = remove1 c (channels s) \<and> current (set_erase c s) \<noteq> Some c)
    \<and> (\<forall>c s' w' w''. distinct (channels s) \<longrightarrow> set_read os (set_erase c s) w' \<noteq> (Inr (Some c), s', w''))"
proof (intro conjI allI impI)
  have "set_ok (fst (set_default :: 'a socket_set, w))" by (simp add: set_default_def set_ok_def)
  from set_ok_run [OF this, of os calls] assms have ok: "set_ok s" by simp
  then show "length (channels s) = length (natives s)" by (simp add: set_ok_def)
  show "c \<in> set (channels s)" and "set_open s" if "set_read os s w1 = (Inr (Some c), s', w')" for c s' w'
    using set_read_member [OF ok that] by auto
  show "set_read os s' w' = (Inr (Some c), s'\<lparr>current := None\<rparr>, w')"
    if a: "set_do_wait_for os t s w1 = (Inr True, s', w') \<and> set_open s \<and> current s' = Some c" for t c s' w'
  proof (rule set_read_held)
    show "set_ok s'" "set_open s'" using a set_ok_wait [OF ok, of os t w1] set_wait_fields(3) [of os t s w1] by auto
    show "current s' = Some c" using a by blast
  qed
  show "channels (set_erase c s) = remove1 c (channels s)" for c by (rule set_erase_channels)
  show "current (set_erase c s) \<noteq> Some c" for c using set_erase_current [OF ok, of c] by auto
  show "set_read os (set_erase c s) w' \<noteq> (Inr (Some c), s', w'')" if "distinct (channels s)" for c s' w' w''
    using set_read_member [OF set_ok_erase [OF ok, of c], of os w' c s' w''] that
    by (auto simp: set_erase_channels)
qed

theorem socket_set_safe_witness:
  "set_read plain_system (fst (set_run plain_system [SInsert (1 :: nat) 5, SInsert 2 6, SErase 1] (set_default, []))) []
     = (Inr (Some 2), \<lparr>channels = [2], natives = [6], current = None, set_open = True\<rparr>, [])
   \<and> current (set_erase 2 (fst (set_run plain_system [SInsert (1 :: nat) 5, SInsert 2 6, SErase 1] (set_default, [])))) \<noteq> Some 2"
proof
  show "set_read plain_system (fst (set_run plain_system [SInsert (1 :: nat) 5, SInsert 2 6, SErase 1] (set_default, []))) []
     = (Inr (Some 2), \<lparr>channels = [2], natives = [6], current = None, set_open = True\<rparr>, [])"
    by (simp add: set_run_def set_insert_def set_default_def set_erase_def find_from_def erase_at_def set_read_def
        do_select_def plain_system_def select_fds_def no_socket_def fail_if_def)
  show "current (set_erase 2 (fst (set_run plain_system [SInsert (1 :: nat) 5, SInsert 2 6, SErase 1] (set_default, [])))) \<noteq> Some 2"
    using socket_set_safe [of plain_system "[SInsert (1 :: nat) 5, SInsert 2 6, SErase 1]" "[]"
        "fst (set_run plain_system [SInsert (1 :: nat) 5, SInsert 2 6, SErase 1] (set_default, []))"
        "snd (set_run plain_system [SInsert (1 :: nat) 5, SInsert 2 6, SErase 1] (set_default, []))"] by simp
qed

end
