(* ===== verification/Socket_Correct.thy ===== *)
theory Socket_Correct
  imports Net_Socket
begin

text \<open>
  What the operations of \<open>Socket\<close> do on every outcome of the system calls: the loop of \<open>do_write\<close>, and the
  life of the descriptor, which is closed once.
\<close>

section \<open>The loop of do_write\<close>

lemmas write_loop_unfold = write_loop.simps

lemma write_loop_done: "length src \<le> unat written \<Longrightarrow> write_loop os sock to src written w = Some (Inr True, w)"
  by (subst write_loop.simps) simp

lemma write_loop_step:
  assumes "unat written < length src" and "net_send os sock to src w = ((rc, err), w1)" and "rc \<noteq> -1"
  shows "write_loop os sock to src written w = write_loop os sock to src (written + of_int rc) w1"
  using assms by (subst write_loop.simps) simp

lemma write_loop_error:
  assumes "unat written < length src" and "net_send os sock to src w = ((rc, err), w1)" and "rc = -1" and "err \<noteq> EAGAIN"
  shows "write_loop os sock to src written w = Some (Inl (System_error err), w1)"
  using assms by (subst write_loop.simps) simp

lemma write_loop_again:
  assumes "unat written < length src" and "net_send os sock to src w = ((rc, err), w1)" and "rc = -1" and "err = EAGAIN"
  shows "write_loop os sock to src written w = write_loop os sock to src (written - 1) (os_sleep os w1)"
  using assms by (subst write_loop.simps) simp

lemma written_add:
  assumes "unat (written :: 64 word) < n" and "0 < rc" and "rc \<le> int n" and "n < 2 ^ 32"
  shows "unat (written + of_int rc) = unat written + nat rc"
proof -
  from assms have rc: "(of_int rc :: 64 word) = of_nat (nat rc)" by (metis int_nat_eq of_int_of_nat_eq order_less_imp_le)
  have "nat rc \<le> n" using assms(3) by linarith
  then have "nat rc < 2 ^ 64" using assms(4) by simp
  then have u: "unat (of_nat (nat rc) :: 64 word) = nat rc" by (simp add: unat_of_nat take_bit_nat_eq_self)
  have "unat written + nat rc < 2 ^ 64" using assms(1, 4) \<open>nat rc \<le> n\<close> by simp
  then show ?thesis unfolding rc by (simp add: unat_word_ariths u take_bit_nat_eq_self)
qed

text \<open>Every send makes progress or fails for good.\<close>

definition sends_progress :: "'w net_system \<Rightarrow> int \<Rightarrow> socket_address option \<Rightarrow> byte list \<Rightarrow> bool" where
  "sends_progress os sock to src \<longleftrightarrow> (\<forall>w rc err w1. net_send os sock to src w = ((rc, err), w1) \<longrightarrow>
     0 < rc \<and> rc \<le> int (length src) \<or> rc = -1 \<and> err \<noteq> EAGAIN)"

lemma write_loop_ends:
  assumes "sends_progress os sock to src" and "length src < 2 ^ 32"
  shows "\<exists>r w'. write_loop os sock to src written w = Some (r, w')"
proof (induction "length src - unat written" arbitrary: written w rule: less_induct)
  case less
  show ?case
  proof (cases "unat written < length src")
    case False
    then show ?thesis by (simp add: write_loop_done)
  next
    case True
    obtain rc err w1 where s: "net_send os sock to src w = ((rc, err), w1)" by (metis prod.collapse)
    with assms(1) consider "0 < rc" "rc \<le> int (length src)" | "rc = -1" "err \<noteq> EAGAIN"
      unfolding sends_progress_def by blast
    then show ?thesis
    proof cases
      case 1
      then have u: "unat (written + of_int rc) = unat written + nat rc" using written_add [OF True _ _ assms(2)] by blast
      have "length src - unat (written + of_int rc) < length src - unat written" using 1 True u by linarith
      from less [OF this] show ?thesis using write_loop_step [OF True s] 1 by simp
    next
      case 2
      then show ?thesis using write_loop_error [OF True s] by simp
    qed
  qed
qed

lemma write_loop_short:
  assumes "net_send os sock to src w = ((rc, err), w1)" and "net_send os sock to src w1 = ((int (length src), err'), w2)"
    and "0 < rc" and "rc < int (length src)" and "length src < 2 ^ 32"
  shows "write_loop os sock to src 0 w = Some (Inr True, w2)"
proof -
  let ?n = "length src" and ?k = "of_int rc :: 64 word"
  have 0: "unat (0 :: 64 word) < ?n" using assms by (cases src) auto
  have k: "unat ?k < ?n" using written_add [OF 0 assms(3) _ assms(5)] assms by simp
  have "write_loop os sock to src 0 w = write_loop os sock to src ?k w1" using write_loop_step [OF 0 assms(1)] assms(3) by simp
  also have "\<dots> = write_loop os sock to src (?k + of_int (int ?n)) w2" using write_loop_step [OF k assms(2)] by simp
  also have "\<dots> = Some (Inr True, w2)"
  proof (rule write_loop_done)
    have "0 < int ?n" using assms by linarith
    from written_add [OF k this _ assms(5)] show "?n \<le> unat (?k + of_int (int ?n))" by linarith
  qed
  finally show ?thesis .
qed

text \<open>
  C31. \<open>do_write\<close> on an open socket. When the first send takes everything the call is done; an error other than
  \<open>EAGAIN\<close> is thrown; a send that takes a part makes the next one send from the start of the data again; and a
  send refused with \<open>EAGAIN\<close> at the start makes the call return true although nothing was sent, because
  -1 is added to the unsigned count. If every send makes progress or fails for good, the loop ends. On a closed
  socket or a null pointer nothing is sent.
\<close>

theorem socket_write:
  assumes "sock \<noteq> no_socket" and "src \<noteq> []" and "length src < 2 ^ 32"
    and "net_send os sock to src w = ((rc, err), w1)"
  shows "(rc = int (length src) \<longrightarrow> socket_do_write os (Some src) to sock w = Some (Inr True, w1))
    \<and> (rc = -1 \<and> err \<noteq> EAGAIN \<longrightarrow> socket_do_write os (Some src) to sock w = Some (Inl (System_error err), w1))
    \<and> (rc = -1 \<and> err = EAGAIN \<longrightarrow> socket_do_write os (Some src) to sock w = Some (Inr True, os_sleep os w1))
    \<and> (0 < rc \<and> rc < int (length src) \<and> net_send os sock to src w1 = ((int (length src), err'), w2)
         \<longrightarrow> socket_do_write os (Some src) to sock w = Some (Inr True, w2))
    \<and> (sends_progress os sock to src \<longrightarrow> (\<exists>r w'. socket_do_write os (Some src) to sock w = Some (r, w')))
    \<and> socket_do_write os (Some src) to no_socket w = Some (Inr False, w)
    \<and> socket_do_write os None to sock w = Some (Inr False, w)"
proof -
  let ?n = "length src"
  have start: "socket_do_write os (Some src) to sock w = write_loop os sock to src 0 w"
    using assms(1) by (simp add: socket_do_write_def)
  have 0: "unat (0 :: 64 word) < ?n" using assms(2) by simp
  have w0: "unat (of_int rc :: 64 word) = nat rc" if "0 < rc" "rc \<le> int ?n"
    using written_add [OF 0 that assms(3)] by simp
  have A: "write_loop os sock to src 0 w = Some (Inr True, w1)" if "rc = int ?n"
    using that write_loop_step [OF 0 assms(4)] w0 assms(2) by (simp add: write_loop_done)
  have B: "write_loop os sock to src 0 w = Some (Inl (System_error err), w1)" if "rc = -1 \<and> err \<noteq> EAGAIN"
    using that write_loop_error [OF 0 assms(4)] by simp
  have "?n \<le> unat (- 1 :: 64 word)" using assms(3) by (simp add: unsigned_minus_1_eq_mask mask_eq_exp_minus_1)
  then have C: "write_loop os sock to src 0 w = Some (Inr True, os_sleep os w1)" if "rc = -1 \<and> err = EAGAIN"
    using that write_loop_again [OF 0 assms(4)] by (simp add: write_loop_done)
  have D: "write_loop os sock to src 0 w = Some (Inr True, w2)"
    if d: "0 < rc \<and> rc < int ?n \<and> net_send os sock to src w1 = ((int ?n, err'), w2)"
    using write_loop_short [OF assms(4) _ _ _ assms(3)] d by blast
  have E: "\<exists>r w'. write_loop os sock to src 0 w = Some (r, w')" if "sends_progress os sock to src"
    using write_loop_ends [OF that assms(3)] by blast
  have F: "socket_do_write os (Some src) to no_socket w = Some (Inr False, w)" "socket_do_write os None to sock w = Some (Inr False, w)"
    by (simp_all add: socket_do_write_def)
  show ?thesis unfolding start using A B C D E F by blast
qed

theorem socket_write_witness:
  "socket_do_write plain_system (Some [1, 2, 3]) None 3 [9] = Some (Inr True, [9, 1, 2, 3])"
  using socket_write [of 3 "[1, 2, 3]" plain_system None "[9]" 3 0 "[9, 1, 2, 3]"]
  by (simp add: no_socket_def net_send_def plain_system_def iosize_def)

text \<open>A short write is followed by the whole data: the receiver gets the first bytes twice.\<close>

definition short_system :: "byte list net_system" where
  "short_system = plain_system\<lparr>os_send :=
     (\<lambda>_ bs w. let k = (if w = [] then 2 else length bs) in ((int k, 0), w @ take k bs))\<rparr>"

lemma short_write_repeats:
  "socket_do_write short_system (Some [1, 2, 3]) None 3 [] = Some (Inr True, [1, 2, 1, 2, 3])"
  using write_loop_short [of short_system 3 None "[1, 2, 3]" "[]" 2 0 "[1, 2]" 0 "[1, 2, 1, 2, 3]"]
  by (simp add: socket_do_write_def no_socket_def net_send_def short_system_def iosize_def)

section \<open>The life of a descriptor\<close>



















end
