(* ===== verification/Thread_Pool.thy ===== *)
theory Thread_Pool
  imports Prelude "HOL-Library.Multiset"
begin

text \<open>
  Class \<open>ThreadPool\<close> (\<open>thread-pool.hpp\<close>, \<open>thread-pool.cpp\<close>): one queue per worker thread, atomic counters, and a
  mutex for each queue. The threads are automata whose steps are the accesses to the shared state: a section
  under a mutex is one step, an access to an atomic variable is one step, and the steps of all threads
  interleave. A job is a value of type \<open>'j\<close>; what it computes is left open, and a job that inserts jobs is
  one more client.
\<close>

section \<open>The shared state\<close>

record 'j pool =
  clear_count :: int
  next_worker :: nat
  unfinished :: int
  shutting_down :: bool
  queues :: "'j list list"

definition adjust_threads :: "nat \<Rightarrow> int \<Rightarrow> int" where
  "adjust_threads hardware_concurrency threads =
     (let t = (if threads \<le> 0 then int hardware_concurrency else threads) in if t = 0 then 1 else t)"

definition pool_new :: "nat \<Rightarrow> int \<Rightarrow> 'j pool" where
  "pool_new hardware_concurrency threads =
     \<lparr>clear_count = 0, next_worker = 0, unfinished = 0, shutting_down = False,
      queues = replicate (nat (adjust_threads hardware_concurrency threads)) []\<rparr>"

definition pool_threads :: "'j pool \<Rightarrow> nat" where "pool_threads p = length (queues p)"

definition pool_poll :: "'j pool \<Rightarrow> bool" where "pool_poll p = (unfinished p = 0)"

definition set_next :: "nat \<Rightarrow> 'j pool \<Rightarrow> 'j pool" where
  "set_next index p = p\<lparr>next_worker := (index + 1) mod pool_threads p\<rparr>"

definition push_job :: "'j \<Rightarrow> nat \<Rightarrow> 'j pool \<Rightarrow> 'j pool" where
  "push_job j index p = p\<lparr>unfinished := unfinished p + 1, queues := (queues p)[index := queues p ! index @ [j]]\<rparr>"

text \<open>\<open>insert\<close> as one thread runs it when no other interferes.\<close>

definition pool_insert :: "'j \<Rightarrow> 'j pool \<Rightarrow> 'j pool" where
  "pool_insert j p = (if clear_count p \<noteq> 0 then p else push_job j (next_worker p) (set_next (next_worker p) p))"

definition clear_queue :: "nat \<Rightarrow> 'j pool \<Rightarrow> 'j pool" where
  "clear_queue k p = p\<lparr>unfinished := unfinished p - int (length (queues p ! k)), queues := (queues p)[k := []]\<rparr>"

text \<open>\<open>each\<close>: the indices for which a job is inserted; \<open>int\<close> overflow, which is undefined, is not reached.\<close>

partial_function (option) each_up :: "int \<Rightarrow> int \<Rightarrow> int \<Rightarrow> int list option" where
  "each_up i delta stop = (if i < stop then Option.bind (each_up (i + delta) delta stop) (\<lambda>is. Some (i # is)) else Some [])"

partial_function (option) each_down :: "int \<Rightarrow> int \<Rightarrow> int \<Rightarrow> int list option" where
  "each_down i delta stop = (if stop < i then Option.bind (each_down (i + delta) delta stop) (\<lambda>is. Some (i # is)) else Some [])"

definition pool_each :: "int \<Rightarrow> int \<Rightarrow> int \<Rightarrow> (int \<Rightarrow> 'j) \<Rightarrow> 'j pool \<Rightarrow> 'j pool option" where
  "pool_each start delta stop f p =
     map_option (\<lambda>is. fold (\<lambda>i. pool_insert (f i)) is p)
       (if 0 \<le> delta then each_up start delta stop else each_down start delta stop)"

definition pool_each_of :: "'x list \<Rightarrow> ('x \<Rightarrow> 'j) \<Rightarrow> 'j pool \<Rightarrow> 'j pool" where
  "pool_each_of xs f p = fold (\<lambda>x. pool_insert (f x)) xs p"

text \<open>\<open>wait_until\<close>: the clock and the counter as they are read in the turns of the loop.\<close>

fun wait_until :: "int \<Rightarrow> (int \<times> int) list \<Rightarrow> bool option" where
  "wait_until t [] = None"
| "wait_until t ((jobs, now) # rest) = (if jobs = 0 then Some True else if t \<le> now then Some False else wait_until t rest)"

definition wait_for :: "int \<Rightarrow> int \<Rightarrow> (int \<times> int) list \<Rightarrow> bool option" where
  "wait_for now t turns = wait_until (now + t) turns"

section \<open>The threads\<close>

text \<open>
  A worker looks at its own queue (\<open>Own\<close>), then at the queue of a random worker (\<open>Steal\<close>), runs a job
  (\<open>Call\<close>) and counts it (\<open>Count\<close>); with no job it ends when the pool shuts down (\<open>Idle\<close>).
\<close>

datatype 'j wstate = Own | Steal | Call 'j | Count 'j | Idle | Exit

text \<open>The step of worker \<open>i\<close>; \<open>k\<close> is the random index.\<close>

fun worker_next :: "nat \<Rightarrow> nat \<Rightarrow> 'j wstate \<Rightarrow> 'j pool \<Rightarrow> 'j wstate \<times> 'j pool" where
  "worker_next i k Own p =
     (let q = queues p ! i
      in if q \<noteq> [] then (Call (last q), p\<lparr>queues := (queues p)[i := butlast q]\<rparr>) else (Steal, p))"
| "worker_next i k Steal p =
     (let q = queues p ! k
      in if q \<noteq> [] then (Call (hd q), p\<lparr>queues := (queues p)[k := tl q]\<rparr>) else (Idle, p))"
| "worker_next i k (Call j) p = (Count j, p)"
| "worker_next i k (Count j) p = (Own, p\<lparr>unfinished := unfinished p - 1\<rparr>)"
| "worker_next i k Idle p = (if shutting_down p then Exit else Own, p)"
| "worker_next i k Exit p = (Exit, p)"

text \<open>
  A client is in a call of \<open>insert\<close>, \<open>clear\<close>, \<open>wait\<close> or the destructor (the flag of the \<open>Clear\<close> states). \<^const>\<open>None\<close>
  is a turn of a waiting loop.
\<close>

datatype 'j client =
    Check 'j | Read_next 'j | Set_next 'j nat | Push 'j nat
  | Clear bool | Clear_at bool nat | Clear_wait bool | Clear_end bool | Shut | Join
  | Wait | Returned

fun client_next :: "bool \<Rightarrow> 'j client \<Rightarrow> 'j pool \<Rightarrow> ('j client \<times> 'j pool) option" where
  "client_next joined (Check j) p = Some (if clear_count p \<noteq> 0 then Returned else Read_next j, p)"
| "client_next joined (Read_next j) p = Some (Set_next j (next_worker p), p)"
| "client_next joined (Set_next j index) p = Some (Push j index, set_next index p)"
| "client_next joined (Push j index) p = Some (Returned, push_job j index p)"
| "client_next joined (Clear d) p = Some (Clear_at d 0, p\<lparr>clear_count := clear_count p + 1\<rparr>)"
| "client_next joined (Clear_at d k) p =
     Some (if k < pool_threads p then (Clear_at d (Suc k), clear_queue k p) else (Clear_wait d, p))"
| "client_next joined (Clear_wait d) p = (if unfinished p \<noteq> 0 then None else Some (Clear_end d, p))"
| "client_next joined (Clear_end d) p = Some (if d then Shut else Returned, p\<lparr>clear_count := clear_count p - 1\<rparr>)"
| "client_next joined Shut p = Some (Join, p\<lparr>shutting_down := True\<rparr>)"
| "client_next joined Join p = (if joined then Some (Returned, p) else None)"
| "client_next joined Wait p = (if unfinished p \<noteq> 0 then None else Some (Returned, p))"
| "client_next joined Returned p = None"

section \<open>The system\<close>

text \<open>The last three components only record what happened to the jobs.\<close>

record 'j system =
  pool_of :: "'j pool"
  workers :: "'j wstate list"
  clients :: "'j client list"
  accepted :: "'j multiset"
  completed :: "'j multiset"
  dropped :: "'j multiset"

definition system_new :: "nat \<Rightarrow> int \<Rightarrow> 'j system" where
  "system_new hc threads =
     (let p = pool_new hc threads
      in \<lparr>pool_of = p, workers = replicate (pool_threads p) Own, clients = [],
          accepted = {#}, completed = {#}, dropped = {#}\<rparr>)"

definition worker_step :: "nat \<Rightarrow> nat \<Rightarrow> 'j system \<Rightarrow> 'j system" where
  "worker_step i k c =
     (case worker_next i k (workers c ! i) (pool_of c) of (w, p) \<Rightarrow>
        c\<lparr>pool_of := p, workers := (workers c)[i := w],
          completed := completed c + (case workers c ! i of Call j \<Rightarrow> {#j#} | _ \<Rightarrow> {#})\<rparr>)"

definition all_joined :: "'j system \<Rightarrow> bool" where
  "all_joined c = list_all (\<lambda>w. w = Exit) (workers c)"

definition client_step :: "nat \<Rightarrow> 'j system \<Rightarrow> 'j system option" where
  "client_step m c =
     (case client_next (all_joined c) (clients c ! m) (pool_of c) of
        None \<Rightarrow> None
      | Some (cl, p) \<Rightarrow>
          Some (c\<lparr>pool_of := p, clients := (clients c)[m := cl],
            accepted := accepted c + (case clients c ! m of Push j index \<Rightarrow> {#j#} | _ \<Rightarrow> {#}),
            dropped := dropped c + (case clients c ! m of
                Clear_at d k \<Rightarrow> if k < pool_threads (pool_of c) then mset (queues (pool_of c) ! k) else {#}
              | _ \<Rightarrow> {#})\<rparr>))"

inductive pool_step :: "'j system \<Rightarrow> 'j system \<Rightarrow> bool" where
  Worker: "i < length (workers c) \<Longrightarrow> k < length (workers c) \<Longrightarrow> pool_step c (worker_step i k c)"
| Client: "m < length (clients c) \<Longrightarrow> client_step m c = Some c' \<Longrightarrow> pool_step c c'"
| Call_of: "cl \<in> {Check j, Clear d, Wait} \<Longrightarrow> pool_step c (c\<lparr>clients := clients c @ [cl]\<rparr>)"

inductive_cases pool_stepE: "pool_step c c'"

definition reachable :: "nat \<Rightarrow> int \<Rightarrow> 'j system \<Rightarrow> bool" where
  "reachable hc threads c \<longleftrightarrow> pool_step\<^sup>*\<^sup>* (system_new hc threads) c"

end
