(* ===== verification/Pool_Correct.thy ===== *)
theory Pool_Correct
  imports Thread_Pool
begin

text \<open>
  What \<open>ThreadPool\<close> guarantees under every interleaving: the counter of unfinished jobs is the number of jobs
  queued, running or just done, no job is lost or run twice, and the workers can always finish the jobs.
\<close>

section \<open>Counting jobs\<close>

definition queued :: "'j pool \<Rightarrow> 'j multiset" where
  "queued p = \<Sum>\<^sub># (image_mset mset (mset (queues p)))"

definition called :: "'j wstate \<Rightarrow> 'j multiset" where
  "called w = (case w of Call j \<Rightarrow> {#j#} | _ \<Rightarrow> {#})"

definition busy :: "'j wstate \<Rightarrow> nat" where
  "busy w = (case w of Call j \<Rightarrow> 1 | Count j \<Rightarrow> 1 | _ \<Rightarrow> 0)"

definition running :: "'j system \<Rightarrow> 'j multiset" where
  "running c = \<Sum>\<^sub># (image_mset called (mset (workers c)))"

definition busy_workers :: "'j system \<Rightarrow> nat" where
  "busy_workers c = \<Sum>\<^sub># (image_mset busy (mset (workers c)))"

text \<open>The change of one element of a list, seen from its multiset.\<close>

lemma mset_split_nth: "i < length xs \<Longrightarrow> mset xs = add_mset (xs ! i) (mset (take i xs @ drop (Suc i) xs))"
  using id_take_nth_drop [of i xs] by (metis add_mset_add_single mset_append mset.simps(2) union_mset_add_mset_right)

lemma mset_update_nth: "i < length xs \<Longrightarrow> mset (xs[i := v]) = add_mset v (mset (take i xs @ drop (Suc i) xs))"
  by (simp add: upd_conv_take_nth_drop)

named_theorems pool_counts

lemma queued_update [pool_counts]:
  assumes "i < length (queues p)"
  shows "queued (p\<lparr>queues := (queues p)[i := q]\<rparr>) + mset (queues p ! i) = queued p + mset q"
  using mset_split_nth [OF assms] mset_update_nth [OF assms, of q] by (simp add: queued_def)

lemma sum_update:
  assumes "i < length xs"
  shows "\<Sum>\<^sub># (image_mset f (mset (xs[i := v]))) + f (xs ! i) = \<Sum>\<^sub># (image_mset f (mset xs)) + (f v :: 'a :: comm_monoid_add)"
  using mset_split_nth [OF assms] mset_update_nth [OF assms, of v] by (simp add: ac_simps)

lemma queued_le: "i < length (queues p) \<Longrightarrow> mset (queues p ! i) \<subseteq># queued p"
  using mset_split_nth [of i "queues p"] by (simp add: queued_def)

lemma queued_empty: "queued p = {#} \<longleftrightarrow> (\<forall>q \<in> set (queues p). q = [])"
  by (auto simp: queued_def)

section \<open>The invariant\<close>

definition client_ok :: "'j pool \<Rightarrow> 'j client \<Rightarrow> bool" where
  "client_ok p cl \<longleftrightarrow> (case cl of Set_next j i \<Rightarrow> i < pool_threads p | Push j i \<Rightarrow> i < pool_threads p | _ \<Rightarrow> True)"

definition sys_inv :: "'j system \<Rightarrow> bool" where
  "sys_inv c \<longleftrightarrow> 0 < pool_threads (pool_of c) \<and> length (workers c) = pool_threads (pool_of c)
     \<and> next_worker (pool_of c) < pool_threads (pool_of c) \<and> (\<forall>cl \<in> set (clients c). client_ok (pool_of c) cl)
     \<and> unfinished (pool_of c) = int (size (queued (pool_of c)) + busy_workers c)
     \<and> accepted c = queued (pool_of c) + running c + completed c + dropped c
     \<and> (Exit \<in> set (workers c) \<longrightarrow> shutting_down (pool_of c))"

lemma sys_inv_new: "sys_inv (system_new hc threads)"
  by (auto simp: sys_inv_def system_new_def pool_new_def pool_threads_def queued_def running_def busy_workers_def
      called_def busy_def adjust_threads_def Let_def)

lemma worker_step_counts:
  assumes "i < length (workers c)"
  shows "busy_workers (worker_step i k c) + busy (workers c ! i) = busy_workers c + busy (workers (worker_step i k c) ! i)"
    and "running (worker_step i k c) + called (workers c ! i) = running c + called (workers (worker_step i k c) ! i)"
  using sum_update [OF assms, of busy] sum_update [OF assms, of called] assms
  by (simp_all add: worker_step_def busy_workers_def running_def split: prod.split)

lemma pool_threads_update [simp]:
  "pool_threads (p\<lparr>queues := (queues p)[i := q]\<rparr>) = pool_threads p" "pool_threads (p\<lparr>unfinished := u\<rparr>) = pool_threads p"
  "pool_threads (set_next i p) = pool_threads p" "pool_threads (push_job j i p) = pool_threads p"
  "pool_threads (clear_queue i p) = pool_threads p" "pool_threads (p\<lparr>clear_count := n\<rparr>) = pool_threads p"
  "pool_threads (p\<lparr>shutting_down := b\<rparr>) = pool_threads p"
  by (simp_all add: pool_threads_def set_next_def push_job_def clear_queue_def)

lemma queued_unfinished [simp]: "queued (p\<lparr>unfinished := u\<rparr>) = queued p"
  by (simp add: queued_def)

lemma client_ok_cong: "pool_threads p' = pool_threads p \<Longrightarrow> client_ok p' = client_ok p"
  by (auto simp: client_ok_def fun_eq_iff split: client.split)

text \<open>What a worker's step does to the pool: the last job of its queue or the first job of another one is taken out.\<close>

lemma queued_take:
  assumes "i < length (queues p)" and "mset (queues p ! i) = add_mset j (mset q)"
  shows "queued p = add_mset j (queued (p\<lparr>queues := (queues p)[i := q]\<rparr>))"
  using queued_update [OF assms(1), of q] assms(2) by simp

lemma mset_last: "q \<noteq> [] \<Longrightarrow> mset q = add_mset (last q) (mset (butlast q))"
  by (metis add_mset_add_single append_butlast_last_id mset_append mset_single_iff_right mset.simps(1,2) union_mset_add_mset_right add.right_neutral)

lemma mset_hd: "q \<noteq> [] \<Longrightarrow> mset q = add_mset (hd q) (mset (tl q))"
  by (cases q) simp_all

lemma worker_next_cases:
  assumes "worker_next i k w p = (w', p')" and "i < pool_threads p" and "k < pool_threads p"
  shows "pool_threads p' = pool_threads p \<and> next_worker p' = next_worker p \<and> shutting_down p' = shutting_down p
    \<and> queued p + called w = queued p' + called w' + (case w of Call j \<Rightarrow> {#j#} | _ \<Rightarrow> {#})
    \<and> unfinished p - int (size (queued p) + busy w) = unfinished p' - int (size (queued p') + busy w')
    \<and> (w' = Exit \<longrightarrow> w = Exit \<or> shutting_down p)"
proof (cases w)
  case Own
  show ?thesis
  proof (cases "queues p ! i = []")
    case True
    with assms Own show ?thesis by (auto simp: called_def busy_def)
  next
    case False
    with assms Own have r: "w' = Call (last (queues p ! i))" "p' = p\<lparr>queues := (queues p)[i := butlast (queues p ! i)]\<rparr>"
      by (simp_all add: Let_def)
    have "queued p = add_mset (last (queues p ! i)) (queued p')"
      using queued_take [OF _ mset_last [OF False]] assms(2) by (simp add: pool_threads_def r)
    with r Own show ?thesis by (simp add: called_def busy_def)
  qed
next
  case Steal
  show ?thesis
  proof (cases "queues p ! k = []")
    case True
    with assms Steal show ?thesis by (auto simp: called_def busy_def)
  next
    case False
    with assms Steal have r: "w' = Call (hd (queues p ! k))" "p' = p\<lparr>queues := (queues p)[k := tl (queues p ! k)]\<rparr>"
      by (simp_all add: Let_def)
    have "queued p = add_mset (hd (queues p ! k)) (queued p')"
      using queued_take [OF _ mset_hd [OF False]] assms(3) by (simp add: pool_threads_def r)
    with r Steal show ?thesis by (simp add: called_def busy_def)
  qed
qed (use assms in \<open>auto simp: called_def busy_def split: if_splits\<close>)

lemma mset_balance:
  fixes Q :: "'a multiset"
  assumes "Q + A = Q' + A' + D" and "R' + A = R + A'"
  shows "Q + R = Q' + R' + D"
proof (rule multiset_eqI)
  fix x
  have "count (Q + A) x = count (Q' + A' + D) x" "count (R' + A) x = count (R + A') x" by (simp_all only: assms)
  then show "count (Q + R) x = count (Q' + R' + D) x" by simp
qed

lemma sys_inv_worker:
  assumes inv: "sys_inv c" and i: "i < length (workers c)" and k: "k < length (workers c)"
  shows "sys_inv (worker_step i k c)"
proof -
  let ?p = "pool_of c" and ?w = "workers c ! i"
  obtain w' p' where wn: "worker_next i k ?w ?p = (w', p')" by fastforce
  let ?c = "worker_step i k c"
  have f: "pool_of ?c = p'" "workers ?c = (workers c)[i := w']" "clients ?c = clients c" "accepted ?c = accepted c"
      "dropped ?c = dropped c" "completed ?c = completed c + (case ?w of Call j \<Rightarrow> {#j#} | _ \<Rightarrow> {#})"
    by (simp_all add: worker_step_def wn)
  have ik: "i < pool_threads ?p" "k < pool_threads ?p" using inv i k by (auto simp: sys_inv_def)
  note n = worker_next_cases [OF wn ik]
  from n have t: "pool_threads p' = pool_threads ?p" "next_worker p' = next_worker ?p" "shutting_down p' = shutting_down ?p"
    by (rule conjunct1, rule conjunct1 [OF conjunct2], rule conjunct1 [OF conjunct2 [OF conjunct2]])
  have q: "queued ?p + called ?w = queued p' + called w' + (case ?w of Call j \<Rightarrow> {#j#} | _ \<Rightarrow> {#})"
    using n by (elim conjE)
  have u: "unfinished ?p - int (size (queued ?p) + busy ?w) = unfinished p' - int (size (queued p') + busy w')"
    using n by (elim conjE)
  have e: "w' = Exit \<Longrightarrow> ?w = Exit \<or> shutting_down ?p" using n by simp
  note cnt = worker_step_counts [OF i, of k, unfolded f nth_list_update_eq [OF i]]
  have "unfinished p' = int (size (queued p') + busy_workers ?c)" using u cnt(1) inv by (simp add: sys_inv_def)
  moreover have "accepted c = queued p' + running ?c + completed ?c + dropped c"
  proof -
    have "queued ?p + running c = queued p' + running ?c + (case ?w of Call j \<Rightarrow> {#j#} | _ \<Rightarrow> {#})"
      using q cnt(2) by (rule mset_balance)
    then show ?thesis using inv by (simp add: sys_inv_def f ac_simps)
  qed
  moreover have "shutting_down p'" if x: "Exit \<in> set ((workers c)[i := w'])"
  proof -
    have "?w \<in> set (workers c)" using i by simp
    then have "Exit \<in> set (workers c) \<or> shutting_down ?p"
      using x e set_update_subset_insert [of "workers c" i w'] by auto
    then show ?thesis using inv t(3) by (auto simp: sys_inv_def)
  qed
  ultimately show ?thesis using inv t client_ok_cong [OF t(1)] by (simp add: sys_inv_def f)
qed

lemma queued_push:
  "i < pool_threads p \<Longrightarrow> queued (push_job j i p) = add_mset j (queued p)"
  using queued_update [of i p "queues p ! i @ [j]"] by (simp add: push_job_def pool_threads_def queued_def)

lemma queued_clear:
  "k < pool_threads p \<Longrightarrow> queued (clear_queue k p) + mset (queues p ! k) = queued p"
  using queued_update [of k p "[]"] by (simp add: clear_queue_def pool_threads_def queued_def)

definition accepts :: "'j client \<Rightarrow> 'j multiset" where
  "accepts cl = (case cl of Push j index \<Rightarrow> {#j#} | _ \<Rightarrow> {#})"

definition drops :: "'j pool \<Rightarrow> 'j client \<Rightarrow> 'j multiset" where
  "drops p cl = (case cl of Clear_at d k \<Rightarrow> if k < pool_threads p then mset (queues p ! k) else {#} | _ \<Rightarrow> {#})"

lemma client_next_cases:
  assumes "client_next joined cl p = Some (cl', p')" and "client_ok p cl" and "next_worker p < pool_threads p"
  shows "pool_threads p' = pool_threads p \<and> next_worker p' < pool_threads p \<and> client_ok p cl'
    \<and> (shutting_down p \<longrightarrow> shutting_down p')
    \<and> queued p' + drops p cl = queued p + accepts cl
    \<and> unfinished p' - int (size (queued p')) = unfinished p - int (size (queued p))"
proof (cases cl)
  case (Push j i)
  with assms have r: "cl' = Returned" "p' = push_job j i p" "i < pool_threads p" by (simp_all add: client_ok_def)
  have "next_worker p' = next_worker p" "unfinished p' = unfinished p + 1" "shutting_down p' = shutting_down p"
    by (simp_all add: r push_job_def)
  then show ?thesis using Push assms(3) r by (simp add: client_ok_def queued_push drops_def accepts_def)
next
  case (Clear_at d k)
  show ?thesis
  proof (cases "k < pool_threads p")
    case True
    from queued_clear [OF this] have q: "queued p = queued (clear_queue k p) + mset (queues p ! k)" by simp
    from Clear_at True assms have r: "cl' = Clear_at d (Suc k)" "p' = clear_queue k p" by simp_all
    have "size (queued p) = size (queued p') + length (queues p ! k)" unfolding r by (simp add: q)
    then show ?thesis using Clear_at True assms q
      by (simp add: r client_ok_def drops_def accepts_def) (simp add: clear_queue_def)
  next
    case False
    then show ?thesis using Clear_at assms by (auto simp: client_ok_def drops_def accepts_def)
  qed
next
  case (Set_next j i)
  have "(i + 1) mod pool_threads p < pool_threads p" using assms(3) by (intro mod_less_divisor) simp
  then show ?thesis using Set_next assms by (auto simp: client_ok_def drops_def accepts_def set_next_def queued_def pool_threads_def)
qed (use assms in \<open>auto simp: client_ok_def drops_def accepts_def queued_def split: if_splits\<close>)

lemma sys_inv_client:
  assumes inv: "sys_inv c" and m: "m < length (clients c)" and s: "client_step m c = Some c'"
  shows "sys_inv c'"
proof -
  let ?p = "pool_of c" and ?cl = "clients c ! m"
  from s obtain cl' p' where cn: "client_next (all_joined c) ?cl ?p = Some (cl', p')"
    by (auto simp: client_step_def split: option.splits)
  have f: "pool_of c' = p'" "workers c' = workers c" "clients c' = (clients c)[m := cl']"
      "accepted c' = accepted c + accepts ?cl" "dropped c' = dropped c + drops ?p ?cl" "completed c' = completed c"
    using s by (simp_all add: client_step_def cn accepts_def drops_def) (use s in \<open>auto simp: client_step_def cn accepts_def drops_def\<close>)
  have ok: "client_ok ?p ?cl" "next_worker ?p < pool_threads ?p" using inv m by (simp_all add: sys_inv_def)
  note n = client_next_cases [OF cn ok]
  from n have t: "pool_threads p' = pool_threads ?p" and nw: "next_worker p' < pool_threads ?p"
    and cok: "client_ok ?p cl'" and sd: "shutting_down ?p \<Longrightarrow> shutting_down p'"
    and q: "queued p' + drops ?p ?cl = queued ?p + accepts ?cl"
    and u: "unfinished p' - int (size (queued p')) = unfinished ?p - int (size (queued ?p))" by simp_all
  have b: "busy_workers c' = busy_workers c" "running c' = running c" by (simp_all add: busy_workers_def running_def f)
  have acc: "accepted c' = queued p' + running c' + completed c' + dropped c'"
  proof -
    have "accepted c' = (queued ?p + accepts ?cl) + running c + completed c + dropped c"
      using inv by (simp add: sys_inv_def f ac_simps)
    then show ?thesis by (simp add: q [symmetric] f b ac_simps)
  qed
  have cl: "\<forall>cl \<in> set ((clients c)[m := cl']). client_ok p' cl"
    using inv cok client_ok_cong [OF t] set_update_subset_insert [of "clients c" m cl'] by (auto simp: sys_inv_def)
  have un: "unfinished p' = int (size (queued p') + busy_workers c')" using inv u by (simp add: sys_inv_def b)
  show ?thesis
    unfolding sys_inv_def f(1,2,3) t
  proof (intro conjI impI)
    show "0 < pool_threads ?p" "length (workers c) = pool_threads ?p" using inv by (simp_all add: sys_inv_def)
    show "shutting_down p'" if "Exit \<in> set (workers c)" using that inv sd by (simp add: sys_inv_def)
  qed (rule nw cl un acc)+
qed

lemma sys_inv_step: "pool_step c c' \<Longrightarrow> sys_inv c \<Longrightarrow> sys_inv c'"
proof (induction rule: pool_step.induct)
  case (Worker i c k)
  show ?case by (rule sys_inv_worker [OF Worker(3) Worker(1) Worker(2)])
next
  case (Client m c c')
  show ?case by (rule sys_inv_client [OF Client(3) Client(1) Client(2)])
next
  case (Call_of cl j d c)
  then show ?case
    by (auto simp: sys_inv_def busy_workers_def running_def client_ok_def)
qed

lemma sys_inv_reachable: "reachable hc threads c \<Longrightarrow> sys_inv c"
  unfolding reachable_def
proof (induction rule: rtranclp_induct)
  case base
  show ?case by (rule sys_inv_new)
next
  case (step c c')
  show ?case by (rule sys_inv_step [OF step(2) step(3)])
qed

section \<open>Progress\<close>

definition worker_moves :: "'j system \<Rightarrow> 'j system \<Rightarrow> bool" where
  "worker_moves c c' \<longleftrightarrow> (\<exists>i < length (workers c). \<exists>k < length (workers c). c' = worker_step i k c)"

definition work :: "'j wstate \<Rightarrow> nat" where
  "work w = (case w of Call j \<Rightarrow> 2 | Count j \<Rightarrow> 1 | _ \<Rightarrow> 0)"

definition work_left :: "'j system \<Rightarrow> nat" where
  "work_left c = 3 * size (queued (pool_of c)) + \<Sum>\<^sub># (image_mset work (mset (workers c)))"

lemma worker_step_fields:
  "clients (worker_step i k c) = clients c" "accepted (worker_step i k c) = accepted c" "dropped (worker_step i k c) = dropped c"
  by (simp_all add: worker_step_def split: prod.split)

lemma worker_step_shutting_down: "shutting_down (pool_of (worker_step i k c)) = shutting_down (pool_of c)"
  by (cases "workers c ! i") (simp_all add: worker_step_def Let_def)

lemma work_left_step:
  assumes "i < length (workers c)" and "worker_next i k (workers c ! i) (pool_of c) = (w', p')"
  shows "work_left (worker_step i k c) + work (workers c ! i) + 3 * size (queued (pool_of c))
    = work_left c + work w' + 3 * size (queued p')"
  using sum_update [OF assms(1), of work w'] by (simp add: work_left_def worker_step_def assms(2))

text \<open>While there is work left, one or two steps of one worker make it less.\<close>

lemma worker_progress:
  assumes inv: "sys_inv c" and sd: "\<not> shutting_down (pool_of c)" and left: "0 < work_left c"
  shows "\<exists>c'. worker_moves\<^sup>*\<^sup>* c c' \<and> work_left c' < work_left c"
proof (cases "\<exists>i < length (workers c). work (workers c ! i) \<noteq> 0")
  case True
  then obtain i where i: "i < length (workers c)" "work (workers c ! i) \<noteq> 0" by blast
  have "work_left (worker_step i i c) < work_left c"
    using work_left_step [OF i(1), of i] i(2) by (cases "workers c ! i") (auto simp: work_def)
  moreover have "worker_moves c (worker_step i i c)" using i(1) by (auto simp: worker_moves_def)
  ultimately show ?thesis by blast
next
  case False
  then have z: "work (workers c ! i) = 0" if "i < length (workers c)" for i using that by blast
  then have "\<forall>w \<in> set (workers c). work w = 0" by (auto simp: in_set_conv_nth)
  then have "\<Sum>\<^sub># (image_mset work (mset (workers c))) = 0" by simp
  with left have "queued (pool_of c) \<noteq> {#}" by (auto simp: work_left_def)
  then obtain i where i: "i < length (queues (pool_of c))" "queues (pool_of c) ! i \<noteq> []"
    by (auto simp: queued_empty in_set_conv_nth)
  then have iw: "i < length (workers c)" using inv by (simp add: sys_inv_def pool_threads_def)
  have take: "work_left (worker_step i i d) < work_left d"
    if d: "pool_of d = pool_of c" "i < length (workers d)" "workers d ! i = Own \<or> workers d ! i = Steal" for d :: "'a system"
  proof -
    let ?q = "queues (pool_of c) ! i"
    obtain j q where n: "worker_next i i (workers d ! i) (pool_of d) = (Call j, (pool_of c)\<lparr>queues := (queues (pool_of c))[i := q]\<rparr>)"
      and q: "mset ?q = add_mset j (mset q)"
      using d i mset_last [OF i(2)] mset_hd [OF i(2)] by (auto simp: Let_def)
    from queued_take [OF i(1) q] work_left_step [OF d(2) n] d(1,3) show ?thesis by (auto simp: work_def)
  qed
  show ?thesis
  proof (cases "workers c ! i = Idle")
    case False
    have "Exit \<notin> set (workers c)" using inv sd by (auto simp: sys_inv_def)
    then have "workers c ! i \<noteq> Exit" using iw by (metis nth_mem)
    with False z [OF iw] have "workers c ! i = Own \<or> workers c ! i = Steal" by (cases "workers c ! i") (auto simp: work_def)
    from take [OF refl iw this] have "work_left (worker_step i i c) < work_left c" .
    moreover have "worker_moves c (worker_step i i c)" using iw by (auto simp: worker_moves_def)
    ultimately show ?thesis by blast
  next
    case True
    let ?d = "worker_step i i c"
    have d: "pool_of ?d = pool_of c" "workers ?d = (workers c)[i := Own]" using True sd by (simp_all add: worker_step_def)
    have same: "work_left ?d = work_left c" using work_left_step [OF iw, of i Own "pool_of c"] True sd by (simp add: work_def)
    have "work_left (worker_step i i ?d) < work_left ?d" using iw by (intro take) (simp_all add: d)
    moreover have "worker_moves c ?d" "worker_moves ?d (worker_step i i ?d)" using iw by (auto simp: worker_moves_def d)
    ultimately show ?thesis using same by (metis converse_rtranclp_into_rtranclp r_into_rtranclp)
  qed
qed

definition same_jobs :: "'j system \<Rightarrow> 'j system \<Rightarrow> bool" where
  "same_jobs c c' \<longleftrightarrow> clients c' = clients c \<and> accepted c' = accepted c \<and> dropped c' = dropped c
     \<and> shutting_down (pool_of c') = shutting_down (pool_of c)"

lemma worker_moves_inv:
  "worker_moves\<^sup>*\<^sup>* c c' \<Longrightarrow> sys_inv c \<Longrightarrow> sys_inv c' \<and> same_jobs c c'"
proof (induction rule: rtranclp_induct)
  case base
  then show ?case by (simp add: same_jobs_def)
next
  case (step c1 c2)
  then obtain i k where "i < length (workers c1)" "k < length (workers c1)" "c2 = worker_step i k c1"
    by (auto simp: worker_moves_def)
  with step show ?case
    by (simp add: sys_inv_worker same_jobs_def worker_step_fields worker_step_shutting_down)
qed

lemma workers_drain:
  assumes "sys_inv c" and "\<not> shutting_down (pool_of c)"
  shows "\<exists>c'. worker_moves\<^sup>*\<^sup>* c c' \<and> work_left c' = 0"
  using assms
proof (induction "work_left c" arbitrary: c rule: less_induct)
  case less
  show ?case
  proof (cases "work_left c = 0")
    case True
    then show ?thesis by blast
  next
    case False
    with worker_progress [OF less.prems] obtain d where d: "worker_moves\<^sup>*\<^sup>* c d" "work_left d < work_left c" by auto
    from worker_moves_inv [OF d(1) less.prems(1)] less.prems(2) have "sys_inv d" "\<not> shutting_down (pool_of d)"
      by (simp_all add: same_jobs_def)
    from less.hyps [OF d(2) this] d(1) show ?thesis by (meson rtranclp_trans)
  qed
qed

lemma work_left_0: "work_left c = 0 \<Longrightarrow> queued (pool_of c) = {#} \<and> running c = {#} \<and> busy_workers c = 0"
proof -
  assume "work_left c = 0"
  then have q: "queued (pool_of c) = {#}" and w: "\<forall>w \<in> set (workers c). work w = 0" by (auto simp: work_left_def)
  have "called w = {#} \<and> busy w = 0" if "work w = 0" for w :: "'a wstate"
    using that by (cases w) (simp_all add: work_def called_def busy_def)
  with q w show ?thesis by (simp add: running_def busy_workers_def)
qed

section \<open>Schedules\<close>

text \<open>A schedule as a list: whose step is next.\<close>

datatype 'j choice = By_worker nat nat | By_client nat | New_client "'j client"

fun schedule :: "'j choice list \<Rightarrow> 'j system \<Rightarrow> 'j system option" where
  "schedule [] c = Some c"
| "schedule (By_worker i k # cs) c =
     (if i < length (workers c) \<and> k < length (workers c) then schedule cs (worker_step i k c) else None)"
| "schedule (By_client m # cs) c =
     (if m < length (clients c) then (case client_step m c of None \<Rightarrow> None | Some c' \<Rightarrow> schedule cs c') else None)"
| "schedule (New_client cl # cs) c =
     (if (\<exists>j d. cl \<in> {Check j, Clear d, Wait}) then schedule cs (c\<lparr>clients := clients c @ [cl]\<rparr>) else None)"

lemma schedule_steps: "schedule cs c = Some c' \<Longrightarrow> pool_step\<^sup>*\<^sup>* c c'"
proof (induction cs c rule: schedule.induct)
  case (1 c)
  then show ?case by simp
next
  case (2 i k cs c)
  then have "pool_step c (worker_step i k c)" "pool_step\<^sup>*\<^sup>* (worker_step i k c) c'" by (auto intro: Worker split: if_splits)
  then show ?case by (rule converse_rtranclp_into_rtranclp)
next
  case (3 m cs c)
  then obtain d where "client_step m c = Some d" "m < length (clients c)" "pool_step\<^sup>*\<^sup>* d c'"
    by (auto split: if_splits option.splits)
  then show ?case by (auto intro: Client converse_rtranclp_into_rtranclp)
next
  case (4 cl cs c)
  then have "pool_step c (c\<lparr>clients := clients c @ [cl]\<rparr>)" "pool_step\<^sup>*\<^sup>* (c\<lparr>clients := clients c @ [cl]\<rparr>) c'"
    by (auto intro: Call_of split: if_splits)
  then show ?case by (rule converse_rtranclp_into_rtranclp)
qed

section \<open>Properties\<close>

text \<open>
  C33. In every state the pool can reach, under every interleaving of its workers and of calls of \<open>insert\<close>, \<open>clear\<close>,
  \<open>wait\<close> and the destructor: the counter of unfinished jobs is the number of jobs queued plus the number of
  workers busy with one; every job accepted is in exactly one place, queued, running, run to its end or dropped
  by \<open>clear\<close>; the counter is zero only when no job is queued and no worker is busy, so a thread that gets past
  \<open>wait\<close> finds every accepted job run or dropped; and no worker ends before the pool shuts down.
\<close>

theorem thread_pool_safe:
  assumes "reachable hc threads c"
  shows "unfinished (pool_of c) = int (size (queued (pool_of c)) + busy_workers c)
    \<and> accepted c = queued (pool_of c) + running c + completed c + dropped c
    \<and> (pool_poll (pool_of c) \<longleftrightarrow> (\<forall>q \<in> set (queues (pool_of c)). q = []) \<and> (\<forall>w \<in> set (workers c). busy w = 0))
    \<and> (\<forall>m < length (clients c). (\<exists>d. clients c ! m \<in> {Wait, Clear_wait d}) \<and> client_step m c \<noteq> None
          \<longrightarrow> accepted c = completed c + dropped c)
    \<and> (Exit \<in> set (workers c) \<longrightarrow> shutting_down (pool_of c))"
proof -
  note inv = sys_inv_reachable [OF assms]
  then have u: "unfinished (pool_of c) = int (size (queued (pool_of c)) + busy_workers c)"
    and a: "accepted c = queued (pool_of c) + running c + completed c + dropped c"
    and e: "Exit \<in> set (workers c) \<longrightarrow> shutting_down (pool_of c)" by (auto simp: sys_inv_def)
  have p: "pool_poll (pool_of c) \<longleftrightarrow> queued (pool_of c) = {#} \<and> (\<forall>w \<in> set (workers c). busy w = 0)"
  proof -
    have "busy_workers c = 0 \<longleftrightarrow> (\<forall>w \<in> set (workers c). busy w = 0)" by (simp add: busy_workers_def)
    moreover have "unfinished (pool_of c) = 0 \<longleftrightarrow> size (queued (pool_of c)) = 0 \<and> busy_workers c = 0" unfolding u by linarith
    ultimately show ?thesis by (simp add: pool_poll_def)
  qed
  have idle: "running c = {#}" if "\<forall>w \<in> set (workers c). busy w = 0"
  proof -
    have "called w = {#}" if "busy w = 0" for w :: "'a wstate" using that by (cases w) (simp_all add: called_def busy_def)
    with that show ?thesis by (simp add: running_def)
  qed
  have "accepted c = completed c + dropped c" if "clients c ! m \<in> {Wait, Clear_wait d}" "client_step m c \<noteq> None" for m d
  proof -
    have "pool_poll (pool_of c)" using that by (auto simp: client_step_def pool_poll_def split: if_splits)
    with p idle a show ?thesis by simp
  qed
  with u a e p show ?thesis by (auto simp: queued_empty)
qed

definition two_workers :: "nat system" where
  "two_workers =
     the (schedule [New_client (Check 7), By_client 0, By_client 0, By_client 0, By_client 0, By_worker 1 0, By_worker 1 0]
       (system_new 0 2))"

lemma two_workers_state:
  "two_workers = \<lparr>pool_of = \<lparr>clear_count = 0, next_worker = 1, unfinished = 1, shutting_down = False, queues = [[], []]\<rparr>,
     workers = [Own, Call 7], clients = [Returned], accepted = {#7#}, completed = {#}, dropped = {#}\<rparr>"
  by (simp add: two_workers_def system_new_def pool_new_def adjust_threads_def pool_threads_def client_step_def
      worker_step_def set_next_def push_job_def numeral_2_eq_2)

lemma two_workers_reachable: "reachable 0 2 two_workers"
proof -
  have "schedule [New_client (Check (7 :: nat)), By_client 0, By_client 0, By_client 0, By_client 0, By_worker 1 0, By_worker 1 0]
       (system_new 0 2) = Some two_workers"
    by (simp add: two_workers_state system_new_def pool_new_def adjust_threads_def pool_threads_def client_step_def
      worker_step_def set_next_def push_job_def numeral_2_eq_2)
  from schedule_steps [OF this] show ?thesis by (simp add: reachable_def)
qed

theorem thread_pool_safe_witness:
  "unfinished (pool_of two_workers) = 1 \<and> running two_workers = {#7#} \<and> accepted two_workers = running two_workers"
  using thread_pool_safe [OF two_workers_reachable]
  by (simp add: two_workers_state running_def called_def queued_def busy_workers_def busy_def)

text \<open>
  C34. As long as the pool is not shut down its workers can finish: from every reachable state there is a sequence
  of steps of the workers alone after which the counter is zero and exactly the jobs that were queued or running
  have been run, once each, and a thread that waits goes on.
\<close>

theorem thread_pool_drains:
  assumes "reachable hc threads c" and "\<not> shutting_down (pool_of c)"
  shows "\<exists>c'. worker_moves\<^sup>*\<^sup>* c c' \<and> pool_poll (pool_of c') \<and> clients c' = clients c
    \<and> completed c' = completed c + queued (pool_of c) + running c
    \<and> (\<forall>m < length (clients c'). clients c' ! m = Wait \<longrightarrow> client_step m c' \<noteq> None)"
proof -
  note inv = sys_inv_reachable [OF assms(1)]
  from workers_drain [OF inv assms(2)] obtain c' where m: "worker_moves\<^sup>*\<^sup>* c c'" and "work_left c' = 0" by blast
  then have z: "queued (pool_of c') = {#}" "running c' = {#}" "busy_workers c' = 0" using work_left_0 by blast+
  from worker_moves_inv [OF m inv] have inv': "sys_inv c'" and same: "same_jobs c c'" by blast+
  have poll: "pool_poll (pool_of c')" using inv' z by (simp add: sys_inv_def pool_poll_def)
  have "queued (pool_of c) + running c + completed c + dropped c = completed c' + dropped c"
  proof -
    have "accepted c = queued (pool_of c) + running c + completed c + dropped c" using inv by (simp add: sys_inv_def)
    moreover have "accepted c' = completed c' + dropped c'" using inv' z by (simp add: sys_inv_def)
    moreover have "accepted c' = accepted c" "dropped c' = dropped c" using same by (simp_all add: same_jobs_def)
    ultimately show ?thesis by metis
  qed
  then have "completed c' = completed c + queued (pool_of c) + running c" by (simp add: ac_simps)
  moreover have "client_step m c' \<noteq> None" if "clients c' ! m = Wait" for m
    using that poll by (simp add: client_step_def pool_poll_def)
  ultimately show ?thesis using m poll same by (auto simp: same_jobs_def)
qed

theorem thread_pool_drains_witness:
  "\<exists>c'. worker_moves\<^sup>*\<^sup>* two_workers c' \<and> pool_poll (pool_of c') \<and> completed c' = {#7#}"
  using thread_pool_drains [OF two_workers_reachable]
  by (simp add: two_workers_state running_def called_def queued_def) blast

section \<open>each\<close>

text \<open>With steps of one, \<open>each\<close> takes every index once; with a step of zero it never ends.\<close>

lemma each_up_1: "each_up i 1 stop = Some [i..stop - 1]"
proof (induction "nat (stop - i)" arbitrary: i)
  case 0
  then show ?case by (subst each_up.simps) simp
next
  case (Suc n)
  then have "i < stop" "each_up (i + 1) 1 stop = Some [i + 1..stop - 1]" by simp_all
  then show ?case by (subst each_up.simps) (simp add: upto_rec1)
qed

lemma each_zero_raw: "each_up i delta stop = Some is \<Longrightarrow> delta = 0 \<longrightarrow> \<not> i < stop"
  by (erule each_up.raw_induct [where P = "\<lambda>i delta stop is. delta = 0 \<longrightarrow> \<not> i < stop", rotated])
    (auto split: if_splits Option.bind_splits)

lemma each_zero: "i < stop \<Longrightarrow> pool_each i 0 stop f p = None"
  using each_zero_raw [of i 0 stop] by (cases "each_up i 0 stop") (auto simp: pool_each_def)

end
