(* ===== verification/Dispatch.thy ===== *)
theory Dispatch
  imports Channel
begin

text \<open>
  The \<open>Dispatch\<close> controller of \<open>channel.cpp\<close>. Channels are their addresses, values of a linear order because
  \<open>tasks_\<close> is a map ordered by address; what the virtual functions of the channels and the handlers do is given
  by a record of functions on a world that holds the state of all channels. The threads of asynchronous
  channels are the environment of \<open>run\<close>: they act while it sleeps.
\<close>

section \<open>The controller\<close>

type_synonym 'c fault = "'c \<times> exn option"

record 'c dispatch =
  tasks :: "'c list"
  faults :: "'c fault list"

record ('c, 's) channel_ops =
  op_synchronous :: "'c \<Rightarrow> bool"
  op_poll :: "'c \<Rightarrow> 's \<Rightarrow> bool res \<times> 's"
  op_is_closed :: "'c \<Rightarrow> 's \<Rightarrow> bool"
  op_close :: "'c \<Rightarrow> 's \<Rightarrow> 's"
  op_handler :: "'c \<Rightarrow> 's \<Rightarrow> unit res \<times> 's"

definition dispatch_default :: "'c dispatch" where
  "dispatch_default = \<lparr>tasks = [], faults = []\<rparr>"

definition fault_is_closed :: "'c fault option \<Rightarrow> bool" where
  "fault_is_closed r = (case r of None \<Rightarrow> False | Some (c, e) \<Rightarrow> e = None)"

definition fault_is_empty :: "'c fault option \<Rightarrow> bool" where
  "fault_is_empty r = (r = None)"

definition fault_is_error :: "'c fault option \<Rightarrow> bool" where
  "fault_is_error r = (case r of None \<Rightarrow> False | Some (c, e) \<Rightarrow> e \<noteq> None)"

definition dispatch_empty :: "'c dispatch \<Rightarrow> bool" where
  "dispatch_empty d = (tasks d = [])"

definition add_channel :: "'c :: linorder \<Rightarrow> 'c dispatch \<Rightarrow> 'c dispatch res" where
  "add_channel c d =
     (if c \<in> set (tasks d) then Inl (Invalid_argument ''Duplicate channel in dispatch set'')
      else Inr (d\<lparr>tasks := insort c (tasks d)\<rparr>))"

text \<open>\<open>check_call\<close>: an empty function object is refused.\<close>

definition dispatch_add :: "'c :: linorder \<Rightarrow> bool \<Rightarrow> 'c dispatch \<Rightarrow> 'c dispatch res" where
  "dispatch_add c callable d = (if \<not> callable then Inl Bad_function_call else add_channel c d)"

definition drop_channel :: "'c \<Rightarrow> 'c dispatch \<Rightarrow> 'c dispatch" where
  "drop_channel c d = d\<lparr>tasks := remove1 c (tasks d)\<rparr>"

definition set_fault ::
    "('c, 's) channel_ops \<Rightarrow> 'c \<Rightarrow> exn option \<Rightarrow> 'c dispatch \<times> 's \<Rightarrow> 'c dispatch \<times> 's" where
  "set_fault ops c e ds = (case ds of (d, s) \<Rightarrow> (d\<lparr>faults := faults d @ [(c, e)]\<rparr>, op_close ops c s))"

text \<open>One turn of the thread of an asynchronous channel, after its wait; the flag tells whether the thread goes on.\<close>

definition async_turn :: "('c, 's) channel_ops \<Rightarrow> 'c \<Rightarrow> 'c dispatch \<times> 's \<Rightarrow> bool \<times> 'c dispatch \<times> 's" where
  "async_turn ops c ds = (case ds of (d, s) \<Rightarrow>
     (if op_is_closed ops c s then (False, set_fault ops c None (d, s))
      else case op_handler ops c s of
        (Inl e, s') \<Rightarrow> (False, set_fault ops c (Some e) (d, s'))
      | (Inr _, s') \<Rightarrow> (True, d, s')))"

section \<open>run and stop\<close>

text \<open>The loop over the tasks: the number of handlers called, and the state.\<close>

fun run_pass :: "('c, 's) channel_ops \<Rightarrow> 'c list \<Rightarrow> nat \<Rightarrow> 'c dispatch \<times> 's \<Rightarrow> nat \<times> 'c dispatch \<times> 's" where
  "run_pass ops [] calls ds = (calls, ds)"
| "run_pass ops (c # cs) calls (d, s) =
     (if \<not> op_synchronous ops c then run_pass ops cs calls (d, s)
      else case op_poll ops c s of
        (Inl e, s1) \<Rightarrow> (calls, set_fault ops c (Some e) (d, s1))
      | (Inr ready, s1) \<Rightarrow>
          if \<not> ready then run_pass ops cs calls (d, s1)
          else if op_is_closed ops c s1 then (calls, set_fault ops c None (d, s1))
          else (case op_handler ops c s1 of
            (Inl e, s2) \<Rightarrow> (calls, set_fault ops c (Some e) (d, s2))
          | (Inr _, s2) \<Rightarrow> run_pass ops cs (Suc calls) (d, s2)))"

definition min_interval :: int where "min_interval = 1000"
definition max_interval :: int where "max_interval = 1000000"

text \<open>\<open>env t\<close> is what the other threads do while \<open>run\<close> sleeps for \<open>t\<close> nanoseconds, or yields for \<open>t = 0\<close>.\<close>

partial_function (option) run_loop ::
    "('c, 's) channel_ops \<Rightarrow> (int \<Rightarrow> 'c dispatch \<times> 's \<Rightarrow> 'c dispatch \<times> 's) \<Rightarrow> int \<Rightarrow> nat \<Rightarrow> 'c dispatch \<times> 's
      \<Rightarrow> ('c fault \<times> 'c dispatch \<times> 's) option" where
  "run_loop ops env interval waits ds =
     (case run_pass ops (tasks (fst ds)) 0 ds of (calls, d, s) \<Rightarrow>
        (case faults d of
           fault # rest \<Rightarrow> Some (fault, drop_channel (fst fault) (d\<lparr>faults := rest\<rparr>), s)
         | [] \<Rightarrow>
             if calls = 0
             then (let t = (if Suc waits = 1 then min_interval else min (2 * interval) max_interval)
                   in run_loop ops env t (Suc waits) (env t (d, s)))
             else run_loop ops env interval 0 (env 0 (d, s))))"

definition dispatch_run ::
    "('c, 's) channel_ops \<Rightarrow> (int \<Rightarrow> 'c dispatch \<times> 's \<Rightarrow> 'c dispatch \<times> 's) \<Rightarrow> 'c dispatch \<times> 's
      \<Rightarrow> ('c fault option \<times> 'c dispatch \<times> 's) option" where
  "dispatch_run ops env ds =
     (if tasks (fst ds) = [] then Some (None, ds)
      else map_option (\<lambda>(fault, ds'). (Some fault, ds')) (run_loop ops env min_interval 0 ds))"

text \<open>The results of the calls of \<open>run\<close>, which \<open>stop\<close> throws away, are kept to speak about them.\<close>

partial_function (option) stop_loop ::
    "('c, 's) channel_ops \<Rightarrow> (int \<Rightarrow> 'c dispatch \<times> 's \<Rightarrow> 'c dispatch \<times> 's) \<Rightarrow> 'c fault option list \<Rightarrow> 'c dispatch \<times> 's
      \<Rightarrow> ('c fault option list \<times> 'c dispatch \<times> 's) option" where
  "stop_loop ops env seen ds =
     (if tasks (fst ds) = [] then Some (seen, ds)
      else case dispatch_run ops env ds of None \<Rightarrow> None | Some (r, ds') \<Rightarrow> stop_loop ops env (seen @ [r]) ds')"

definition dispatch_stop ::
    "('c, 's) channel_ops \<Rightarrow> (int \<Rightarrow> 'c dispatch \<times> 's \<Rightarrow> 'c dispatch \<times> 's) \<Rightarrow> 'c dispatch \<times> 's
      \<Rightarrow> ('c fault option list \<times> 'c dispatch \<times> 's) option" where
  "dispatch_stop ops env ds =
     stop_loop ops env [] (fst ds, fold (op_close ops) (tasks (fst ds)) (snd ds))"

section \<open>What a call of run gives\<close>

text \<open>The laws of \<open>Channel\<close>, for the channels of a set: \<open>close\<close> closes and opens nothing, a closed channel polls true
  and stays closed.\<close>

definition channel_laws :: "('c, 's) channel_ops \<Rightarrow> bool" where
  "channel_laws ops \<longleftrightarrow>
     (\<forall>c s. op_is_closed ops c (op_close ops c s))
     \<and> (\<forall>c d s. op_is_closed ops d s \<longrightarrow> op_is_closed ops d (op_close ops c s))
     \<and> (\<forall>c s. op_is_closed ops c s \<longrightarrow> (\<exists>s'. op_poll ops c s = (Inr True, s') \<and> (\<forall>d. op_is_closed ops d s \<longrightarrow> op_is_closed ops d s')))"

lemma closed_all:
  "channel_laws ops \<Longrightarrow> c \<in> set cs \<or> op_is_closed ops c s \<Longrightarrow> op_is_closed ops c (fold (op_close ops) cs s)"
proof (induction cs arbitrary: s)
  case Nil
  then show ?case by simp
next
  case (Cons a cs)
  then have "c \<in> set cs \<or> op_is_closed ops c (op_close ops a s)" unfolding channel_laws_def by (metis set_ConsD)
  with Cons show ?case by simp
qed

text \<open>A pass adds at most one fault, for a synchronous channel of the set.\<close>

lemma run_pass_fault:
  "run_pass ops cs calls (d, s) = (n, d', s') \<Longrightarrow>
     d' = d \<or> (\<exists>c e. c \<in> set cs \<and> op_synchronous ops c \<and> d' = d\<lparr>faults := faults d @ [(c, e)]\<rparr>)"
proof (induction cs arbitrary: calls s)
  case Nil
  then show ?case by simp
next
  case (Cons c cs)
  show ?case
  proof (cases "\<exists>calls s. run_pass ops cs calls (d, s) = (n, d', s')")
    case True
    with Cons.IH show ?thesis by auto
  next
    case False
    with Cons.prems have "\<exists>e. op_synchronous ops c \<and> d' = d\<lparr>faults := faults d @ [(c, e)]\<rparr>"
      by (auto simp: set_fault_def split: if_splits prod.splits sum.splits)
    then show ?thesis by auto
  qed
qed

lemma run_first_closed:
  assumes laws: "channel_laws ops" and c: "op_synchronous ops c" "op_is_closed ops c s" and d: "tasks d = c # cs" "faults d = []"
  shows "\<exists>s'. dispatch_run ops env (d, s) = Some (Some (c, None), \<lparr>tasks = cs, faults = []\<rparr>, s')
    \<and> (\<forall>a. op_is_closed ops a s \<longrightarrow> op_is_closed ops a s')"
proof -
  from laws c(2) obtain s1 where p: "op_poll ops c s = (Inr True, s1)" "\<forall>a. op_is_closed ops a s \<longrightarrow> op_is_closed ops a s1"
    unfolding channel_laws_def by blast
  then have "run_pass ops (c # cs) 0 (d, s) = (0, d\<lparr>faults := [(c, None)]\<rparr>, op_close ops c s1)"
    using c d by (simp add: set_fault_def)
  then have "dispatch_run ops env (d, s) = Some (Some (c, None), \<lparr>tasks = cs, faults = []\<rparr>, op_close ops c s1)"
    using d by (simp add: dispatch_run_def run_loop.simps [of _ _ _ _ "(d, s)"] drop_channel_def)
  moreover have "\<forall>a. op_is_closed ops a s \<longrightarrow> op_is_closed ops a (op_close ops c s1)"
    using p(2) laws unfolding channel_laws_def by blast
  ultimately show ?thesis by blast
qed

lemma stop_loop_closed:
  assumes laws: "channel_laws ops"
  shows "\<forall>c \<in> set (tasks d). op_synchronous ops c \<and> op_is_closed ops c s \<Longrightarrow> faults d = [] \<Longrightarrow>
    \<exists>s'. stop_loop ops env seen (d, s) = Some (seen @ map (\<lambda>c. Some (c, None)) (tasks d), \<lparr>tasks = [], faults = []\<rparr>, s')
      \<and> (\<forall>a. op_is_closed ops a s \<longrightarrow> op_is_closed ops a s')"
proof (induction "tasks d" arbitrary: d s seen)
  case Nil
  then show ?case by (subst stop_loop.simps) simp
next
  case (Cons c cs)
  have c: "op_synchronous ops c" "op_is_closed ops c s" using Cons.prems(1) Cons.hyps(2) [symmetric] by simp_all
  from run_first_closed [OF laws c Cons.hyps(2) [symmetric] Cons.prems(2), of env]
  obtain s1 where r: "dispatch_run ops env (d, s) = Some (Some (c, None), \<lparr>tasks = cs, faults = []\<rparr>, s1)"
    and cl: "\<forall>a. op_is_closed ops a s \<longrightarrow> op_is_closed ops a s1" by blast
  have "\<forall>a \<in> set (tasks \<lparr>tasks = cs, faults = []\<rparr>). op_synchronous ops a \<and> op_is_closed ops a s1"
    using Cons.prems(1) Cons.hyps(2) [symmetric] cl by simp
  from Cons.hyps(1) [OF _ this, of "seen @ [Some (c, None)]"] obtain s2 where
    "stop_loop ops env (seen @ [Some (c, None)]) (\<lparr>tasks = cs, faults = []\<rparr>, s1)
       = Some ((seen @ [Some (c, None)]) @ map (\<lambda>c. Some (c, None)) cs, \<lparr>tasks = [], faults = []\<rparr>, s2)"
    and "\<forall>a. op_is_closed ops a s1 \<longrightarrow> op_is_closed ops a s2" by auto
  with r cl Cons.hyps(2) [symmetric] show ?case by (subst stop_loop.simps) auto
qed

text \<open>
  C35. \<open>stop\<close> on a set of synchronous channels with no fault pending ends, whatever the channels and their handlers
  did before and whatever other threads do: it takes one call of \<open>run\<close> for each channel, each is reported once, as
  closed, in the order of the map, and at the end the set is empty and every channel is closed.
\<close>

theorem dispatch_stop_ends:
  assumes "channel_laws ops" and "\<forall>c \<in> set (tasks d). op_synchronous ops c" and "faults d = []"
  shows "\<exists>s'. dispatch_stop ops env (d, s) = Some (map (\<lambda>c. Some (c, None)) (tasks d), \<lparr>tasks = [], faults = []\<rparr>, s')
    \<and> (\<forall>c \<in> set (tasks d). op_is_closed ops c s')"
proof -
  let ?s = "fold (op_close ops) (tasks d) s"
  have closed: "\<forall>c \<in> set (tasks d). op_is_closed ops c ?s" using closed_all [OF assms(1)] by blast
  with assms(2) have "\<forall>c \<in> set (tasks d). op_synchronous ops c \<and> op_is_closed ops c ?s" by blast
  from stop_loop_closed [OF assms(1) this assms(3), of env "[]"] closed show ?thesis by (auto simp: dispatch_stop_def)
qed

text \<open>Channels whose world is the set of closed channels; every open channel is ready and its handler throws.\<close>

definition closing_ops :: "(nat, nat set) channel_ops" where
  "closing_ops = \<lparr>op_synchronous = (\<lambda>c. 0 < c), op_poll = (\<lambda>c s. (Inr True, s)), op_is_closed = (\<lambda>c s. c \<in> s),
     op_close = insert, op_handler = (\<lambda>c s. (Inl (Handler_exception c), s))\<rparr>"

theorem dispatch_stop_ends_witness:
  "\<exists>s'. dispatch_stop closing_ops (\<lambda>t ds. ds) (\<lparr>tasks = [1, 2], faults = []\<rparr>, {}) =
     Some ([Some (1, None), Some (2, None)], \<lparr>tasks = [], faults = []\<rparr>, s')"
proof -
  have "channel_laws closing_ops" by (simp add: channel_laws_def closing_ops_def)
  from dispatch_stop_ends [OF this, of "\<lparr>tasks = [1, 2], faults = []\<rparr>" "\<lambda>t ds. ds" "{}"]
  show ?thesis by (auto simp: closing_ops_def)
qed

text \<open>
  A synchronous channel whose fault had to wait behind that of another channel is still in the set, closed, when
  \<open>run\<close> is called again: it is reported a second time, and this report stays in the queue after the channel was
  dropped from the set.
\<close>

lemma fault_reported_twice:
  "dispatch_run closing_ops (\<lambda>t ds. ds) (\<lparr>tasks = [0, 1], faults = [(0, None)]\<rparr>, {0})
     = Some (Some (0, None), \<lparr>tasks = [1], faults = [(1, Some (Handler_exception 1))]\<rparr>, {0, 1})"
  "dispatch_run closing_ops (\<lambda>t ds. ds) (\<lparr>tasks = [1], faults = [(1, Some (Handler_exception 1))]\<rparr>, {0, 1})
     = Some (Some (1, Some (Handler_exception 1)), \<lparr>tasks = [], faults = [(1, None)]\<rparr>, {0, 1})"
  by (simp_all add: dispatch_run_def run_loop.simps closing_ops_def set_fault_def drop_channel_def insert_commute)

section \<open>Destructors\<close>

text \<open>
  A channel knows its dispatch while it is one of the tasks. Its destructor takes it out, but not the faults that were
  queued for it; the destructor of \<open>Dispatch\<close> stops the channels, after which there are no tasks left to disown.
\<close>

definition channel_destroy :: "'c \<Rightarrow> 'c dispatch \<Rightarrow> 'c dispatch" where
  "channel_destroy c d = (if c \<in> set (tasks d) then drop_channel c d else d)"

definition dispatch_destroy ::
    "('c, 's) channel_ops \<Rightarrow> (int \<Rightarrow> 'c dispatch \<times> 's \<Rightarrow> 'c dispatch \<times> 's) \<Rightarrow> 'c dispatch \<times> 's \<Rightarrow> 's option" where
  "dispatch_destroy ops env ds = map_option (\<lambda>(seen, d, s). s) (dispatch_stop ops env ds)"

lemma channel_destroy_faults: "faults (channel_destroy c d) = faults d"
  by (simp add: channel_destroy_def drop_channel_def)

end
