(* ===== verification/Named_Mutex.thy ===== *)
theory Named_Mutex
  imports Time_Conv
begin

text \<open>
  Class \<open>NamedMutex\<close> (\<open>named-mutex.cpp\<close>) over POSIX semaphores, and its Windows version over mutex objects. The
  calls of the operating system are fields of a record; a call that blocks for ever gives \<^const>\<open>None\<close>.
\<close>

section \<open>Names\<close>

definition lower_char :: "char \<Rightarrow> char" where
  "lower_char c = (if 65 \<le> (of_char c :: nat) \<and> (of_char c :: nat) \<le> 90 then char_of ((of_char c :: nat) + 32) else c)"

definition lower_case :: "string \<Rightarrow> string" where
  "lower_case str = map lower_char str"

text \<open>\<open>name[i]\<close>, which is the null character for \<open>i = name.size()\<close>.\<close>

definition str_at :: "string \<Rightarrow> nat \<Rightarrow> char" where
  "str_at s i = (if i < length s then s ! i else CHR 0x00)"

definition strip_path_prefix :: "string \<Rightarrow> string" where
  "strip_path_prefix nm =
     (if str_at nm 0 = CHR ''/'' then str_erase nm 0 1
      else if lower_case (substr nm 0 5) = ''local'' \<and> (str_at nm 5 = CHR ''/'' \<or> str_at nm 5 = CHR 0x5C) then str_erase nm 0 6
      else nm)"

section \<open>POSIX\<close>

record ('h, 'w) sem_system =
  sem_open :: "string \<Rightarrow> nat \<Rightarrow> 'w \<Rightarrow> ('h option \<times> int) \<times> 'w"
  sem_close :: "'h \<Rightarrow> 'w \<Rightarrow> 'w"
  sem_wait :: "'h \<Rightarrow> 'w \<Rightarrow> ((int \<times> int) \<times> 'w) option"
  sem_timedwait :: "'h \<Rightarrow> timespec \<Rightarrow> 'w \<Rightarrow> (int \<times> int) \<times> 'w"
  sem_post :: "'h \<Rightarrow> 'w \<Rightarrow> 'w"
  system_now :: "'w \<Rightarrow> int"

definition E_AGAIN :: int where "E_AGAIN = 11"
definition ETIMEDOUT :: int where "ETIMEDOUT = 110"

record 'h named_mutex =
  mx_path :: string
  mx_handle :: 'h

definition mutex_new :: "('h, 'w) sem_system \<Rightarrow> string \<Rightarrow> 'w \<Rightarrow> 'h named_mutex res \<times> 'w" where
  "mutex_new os nm w =
     (let p = ''/'' @ strip_path_prefix nm
      in case sem_open os p 1 w of
           ((None, err), w') \<Rightarrow> (Inl (System_error err), w')
         | ((Some h, err), w') \<Rightarrow> (Inr \<lparr>mx_path = p, mx_handle = h\<rparr>, w'))"

definition mutex_destroy :: "('h, 'w) sem_system \<Rightarrow> 'h named_mutex \<Rightarrow> 'w \<Rightarrow> 'w" where
  "mutex_destroy os m w = sem_close os (mx_handle m) w"

definition mutex_name :: "'h named_mutex \<Rightarrow> string" where
  "mutex_name m = drop 1 (mx_path m)"

definition mutex_lock :: "('h, 'w) sem_system \<Rightarrow> 'h named_mutex \<Rightarrow> 'w \<Rightarrow> (unit res \<times> 'w) option" where
  "mutex_lock os m w = (case sem_wait os (mx_handle m) w of
      None \<Rightarrow> None
    | Some ((rc, err), w') \<Rightarrow> Some (if rc = -1 then Inl (System_error err) else Inr (), w'))"

definition mutex_try_lock :: "('h, 'w) sem_system \<Rightarrow> 'h named_mutex \<Rightarrow> 'w \<Rightarrow> (bool res \<times> 'w) option" where
  "mutex_try_lock os m w = (case sem_wait os (mx_handle m) w of
      None \<Rightarrow> None
    | Some ((rc, err), w') \<Rightarrow>
        Some (if rc = 0 then Inr True else if rc = E_AGAIN then Inr False else Inl (System_error err), w'))"

text \<open>Times are in nanoseconds since the epoch.\<close>

definition mutex_try_lock_until :: "('h, 'w) sem_system \<Rightarrow> 'h named_mutex \<Rightarrow> int \<Rightarrow> 'w \<Rightarrow> bool res \<times> 'w" where
  "mutex_try_lock_until os m abs_time w =
     (case sem_timedwait os (mx_handle m) (duration_to_timespec 1 abs_time) w of
        ((rc, err), w') \<Rightarrow>
          (if rc = 0 then Inr True else if rc = ETIMEDOUT then Inr False else Inl (System_error err), w'))"

definition mutex_try_lock_for :: "('h, 'w) sem_system \<Rightarrow> 'h named_mutex \<Rightarrow> int \<Rightarrow> 'w \<Rightarrow> (bool res \<times> 'w) option" where
  "mutex_try_lock_for os m rel_time w =
     (if rel_time \<le> 0 then mutex_try_lock os m w else Some (mutex_try_lock_until os m (system_now os w + rel_time) w))"

definition mutex_unlock :: "('h, 'w) sem_system \<Rightarrow> 'h named_mutex \<Rightarrow> 'w \<Rightarrow> 'w" where
  "mutex_unlock os m w = sem_post os (mx_handle m) w"

text \<open>The loop of the macOS branch; \<open>sleep\<close> lets the given number of milliseconds pass.\<close>

partial_function (option) apple_loop ::
    "('h, 'w) sem_system \<Rightarrow> (int \<Rightarrow> 'w \<Rightarrow> 'w) \<Rightarrow> 'h named_mutex \<Rightarrow> int \<Rightarrow> int \<Rightarrow> 'w \<Rightarrow> (bool res \<times> 'w) option" where
  "apple_loop os sleep m abs_time delta w = (case mutex_try_lock os m w of
      None \<Rightarrow> None
    | Some (r, w1) \<Rightarrow> (case r of
        Inl e \<Rightarrow> Some (Inl e, w1)
      | Inr locked \<Rightarrow>
          if locked then Some (Inr True, w1)
          else let now = system_now os w1
               in if abs_time \<le> now then Some (Inr False, w1)
                  else apple_loop os sleep m abs_time
                         (min (min (2 * delta) 100) (duration_cast 1 1000000 (abs_time - now))) (sleep delta w1)))"

definition mutex_try_lock_until_apple ::
    "('h, 'w) sem_system \<Rightarrow> (int \<Rightarrow> 'w \<Rightarrow> 'w) \<Rightarrow> 'h named_mutex \<Rightarrow> int \<Rightarrow> 'w \<Rightarrow> (bool res \<times> 'w) option" where
  "mutex_try_lock_until_apple os sleep m abs_time w = apple_loop os sleep m abs_time 1 w"

section \<open>Windows\<close>

datatype wait_code = Wait_object | Wait_abandoned | Wait_timeout | Wait_failed

record ('h, 'w) win_mutex =
  win_create :: "string \<Rightarrow> 'w \<Rightarrow> ('h option \<times> int) \<times> 'w"
  win_close :: "'h \<Rightarrow> 'w \<Rightarrow> 'w"
  win_wait :: "'h \<Rightarrow> nat \<Rightarrow> 'w \<Rightarrow> (wait_code \<times> int) \<times> 'w"
  win_release :: "'h \<Rightarrow> 'w \<Rightarrow> 'w"
  win_now :: "'w \<Rightarrow> int"

definition INFINITE :: nat where "INFINITE = 2 ^ 32 - 1"

definition win_mutex_new :: "('h, 'w) win_mutex \<Rightarrow> (string \<Rightarrow> unit res) \<Rightarrow> string \<Rightarrow> 'w \<Rightarrow> 'h named_mutex res \<times> 'w" where
  "win_mutex_new os to_wstring nm w =
     (let p = ''Local'' @ [CHR 0x5C] @ strip_path_prefix nm
      in case to_wstring p of
           Inl e \<Rightarrow> (Inl e, w)
         | Inr _ \<Rightarrow> (case win_create os p w of
             ((None, err), w') \<Rightarrow> (Inl (System_error err), w')
           | ((Some h, err), w') \<Rightarrow> (Inr \<lparr>mx_path = p, mx_handle = h\<rparr>, w')))"

definition win_mutex_destroy :: "('h, 'w) win_mutex \<Rightarrow> 'h named_mutex \<Rightarrow> 'w \<Rightarrow> 'w" where
  "win_mutex_destroy os m w = win_close os (mx_handle m) w"

definition win_mutex_lock :: "('h, 'w) win_mutex \<Rightarrow> 'h named_mutex \<Rightarrow> 'w \<Rightarrow> unit res \<times> 'w" where
  "win_mutex_lock os m w = (case win_wait os (mx_handle m) INFINITE w of
      ((rc, err), w') \<Rightarrow> (if rc = Wait_failed then Inl (System_error err) else Inr (), w'))"

definition win_mutex_try_lock :: "('h, 'w) win_mutex \<Rightarrow> 'h named_mutex \<Rightarrow> 'w \<Rightarrow> bool res \<times> 'w" where
  "win_mutex_try_lock os m w = (case win_wait os (mx_handle m) 0 w of
      ((rc, err), w') \<Rightarrow> (if rc = Wait_failed then Inl (System_error err) else Inr (rc \<noteq> Wait_timeout), w'))"

definition win_mutex_try_lock_until :: "('h, 'w) win_mutex \<Rightarrow> 'h named_mutex \<Rightarrow> int \<Rightarrow> 'w \<Rightarrow> bool res \<times> 'w" where
  "win_mutex_try_lock_until os m abs_time w =
     (let msec = duration_cast 1 1000000 (abs_time - win_now os w);
          msec32 = (if 0 < msec then nat (msec mod 2 ^ 32) else 0)
      in case win_wait os (mx_handle m) msec32 w of
           ((rc, err), w') \<Rightarrow> (if rc = Wait_failed then Inl (System_error err) else Inr (rc \<noteq> Wait_timeout), w'))"

definition win_mutex_unlock :: "('h, 'w) win_mutex \<Rightarrow> 'h named_mutex \<Rightarrow> 'w \<Rightarrow> 'w" where
  "win_mutex_unlock os m w = win_release os (mx_handle m) w"

end
