(* ===== verification/Process_Io.thy ===== *)
theory Process_Io
  imports Prelude Time_Conv Named_Mutex
begin

text \<open>
  The process channels of \<open>process.cpp\<close>: \<open>StreamProcess\<close>, \<open>TextProcess\<close> and \<open>shell\<close> with both
  branches of the wait. The C library is a record of functions; the wait functions that \<open>Channel\<close> inherits from the
  rs-tl library are a parameter.
\<close>

section \<open>StreamProcess\<close>

record 'w process_os =
  os_popen :: "string \<Rightarrow> 'w \<Rightarrow> (bool \<times> int) \<times> 'w"
  os_fread :: "nat \<Rightarrow> 'w \<Rightarrow> (string \<times> int) \<times> 'w"
  os_pclose :: "'w \<Rightarrow> int \<times> 'w"
  os_pselect :: "timeval \<Rightarrow> 'w \<Rightarrow> (int \<times> int) \<times> 'w"
  os_now :: "'w \<Rightarrow> int \<times> 'w"

definition E_BADF :: int where "E_BADF = 9"

text \<open>\<open>fp_\<close> is not null, \<open>status_\<close>, and \<open>block_\<close> of the base class.\<close>

record stream_process =
  sp_open :: bool
  sp_status :: int
  sp_block :: nat

definition default_block_size :: nat where "default_block_size = 65536"

definition sp_new :: "'w process_os \<Rightarrow> string \<Rightarrow> 'w \<Rightarrow> stream_process res \<times> 'w" where
  "sp_new os cmd w = (case os_popen os cmd w of ((ok, err), w') \<Rightarrow>
     (if ok then Inr \<lparr>sp_open = True, sp_status = -1, sp_block = default_block_size\<rparr> else Inl (System_error err), w'))"

definition sp_is_closed :: "stream_process \<Rightarrow> bool" where
  "sp_is_closed p = (\<not> sp_open p)"

definition sp_do_close :: "'w process_os \<Rightarrow> stream_process \<Rightarrow> 'w \<Rightarrow> stream_process \<times> 'w" where
  "sp_do_close os p w =
     (if \<not> sp_open p then (p, w)
      else case os_pclose os w of (rc, w') \<Rightarrow>
        (p\<lparr>sp_open := False, sp_status := (if sp_status p = -1 then rc else sp_status p)\<rparr>, w'))"

definition sp_read :: "'w process_os \<Rightarrow> bool \<Rightarrow> nat \<Rightarrow> stream_process \<Rightarrow> 'w \<Rightarrow> string res \<times> stream_process \<times> 'w" where
  "sp_read os dst maxlen p w =
     (if \<not> dst \<or> maxlen = 0 \<or> \<not> sp_open p then (Inr [], p, w)
      else case os_fread os maxlen w of ((x, err), w1) \<Rightarrow>
        (if x \<noteq> [] then (Inr x, p, w1)
         else if err \<noteq> 0 \<and> err \<noteq> E_BADF then (Inl (System_error err), p, w1)
         else case sp_do_close os p w1 of (p', w2) \<Rightarrow> (Inr [], p', w2)))"

definition sp_do_wait_for :: "'w process_os \<Rightarrow> int \<Rightarrow> stream_process \<Rightarrow> 'w \<Rightarrow> bool res \<times> 'w" where
  "sp_do_wait_for os t p w =
     (if \<not> sp_open p then (Inr True, w)
      else let t = (if t < 0 then 0 else t)
           in case os_pselect os (duration_to_timeval 1 t) w of ((rc, err), w') \<Rightarrow>
             (if rc = -1 \<and> err = E_BADF then Inr True
              else if rc = -1 then Inl (System_error err)
              else Inr (0 < rc), w'))"

text \<open>The Windows branch, where \<open>wait\<close> is \<open>WaitForSingleObject\<close> on the file's handle and gives the last error.\<close>

definition ERROR_INVALID_HANDLE :: int where "ERROR_INVALID_HANDLE = 6"

definition sp_do_wait_for_win ::
    "(nat \<Rightarrow> 'w \<Rightarrow> (wait_code \<times> int) \<times> 'w) \<Rightarrow> int \<Rightarrow> stream_process \<Rightarrow> 'w \<Rightarrow> bool res \<times> 'w" where
  "sp_do_wait_for_win wait t p w =
     (if \<not> sp_open p then (Inr True, w)
      else let t = (if t < 0 then 0 else t);
               ms = duration_cast 1 1000000 t
           in case wait (nat (ms mod 2 ^ 32)) w of ((rc, err), w') \<Rightarrow>
             (if rc = Wait_object then Inr True
              else if rc = Wait_timeout then Inr False
              else if err = ERROR_INVALID_HANDLE then Inl (System_error err)
              else Inr True, w'))"

text \<open>On a failed wait the two branches do the opposite of each other: a bad descriptor throws only on Windows.\<close>

lemma sp_wait_branches_differ:
  "sp_open p \<Longrightarrow> fst (sp_do_wait_for_win (\<lambda>n w. ((Wait_failed, ERROR_INVALID_HANDLE), w)) t p w) = Inl (System_error ERROR_INVALID_HANDLE)"
  "sp_open p \<Longrightarrow> os_pselect os = (\<lambda>tv w. ((-1, E_BADF), w)) \<Longrightarrow> fst (sp_do_wait_for os t p w) = Inr True"
  by (simp_all add: sp_do_wait_for_win_def sp_do_wait_for_def)

section \<open>StreamChannel::append and read_all\<close>

definition sp_set_block_size :: "nat \<Rightarrow> stream_process \<Rightarrow> stream_process" where
  "sp_set_block_size n p = p\<lparr>sp_block := n\<rparr>"

definition sp_append :: "'w process_os \<Rightarrow> string \<Rightarrow> stream_process \<Rightarrow> 'w \<Rightarrow> nat res \<times> string \<times> stream_process \<times> 'w" where
  "sp_append os dst p w =
     (let pos = length dst;
          dst1 = str_resize dst (pos + sp_block p) (CHR 0x00)
      in case sp_read os True (sp_block p) p w of (r, p', w') \<Rightarrow>
        (let x = (case r of Inl e \<Rightarrow> [] | Inr x \<Rightarrow> x)
         in (map_sum id length r, str_resize (str_replace dst1 pos (length x) x) (pos + length x) (CHR 0x00), p', w')))"

partial_function (option) sp_read_all_loop ::
    "'w process_os \<Rightarrow> (stream_process \<Rightarrow> 'w \<Rightarrow> unit res \<times> 'w) \<Rightarrow> string \<Rightarrow> stream_process \<Rightarrow> 'w
      \<Rightarrow> (string res \<times> stream_process \<times> 'w) option" where
  "sp_read_all_loop os wait s p w = (case wait p w of (r, w1) \<Rightarrow>
     (if isl r then Some (Inl (projl r), p, w1)
      else if sp_is_closed p then Some (Inr s, p, w1)
      else case sp_append os s p w1 of (n, s', p', w2) \<Rightarrow>
        (if isl n then Some (Inl (projl n), p', w2) else sp_read_all_loop os wait s' p' w2)))"

definition sp_read_all ::
    "'w process_os \<Rightarrow> (stream_process \<Rightarrow> 'w \<Rightarrow> unit res \<times> 'w) \<Rightarrow> stream_process \<Rightarrow> 'w
      \<Rightarrow> (string res \<times> stream_process \<times> 'w) option" where
  "sp_read_all os wait p w = sp_read_all_loop os wait [] p w"

text \<open>\<open>shell\<close>: the destructor of the process closes it, also when \<open>read_all\<close> throws.\<close>

definition shell ::
    "'w process_os \<Rightarrow> (stream_process \<Rightarrow> 'w \<Rightarrow> unit res \<times> 'w) \<Rightarrow> string \<Rightarrow> 'w \<Rightarrow> (string res \<times> 'w) option" where
  "shell os wait cmd w = (case sp_new os cmd w of
      (Inl e, w1) \<Rightarrow> Some (Inl e, w1)
    | (Inr p, w1) \<Rightarrow> map_option (\<lambda>(r, p', w2). (r, snd (sp_do_close os p' w2))) (sp_read_all os wait p w1))"

text \<open>With a block size of zero \<open>read_all\<close> makes no progress: each turn leaves everything as it was.\<close>

lemma sp_append_no_block: "sp_append os s (sp_set_block_size 0 p) w = (Inr 0, s, sp_set_block_size 0 p, w)"
  by (simp add: sp_append_def sp_set_block_size_def sp_read_def str_resize_def str_replace_def)

section \<open>TextProcess\<close>

record text_process =
  tp_stream :: stream_process
  tp_buf :: string

definition tp_new :: "'w process_os \<Rightarrow> string \<Rightarrow> 'w \<Rightarrow> text_process res \<times> 'w" where
  "tp_new os cmd w = (case sp_new os cmd w of (r, w') \<Rightarrow> (map_sum id (\<lambda>p. \<lparr>tp_stream = p, tp_buf = []\<rparr>) r, w'))"

definition tp_close :: "'w process_os \<Rightarrow> text_process \<Rightarrow> 'w \<Rightarrow> text_process \<times> 'w" where
  "tp_close os p w = (case sp_do_close os (tp_stream p) w of (s, w') \<Rightarrow> (\<lparr>tp_stream = s, tp_buf = []\<rparr>, w'))"

definition tp_is_closed :: "text_process \<Rightarrow> bool" where
  "tp_is_closed p = (sp_is_closed (tp_stream p) \<and> tp_buf p = [])"

definition tp_read :: "text_process \<Rightarrow> string option \<times> text_process" where
  "tp_read p =
     (if tp_buf p = [] then (None, p)
      else case find_from ((=) (CHR 0x0A)) (tp_buf p) 0 of
        None \<Rightarrow> (Some (tp_buf p), p\<lparr>tp_buf := []\<rparr>)
      | Some lf \<Rightarrow>
          ((if 0 < lf \<and> tp_buf p ! (lf - 1) = CHR 0x0D then Some (substr (tp_buf p) 0 (lf - 1)) else Some (substr (tp_buf p) 0 lf)),
           p\<lparr>tp_buf := str_erase (tp_buf p) 0 (lf + 1)\<rparr>))"

definition tp_read_all ::
    "'w process_os \<Rightarrow> (stream_process \<Rightarrow> 'w \<Rightarrow> unit res \<times> 'w) \<Rightarrow> text_process \<Rightarrow> 'w
      \<Rightarrow> (string res \<times> text_process \<times> 'w) option" where
  "tp_read_all os wait p w =
     map_option (\<lambda>(r, s, w'). (map_sum id (\<lambda>x. tp_buf p @ x) r, p\<lparr>tp_stream := s\<rparr>, w')) (sp_read_all os wait (tp_stream p) w)"

text \<open>\<open>wait_for delta\<close> is the inherited function of the stream; its result is not used.\<close>

partial_function (option) tp_wait_loop ::
    "'w process_os \<Rightarrow> (int \<Rightarrow> stream_process \<Rightarrow> 'w \<Rightarrow> bool res \<times> 'w) \<Rightarrow> int \<Rightarrow> int \<Rightarrow> text_process \<Rightarrow> 'w
      \<Rightarrow> (bool res \<times> text_process \<times> 'w) option" where
  "tp_wait_loop os wait_for deadline delta p w = (case wait_for delta (tp_stream p) w of (r, w1) \<Rightarrow>
     (if isl r then Some (Inl (projl r), p, w1)
      else if sp_is_closed (tp_stream p) then Some (Inr True, p, w1)
      else case sp_append os (tp_buf p) (tp_stream p) w1 of (n, buf, s, w2) \<Rightarrow>
        (let p' = \<lparr>tp_stream = s, tp_buf = buf\<rparr>
         in if isl n then Some (Inl (projl n), p', w2)
            else if projr n = 0 then Some (Inr True, p', w2)
            else if find_from ((=) (CHR 0x0A)) buf 0 \<noteq> None then Some (Inr True, p', w2)
            else case os_now os w2 of (now, w3) \<Rightarrow>
              (if deadline < now then Some (Inr False, p', w3)
               else tp_wait_loop os wait_for deadline (deadline - now) p' w3))))"

definition tp_do_wait_for ::
    "'w process_os \<Rightarrow> (int \<Rightarrow> stream_process \<Rightarrow> 'w \<Rightarrow> bool res \<times> 'w) \<Rightarrow> int \<Rightarrow> text_process \<Rightarrow> 'w
      \<Rightarrow> (bool res \<times> text_process \<times> 'w) option" where
  "tp_do_wait_for os wait_for t p w =
     (case os_now os w of (now, w') \<Rightarrow> tp_wait_loop os wait_for (now + max t 0) 0 p w')"

section \<open>The lines of a process\<close>

text \<open>The loop every reader of a message channel runs, as in the threads of \<open>Dispatch\<close>: wait, stop when closed, read.\<close>

partial_function (option) tp_lines ::
    "'w process_os \<Rightarrow> (int \<Rightarrow> stream_process \<Rightarrow> 'w \<Rightarrow> bool res \<times> 'w) \<Rightarrow> int \<Rightarrow> string list \<Rightarrow> text_process \<Rightarrow> 'w
      \<Rightarrow> (string list res \<times> text_process \<times> 'w) option" where
  "tp_lines os wait_for t acc p w = (case tp_do_wait_for os wait_for t p w of
      None \<Rightarrow> None
    | Some (r, p1, w1) \<Rightarrow>
        (if isl r then Some (Inl (projl r), p1, w1)
         else if \<not> projr r then tp_lines os wait_for t acc p1 w1
         else if tp_is_closed p1 then Some (Inr acc, p1, w1)
         else case tp_read p1 of (m, p2) \<Rightarrow>
           tp_lines os wait_for t (case m of None \<Rightarrow> acc | Some l \<Rightarrow> acc @ [l]) p2 w1))"

end
