(* ===== verification/Process_Correct.thy ===== *)
theory Process_Correct
  imports Process_Io
begin

text \<open>
  What a process channel delivers: \<open>TextProcess\<close> gives the lines of the output of the process, \<open>shell\<close> all of it.
  The child process is known by what it has still to write.
\<close>

section \<open>A child process\<close>

text \<open>
  \<open>child os ok pending\<close>: in the states \<open>ok\<close> of the world, \<open>fread\<close> takes a prefix of the pending output, empty only at its
  end (and then without an error), and nothing else touches it.
\<close>

definition child :: "'w process_os \<Rightarrow> ('w \<Rightarrow> bool) \<Rightarrow> ('w \<Rightarrow> string) \<Rightarrow> bool" where
  "child os ok pending \<longleftrightarrow>
     (\<forall>w n x err w'. ok w \<and> 0 < n \<and> os_fread os n w = ((x, err), w') \<longrightarrow>
        ok w' \<and> length x \<le> n \<and> pending w = x @ pending w' \<and> (x = [] \<longrightarrow> pending w = [] \<and> err = 0))
     \<and> (\<forall>w. ok w \<longrightarrow> ok (snd (os_pclose os w)) \<and> pending (snd (os_pclose os w)) = pending w)
     \<and> (\<forall>w. ok w \<longrightarrow> ok (snd (os_now os w)) \<and> pending (snd (os_now os w)) = pending w)"

text \<open>The inherited wait functions do not throw and leave the output alone.\<close>

definition waits_well :: "('a \<Rightarrow> 'w \<Rightarrow> 'r res \<times> 'w) \<Rightarrow> ('w \<Rightarrow> bool) \<Rightarrow> ('w \<Rightarrow> string) \<Rightarrow> bool" where
  "waits_well wait ok pending \<longleftrightarrow>
     (\<forall>p w. ok w \<longrightarrow> (\<exists>r w'. wait p w = (Inr r, w') \<and> ok w' \<and> pending w' = pending w))"

text \<open>The stream and the world belong together: a closed stream has delivered everything.\<close>

definition stream_ok :: "('w \<Rightarrow> bool) \<Rightarrow> ('w \<Rightarrow> string) \<Rightarrow> stream_process \<Rightarrow> 'w \<Rightarrow> bool" where
  "stream_ok ok pending p w \<longleftrightarrow> ok w \<and> (sp_is_closed p \<longrightarrow> pending w = []) \<and> 0 < sp_block p"

definition left :: "('w \<Rightarrow> string) \<Rightarrow> stream_process \<Rightarrow> 'w \<Rightarrow> nat" where
  "left pending p w = length (pending w) + (if sp_is_closed p then 0 else 1)"

lemma sp_read_child:
  assumes c: "child os ok pending" and ok: "stream_ok ok pending p w" and n: "0 < n" and op: "\<not> sp_is_closed p"
  shows "\<exists>x p' w'. sp_read os True n p w = (Inr x, p', w') \<and> length x \<le> n \<and> pending w = x @ pending w'
    \<and> stream_ok ok pending p' w' \<and> (x = [] \<longleftrightarrow> sp_is_closed p')"
proof -
  obtain x err w1 where f: "os_fread os n w = ((x, err), w1)" by (metis prod.collapse)
  have "ok w" using ok by (simp add: stream_ok_def)
  with c n f have x: "ok w1" "length x \<le> n" "pending w = x @ pending w1" "x = [] \<Longrightarrow> pending w = [] \<and> err = 0"
    unfolding child_def by blast+
  show ?thesis
  proof (cases "x = []")
    case False
    with f n op x ok show ?thesis by (simp add: sp_read_def sp_is_closed_def stream_ok_def)
  next
    case True
    obtain rc w2 where pc: "os_pclose os w1 = (rc, w2)" by (metis prod.collapse)
    from c x(1) have "ok (snd (os_pclose os w1))" "pending (snd (os_pclose os w1)) = pending w1" unfolding child_def by blast+
    then show ?thesis using True f n op x pc ok
      by (simp add: sp_read_def sp_is_closed_def stream_ok_def sp_do_close_def)
  qed
qed

lemma sp_append_child:
  assumes c: "child os ok pending" and ok: "stream_ok ok pending p w" and op: "\<not> sp_is_closed p"
  shows "\<exists>x p' w'. sp_append os dst p w = (Inr (length x), dst @ x, p', w') \<and> pending w = x @ pending w'
    \<and> stream_ok ok pending p' w' \<and> (x = [] \<longleftrightarrow> sp_is_closed p')"
proof -
  have "0 < sp_block p" using ok by (simp add: stream_ok_def)
  from sp_read_child [OF c ok this op] obtain x p' w' where x: "sp_read os True (sp_block p) p w = (Inr x, p', w')" "length x \<le> sp_block p"
    and r: "pending w = x @ pending w'" "stream_ok ok pending p' w'" "x = [] \<longleftrightarrow> sp_is_closed p'" by blast
  then have "sp_append os dst p w = (Inr (length x), dst @ x, p', w')"
    by (simp add: sp_append_def Let_def str_resize_def str_replace_def)
  with r show ?thesis by blast
qed

section \<open>shell\<close>

lemma sp_read_all_child:
  assumes c: "child os ok pending" and wt: "waits_well wait ok pending"
  shows "stream_ok ok pending p w \<Longrightarrow>
    \<exists>p' w'. sp_read_all_loop os wait s p w = Some (Inr (s @ pending w), p', w') \<and> sp_is_closed p' \<and> ok w'"
proof (induction "left pending p w" arbitrary: s p w rule: less_induct)
  case less
  have "ok w" using less.prems by (simp add: stream_ok_def)
  with wt obtain u w1 where w1: "wait p w = (Inr u, w1)" "ok w1" "pending w1 = pending w" unfolding waits_well_def by blast
  have ok1: "stream_ok ok pending p w1" using less.prems w1 by (simp add: stream_ok_def)
  show ?case
  proof (cases "sp_is_closed p")
    case True
    then show ?thesis using w1 less.prems by (subst sp_read_all_loop.simps) (simp add: stream_ok_def)
  next
    case False
    from sp_append_child [OF c ok1 False, of s] obtain x p' w2 where a: "sp_append os s p w1 = (Inr (length x), s @ x, p', w2)"
      and r: "pending w1 = x @ pending w2" "stream_ok ok pending p' w2" "x = [] \<longleftrightarrow> sp_is_closed p'" by blast
    have "left pending p' w2 < left pending p w" using r(1,3) w1(3) False by (cases x) (auto simp: left_def)
    from less.hyps [OF this r(2), of "s @ x"] obtain p3 w3 where
      "sp_read_all_loop os wait (s @ x) p' w2 = Some (Inr ((s @ x) @ pending w2), p3, w3)" "sp_is_closed p3" "ok w3" by blast
    then show ?thesis using w1 False a r(1) by (subst sp_read_all_loop.simps) simp
  qed
qed

section \<open>Lines\<close>

definition chomp :: "string \<Rightarrow> string" where
  "chomp l = (if l \<noteq> [] \<and> last l = CHR 0x0D then butlast l else l)"

function crlf_lines :: "string \<Rightarrow> string list" where
  "crlf_lines s =
     (if s = [] then []
      else case find_from ((=) (CHR 0x0A)) s 0 of
        None \<Rightarrow> [s]
      | Some k \<Rightarrow> chomp (take k s) # crlf_lines (drop (k + 1) s))"
  by auto

termination by (relation "measure length") auto

declare crlf_lines.simps [simp del]

lemma find_lf_append: "find_from ((=) (CHR 0x0A)) b 0 = Some k \<Longrightarrow> find_from ((=) (CHR 0x0A)) (b @ r) 0 = Some k \<and> k < length b"
proof -
  assume "find_from ((=) (CHR 0x0A)) b 0 = Some k"
  note f = find_from_Some [OF this]
  then have k: "k < length b" "b ! k = CHR 0x0A" by auto
  have "\<forall>x \<in> set (take k b). CHR 0x0A \<noteq> x"
  proof
    fix x assume "x \<in> set (take k b)"
    then obtain i where "i < k" "x = b ! i" using k(1) by (auto simp: in_set_conv_nth)
    moreover from this f have "CHR 0x0A \<noteq> b ! i" by blast
    ultimately show "CHR 0x0A \<noteq> x" by (simp only: not_False_eq_True)
  qed
  from find_from_0_append [OF this, of "CHR 0x0A" "drop (Suc k) b @ r"] k
  have "find_from ((=) (CHR 0x0A)) (take k b @ CHR 0x0A # drop (Suc k) b @ r) 0 = Some k" by simp
  moreover have "take k b @ CHR 0x0A # drop (Suc k) b @ r = b @ r"
    using id_take_nth_drop [OF k(1)] k(2) by (metis append_Cons append_assoc)
  ultimately show ?thesis using k by simp
qed

text \<open>One read: the first line of the buffer, or all of a buffer without line feed.\<close>

lemma tp_read_line:
  assumes "find_from ((=) (CHR 0x0A)) (tp_buf p) 0 = Some k"
  shows "tp_read p = (Some (chomp (take k (tp_buf p))), p\<lparr>tp_buf := drop (k + 1) (tp_buf p)\<rparr>)"
proof -
  have k: "k < length (tp_buf p)" using find_lf_append [OF assms] by blast
  have l: "last (take k (tp_buf p)) = tp_buf p ! (k - 1)" if "0 < k"
  proof -
    have "take k (tp_buf p) \<noteq> []" using that k by auto
    then show ?thesis using that k by (simp add: last_conv_nth min_absorb2)
  qed
  have b: "butlast (take k (tp_buf p)) = take (k - 1) (tp_buf p)" using k by (simp add: butlast_take min_absorb2)
  show ?thesis using assms k l b
    by (auto simp: tp_read_def chomp_def substr_def str_erase_def)
qed

lemma tp_read_rest:
  "find_from ((=) (CHR 0x0A)) (tp_buf p) 0 = None \<Longrightarrow> tp_buf p \<noteq> [] \<Longrightarrow> tp_read p = (Some (tp_buf p), p\<lparr>tp_buf := []\<rparr>)"
  by (simp add: tp_read_def)

lemma crlf_lines_read:
  assumes "tp_buf p \<noteq> []" and "find_from ((=) (CHR 0x0A)) (tp_buf p) 0 \<noteq> None \<or> r = []"
  shows "\<exists>l b. tp_read p = (Some l, p\<lparr>tp_buf := b\<rparr>) \<and> length b < length (tp_buf p)
    \<and> crlf_lines (tp_buf p @ r) = l # crlf_lines (b @ r)"
proof (cases "find_from ((=) (CHR 0x0A)) (tp_buf p) 0")
  case None
  with assms have "tp_read p = (Some (tp_buf p), p\<lparr>tp_buf := []\<rparr>)" "r = []" by (simp_all add: tp_read_rest)
  moreover have "crlf_lines (tp_buf p) = tp_buf p # crlf_lines []"
    using None assms(1) by (subst crlf_lines.simps) (simp add: crlf_lines.simps [of "[]"])
  ultimately show ?thesis using assms(1)
    by (intro exI [of _ "tp_buf p"] exI [of _ "[]"]) simp
next
  case (Some k)
  from find_lf_append [OF Some, of r] have f: "find_from ((=) (CHR 0x0A)) (tp_buf p @ r) 0 = Some k" "k < length (tp_buf p)" by auto
  then have "crlf_lines (tp_buf p @ r) = chomp (take k (tp_buf p)) # crlf_lines (drop (k + 1) (tp_buf p) @ r)"
    using assms(1) by (subst crlf_lines.simps) simp
  with tp_read_line [OF Some] f(2) show ?thesis by auto
qed

section \<open>Waiting for a line\<close>

definition text_ok :: "('w \<Rightarrow> bool) \<Rightarrow> ('w \<Rightarrow> string) \<Rightarrow> text_process \<Rightarrow> 'w \<Rightarrow> bool" where
  "text_ok ok pending p w = stream_ok ok pending (tp_stream p) w"

definition text_rest :: "('w \<Rightarrow> string) \<Rightarrow> text_process \<Rightarrow> 'w \<Rightarrow> string" where
  "text_rest pending p w = tp_buf p @ pending w"

text \<open>What a wait leaves: it ends, loses nothing, and when it is true there is a line or no more input.\<close>

definition wait_post ::
    "('w \<Rightarrow> bool) \<Rightarrow> ('w \<Rightarrow> string) \<Rightarrow> string \<Rightarrow> nat \<Rightarrow> bool \<Rightarrow> text_process \<Rightarrow> 'w \<Rightarrow> bool" where
  "wait_post ok pending rest n ready p w \<longleftrightarrow> text_ok ok pending p w \<and> text_rest pending p w = rest
     \<and> left pending (tp_stream p) w \<le> n \<and> (\<not> ready \<longrightarrow> left pending (tp_stream p) w < n)
     \<and> (ready \<longrightarrow> sp_is_closed (tp_stream p) \<or> find_from ((=) (CHR 0x0A)) (tp_buf p) 0 \<noteq> None)"

lemma tp_wait_loop_child:
  assumes c: "child os ok pending" and wt: "\<And>t. waits_well (wait_for t) ok pending"
  shows "text_ok ok pending p w \<Longrightarrow> \<exists>ready p' w'. tp_wait_loop os wait_for deadline delta p w = Some (Inr ready, p', w')
    \<and> wait_post ok pending (text_rest pending p w) (left pending (tp_stream p) w) ready p' w'"
proof (induction "left pending (tp_stream p) w" arbitrary: delta p w rule: less_induct)
  case less
  have "ok w" using less.prems by (simp add: text_ok_def stream_ok_def)
  with wt [of delta] obtain u w1 where w1: "wait_for delta (tp_stream p) w = (Inr u, w1)" "ok w1" "pending w1 = pending w"
    unfolding waits_well_def by blast
  have ok1: "stream_ok ok pending (tp_stream p) w1" using less.prems w1 by (simp add: stream_ok_def text_ok_def)
  show ?case
  proof (cases "sp_is_closed (tp_stream p)")
    case True
    then have "tp_wait_loop os wait_for deadline delta p w = Some (Inr True, p, w1)"
      using w1 by (subst tp_wait_loop.simps) simp
    moreover have "wait_post ok pending (text_rest pending p w) (left pending (tp_stream p) w) True p w1"
      using True w1 ok1 by (simp add: wait_post_def text_ok_def text_rest_def left_def)
    ultimately show ?thesis by blast
  next
    case False
    from sp_append_child [OF c ok1 False, of "tp_buf p"] obtain x s w2
      where a: "sp_append os (tp_buf p) (tp_stream p) w1 = (Inr (length x), tp_buf p @ x, s, w2)"
        and r: "pending w1 = x @ pending w2" "stream_ok ok pending s w2" "x = [] \<longleftrightarrow> sp_is_closed s" by blast
    define p2 where "p2 = \<lparr>tp_stream = s, tp_buf = tp_buf p @ x\<rparr>"
    obtain now w3 where now: "os_now os w2 = (now, w3)" by fastforce
    from c r(2) have n: "ok w3" "pending w3 = pending w2" unfolding child_def stream_ok_def by (metis now snd_conv)+
    have less2: "left pending s w2 < left pending (tp_stream p) w" using r(1,3) w1(3) False by (cases x) (auto simp: left_def)
    have ok2: "text_ok ok pending p2 w2" "text_ok ok pending p2 w3" using r(2) n by (simp_all add: text_ok_def p2_def stream_ok_def)
    have rest2: "text_rest pending p2 w2 = text_rest pending p w" "text_rest pending p2 w3 = text_rest pending p w"
      using r(1) w1(3) n by (simp_all add: text_rest_def p2_def)
    have left2: "left pending (tp_stream p2) w2 < left pending (tp_stream p) w" "left pending (tp_stream p2) w3 < left pending (tp_stream p) w"
      using less2 n by (simp_all add: p2_def left_def)
    show ?thesis
    proof (cases "x = [] \<or> find_from ((=) (CHR 0x0A)) (tp_buf p @ x) 0 \<noteq> None \<or> deadline < now")
      case True
      define ready where "ready = (x = [] \<or> find_from ((=) (CHR 0x0A)) (tp_buf p @ x) 0 \<noteq> None)"
      define wx where "wx = (if ready then w2 else w3)"
      have "tp_wait_loop os wait_for deadline delta p w = Some (Inr ready, p2, wx)"
        using w1 False a now True by (subst tp_wait_loop.simps) (auto simp: p2_def ready_def wx_def Let_def)
      moreover have "wait_post ok pending (text_rest pending p w) (left pending (tp_stream p) w) ready p2 wx"
        using ok2 rest2 left2 r(3) by (auto simp: wait_post_def wx_def ready_def p2_def)
      ultimately show ?thesis by blast
    next
      case step: False
      have "tp_wait_loop os wait_for deadline delta p w = tp_wait_loop os wait_for deadline (deadline - now) p2 w3"
        using w1 False a now step by (subst tp_wait_loop.simps) (auto simp: p2_def Let_def)
      moreover from less.hyps [OF left2(2) ok2(2), of "deadline - now"] obtain ready p' w' where
        "tp_wait_loop os wait_for deadline (deadline - now) p2 w3 = Some (Inr ready, p', w')"
        "wait_post ok pending (text_rest pending p2 w3) (left pending (tp_stream p2) w3) ready p' w'" by blast
      ultimately show ?thesis using left2(2) rest2(2) by (auto simp: wait_post_def)
    qed
  qed
qed

lemma tp_wait_child:
  assumes c: "child os ok pending" and wt: "\<And>t. waits_well (wait_for t) ok pending" and ok: "text_ok ok pending p w"
  shows "\<exists>ready p' w'. tp_do_wait_for os wait_for t p w = Some (Inr ready, p', w')
    \<and> wait_post ok pending (text_rest pending p w) (left pending (tp_stream p) w) ready p' w'"
proof -
  obtain now w1 where now: "os_now os w = (now, w1)" by fastforce
  from c ok have n: "ok w1" "pending w1 = pending w" unfolding child_def text_ok_def stream_ok_def by (metis now snd_conv)+
  then have ok1: "text_ok ok pending p w1" using ok by (simp add: text_ok_def stream_ok_def)
  have same: "text_rest pending p w1 = text_rest pending p w" "left pending (tp_stream p) w1 = left pending (tp_stream p) w"
    using n by (simp_all add: text_rest_def left_def)
  from tp_wait_loop_child [where wait_for = wait_for and deadline = "now + max t 0" and delta = 0, OF c wt ok1] show ?thesis
    unfolding same by (simp add: tp_do_wait_for_def now)
qed

lemma tp_lines_child:
  assumes c: "child os ok pending" and wt: "\<And>t. waits_well (wait_for t) ok pending"
  shows "text_ok ok pending p w \<Longrightarrow> \<exists>p' w'. tp_lines os wait_for t acc p w
    = Some (Inr (acc @ crlf_lines (text_rest pending p w)), p', w') \<and> tp_is_closed p'"
proof (induction "length (text_rest pending p w) + left pending (tp_stream p) w" arbitrary: acc p w rule: less_induct)
  case less
  from tp_wait_child [where wait_for = wait_for and t = t, OF c wt less.prems] obtain ready p1 w1
    where w: "tp_do_wait_for os wait_for t p w = Some (Inr ready, p1, w1)"
      and post: "wait_post ok pending (text_rest pending p w) (left pending (tp_stream p) w) ready p1 w1" by blast
  then have ok1: "text_ok ok pending p1 w1" and rest1: "text_rest pending p1 w1 = text_rest pending p w"
    and le: "left pending (tp_stream p1) w1 \<le> left pending (tp_stream p) w" by (simp_all add: wait_post_def)
  show ?case
  proof (cases "ready \<and> tp_is_closed p1")
    case True
    then have "text_rest pending p1 w1 = []"
      using ok1 by (simp add: text_rest_def text_ok_def stream_ok_def tp_is_closed_def)
    then have "crlf_lines (text_rest pending p w) = []" using rest1 by (simp add: crlf_lines.simps [of "[]"])
    then show ?thesis using w True by (subst tp_lines.simps) simp
  next
    case False
    show ?thesis
    proof (cases ready)
      case False
      then have "left pending (tp_stream p1) w1 < left pending (tp_stream p) w" using post by (simp add: wait_post_def)
      then have "length (text_rest pending p1 w1) + left pending (tp_stream p1) w1
          < length (text_rest pending p w) + left pending (tp_stream p) w" using rest1 by simp
      from less.hyps [OF this ok1, of acc] w False rest1 show ?thesis by (subst tp_lines.simps) simp
    next
      case True
      with False have nc: "\<not> tp_is_closed p1" by simp
      have some: "sp_is_closed (tp_stream p1) \<or> find_from ((=) (CHR 0x0A)) (tp_buf p1) 0 \<noteq> None"
        using post True by (simp add: wait_post_def)
      have ne: "tp_buf p1 \<noteq> []" using some nc by (auto simp: tp_is_closed_def find_from_def)
      have "find_from ((=) (CHR 0x0A)) (tp_buf p1) 0 \<noteq> None \<or> pending w1 = []"
        using some ok1 by (auto simp: text_ok_def stream_ok_def)
      from crlf_lines_read [OF ne this] obtain l b where rd: "tp_read p1 = (Some l, p1\<lparr>tp_buf := b\<rparr>)"
        and b: "length b < length (tp_buf p1)" and cl: "crlf_lines (tp_buf p1 @ pending w1) = l # crlf_lines (b @ pending w1)" by blast
      let ?p2 = "p1\<lparr>tp_buf := b\<rparr>"
      have ok2: "text_ok ok pending ?p2 w1" using ok1 by (simp add: text_ok_def)
      have "length (text_rest pending ?p2 w1) + left pending (tp_stream ?p2) w1
          < length (text_rest pending p w) + left pending (tp_stream p) w"
        using b le unfolding rest1 [symmetric] by (simp add: text_rest_def)
      from less.hyps [OF this ok2, of "acc @ [l]"] obtain p3 w3 where
        "tp_lines os wait_for t (acc @ [l]) ?p2 w1 = Some (Inr ((acc @ [l]) @ crlf_lines (text_rest pending ?p2 w1)), p3, w3)"
        "tp_is_closed p3" by blast
      moreover have "crlf_lines (text_rest pending p w) = l # crlf_lines (text_rest pending ?p2 w1)"
        using cl unfolding rest1 [symmetric] by (simp add: text_rest_def)
      ultimately show ?thesis using w True nc rd by (subst tp_lines.simps) simp
    qed
  qed
qed

section \<open>Property\<close>

text \<open>
  C36. A reader that waits, stops when the channel is closed and reads otherwise gets from a \<open>TextProcess\<close> exactly the
  lines of the output of the process, without their line ends, and the last line also where it has none; however the
  output is cut into blocks and whatever the clock says, and the reader ends. \<open>shell\<close> returns the whole output.
\<close>

theorem text_process_lines:
  assumes "child os ok pending" and "\<And>t. waits_well (wait_for t) ok pending" and "waits_well wait ok pending" and "ok w"
    and "os_popen os cmd w = ((True, err), w)"
  shows "(\<exists>p p' w'. tp_new os cmd w = (Inr p, w)
      \<and> tp_lines os wait_for t [] p w = Some (Inr (crlf_lines (pending w)), p', w') \<and> tp_is_closed p')
    \<and> (\<exists>w'. shell os wait cmd w = Some (Inr (pending w), w'))"
proof
  let ?s = "\<lparr>sp_open = True, sp_status = -1, sp_block = default_block_size\<rparr>"
  have new: "sp_new os cmd w = (Inr ?s, w)" by (simp add: sp_new_def assms(5))
  have sok: "stream_ok ok pending ?s w" using assms(4) by (simp add: stream_ok_def sp_is_closed_def default_block_size_def)
  then have "text_ok ok pending \<lparr>tp_stream = ?s, tp_buf = []\<rparr> w" by (simp add: text_ok_def)
  from tp_lines_child [where wait_for = wait_for and t = t and acc = "[]", OF assms(1,2) this]
  show "\<exists>p p' w'. tp_new os cmd w = (Inr p, w)
      \<and> tp_lines os wait_for t [] p w = Some (Inr (crlf_lines (pending w)), p', w') \<and> tp_is_closed p'"
    by (simp add: tp_new_def new text_rest_def)
  from sp_read_all_child [OF assms(1,3) sok, of "[]"] show "\<exists>w'. shell os wait cmd w = Some (Inr (pending w), w')"
    by (auto simp: shell_def new sp_read_all_def)
qed

text \<open>A child that writes to a pipe of which \<open>fread\<close> gives up to four bytes at a time.\<close>

definition pipe_os :: "string process_os" where
  "pipe_os = \<lparr>os_popen = (\<lambda>cmd w. ((True, 0), w)), os_fread = (\<lambda>n w. ((take (min n 4) w, 0), drop (min n 4) w)),
     os_pclose = (\<lambda>w. (0, w)), os_pselect = (\<lambda>tv w. ((1, 0), w)), os_now = (\<lambda>w. (0, w))\<rparr>"

theorem text_process_lines_witness:
  "(\<exists>p p' w'. tp_new pipe_os ''ls'' (''ab'' @ [CHR 0x0D, CHR 0x0A] @ ''c'') = (Inr p, ''ab'' @ [CHR 0x0D, CHR 0x0A] @ ''c'')
      \<and> tp_lines pipe_os (\<lambda>t p w. (Inr True, w)) 0 [] p (''ab'' @ [CHR 0x0D, CHR 0x0A] @ ''c'') = Some (Inr [''ab'', ''c''], p', w'))"
proof -
  have "child pipe_os (\<lambda>w. True) id" by (auto simp: child_def pipe_os_def)
  moreover have "crlf_lines (''ab'' @ [CHR 0x0D, CHR 0x0A] @ ''c'') = [''ab'', ''c'']"
    by (simp add: crlf_lines.simps find_from_def chomp_def)
  ultimately show ?thesis
    using text_process_lines [of pipe_os "\<lambda>w. True" id "\<lambda>t p w. (Inr True, w)" "\<lambda>p w. (Inr (), w)" "''ab'' @ [CHR 0x0D, CHR 0x0A] @ ''c''" "''ls''" 0 0]
    by (simp add: waits_well_def pipe_os_def) blast
qed

end
