(* ===== verification/Mutex_Correct.thy ===== *)
theory Mutex_Correct
  imports Named_Mutex
begin

text \<open>
  Named mutexes over the documented semaphores of POSIX: processes that use the same name, with or without the
  prefix of an operating system, exclude each other; and what \<open>try_lock\<close> and \<open>try_lock_until\<close> do when the mutex
  is taken.
\<close>

section \<open>Named semaphores\<close>




section \<open>Processes\<close>





section \<open>The invariant\<close>












section \<open>Properties\<close>






end
