(* ===== verification/Posix_Signal.thy ===== *)
theory Posix_Signal
  imports Channel Numeric_Text Time_Conv
begin

text \<open>
  Class \<open>PosixSignal\<close> (\<open>signal.cpp\<close>): the POSIX version over signal masks, the Windows version over handlers and
  counters, and the names of signals. Signal sets are lists; the system calls are fields of a record.
\<close>

section \<open>POSIX\<close>

record 'w sig_system =
  sig_block :: "int list \<Rightarrow> 'w \<Rightarrow> int list \<times> 'w"
  sig_setmask :: "int list \<Rightarrow> 'w \<Rightarrow> 'w"
  sig_pending :: "'w \<Rightarrow> int list"
  sig_wait :: "int list \<Rightarrow> 'w \<Rightarrow> int \<times> 'w"
  sig_timedwait :: "int list \<Rightarrow> timespec \<Rightarrow> 'w \<Rightarrow> int \<times> 'w"
  sig_raise :: "int \<Rightarrow> 'w \<Rightarrow> 'w"
  SIGUSR1 :: int

record posix_signal =
  sg_signals :: "int list"
  sg_newmask :: "int list"
  sg_oldmask :: "int list"
  sg_queue :: "int list"
  sg_open :: bool

definition signal_new :: "'w sig_system \<Rightarrow> int list \<Rightarrow> 'w \<Rightarrow> posix_signal \<times> 'w" where
  "signal_new os list w =
     (let sigs = list @ [SIGUSR1 os];
          newmask = fold (\<lambda>s m. m @ [s]) sigs []
      in case sig_block os newmask w of (oldmask, w') \<Rightarrow>
           (\<lparr>sg_signals = sigs, sg_newmask = newmask, sg_oldmask = oldmask, sg_queue = [], sg_open = True\<rparr>, w'))"

text \<open>The loop of the destructor: one \<open>sigwait\<close> on the whole pending set for each own signal in it.\<close>

fun signal_drain :: "'w sig_system \<Rightarrow> int list \<Rightarrow> int list \<Rightarrow> 'w \<Rightarrow> 'w" where
  "signal_drain os pending [] w = w"
| "signal_drain os pending (t # ts) w =
     signal_drain os pending ts (if t \<in> set pending then snd (sig_wait os pending w) else w)"

definition signal_destroy :: "'w sig_system \<Rightarrow> posix_signal \<Rightarrow> 'w \<Rightarrow> 'w" where
  "signal_destroy os c w = sig_setmask os (sg_oldmask c) (signal_drain os (sig_pending os w) (sg_signals c) w)"

definition signal_close :: "'w sig_system \<Rightarrow> posix_signal \<Rightarrow> 'w \<Rightarrow> posix_signal \<times> 'w" where
  "signal_close os c w = (if sg_open c then (c\<lparr>sg_open := False\<rparr>, sig_raise os (SIGUSR1 os) w) else (c, w))"

definition signal_is_closed :: "posix_signal \<Rightarrow> bool" where
  "signal_is_closed c = (\<not> sg_open c)"

definition signal_read :: "posix_signal \<Rightarrow> int option \<times> posix_signal" where
  "signal_read c =
     (if \<not> sg_open c \<or> sg_queue c = [] then (None, c) else (Some (hd (sg_queue c)), c\<lparr>sg_queue := tl (sg_queue c)\<rparr>))"

text \<open>\<open>closing\<close> tells whether another thread closes the channel during the wait.\<close>

definition signal_do_wait_for :: "'w sig_system \<Rightarrow> bool \<Rightarrow> int \<Rightarrow> posix_signal \<Rightarrow> 'w \<Rightarrow> bool \<times> posix_signal \<times> 'w" where
  "signal_do_wait_for os closing t c w =
     (if \<not> sg_open c \<or> sg_queue c \<noteq> [] then (True, c, w)
      else let ts = duration_to_timespec 1 (max t 0)
           in case sig_timedwait os (sg_newmask c) ts w of (s, w') \<Rightarrow>
             (let c' = (if closing then c\<lparr>sg_open := False\<rparr> else c)
              in if \<not> sg_open c' then (True, c', w')
                 else if s = -1 then (False, c', w')
                 else (True, c'\<lparr>sg_queue := sg_queue c' @ [s]\<rparr>, w')))"

text \<open>
  The version for macOS, which polls: \<open>closing\<close> tells whether another thread has closed the channel by now, \<open>sleep\<close>
  lets time pass.
\<close>

partial_function (option) signal_wait_apple ::
    "'w sig_system \<Rightarrow> (int \<Rightarrow> 'w \<Rightarrow> 'w) \<Rightarrow> ('w \<Rightarrow> bool) \<Rightarrow> int \<Rightarrow> posix_signal \<Rightarrow> 'w \<Rightarrow> (bool \<times> posix_signal \<times> 'w) option" where
  "signal_wait_apple os sleep closing t c0 w =
     (let delta = 10000000; c = (if closing w then c0\<lparr>sg_open := False\<rparr> else c0)
      in if \<not> sg_open c \<or> sg_queue c \<noteq> [] then Some (True, c, w)
         else case List.find (\<lambda>s. s \<in> set (sig_pending os w)) (sg_signals c) of
             Some i \<Rightarrow> (case sig_wait os [i] w of (s, w') \<Rightarrow> Some (True, c\<lparr>sg_queue := sg_queue c @ [s]\<rparr>, w'))
           | None \<Rightarrow>
               if t \<le> 0 then Some (False, c, w)
               else if t < delta then signal_wait_apple os sleep closing 0 c (sleep t w)
               else signal_wait_apple os sleep closing (t - delta) c (sleep delta w))"

section \<open>Windows\<close>

text \<open>
  \<open>signal_status_\<close> is a static array of \<open>max_signals\<close> counters, shared by all objects; \<open>sig_handled\<close> is the table of
  the C library: the signals for which \<open>signal_handler\<close> is installed.
\<close>

definition max_signals :: int where "max_signals = 128"

record sig_table =
  sig_status :: "int \<Rightarrow> int"
  sig_handled :: "int \<Rightarrow> bool"

record win_signal =
  ws_signals :: "int list"
  ws_status :: int

definition ws_available :: "sig_table \<Rightarrow> win_signal \<Rightarrow> bool" where
  "ws_available tbl c = (if ws_status c = 0 then True else \<exists>s \<in> set (ws_signals c). 0 < sig_status tbl s)"

text \<open>\<open>std::to_string\<close> of a signed integer.\<close>

definition to_string_int :: "int \<Rightarrow> string" where
  "to_string_int n = (if n < 0 then ''-'' @ to_string (nat (- n)) else to_string (nat n))"

text \<open>\<open>refused s\<close> is the error number with which \<open>std::signal(s, signal_handler)\<close> fails, if it does.\<close>

definition ws_enable ::
    "(int \<Rightarrow> int option) \<Rightarrow> int \<Rightarrow> sig_table \<times> win_signal \<Rightarrow> unit res \<times> sig_table \<times> win_signal" where
  "ws_enable refused s st = (case st of (tbl, c) \<Rightarrow>
     (if s = 0 \<or> max_signals \<le> s then (Inl (Invalid_argument (''Invalid signal: '' @ to_string_int s)), tbl, c)
      else let tbl1 = tbl\<lparr>sig_status := (sig_status tbl)(s := 0)\<rparr>
           in case refused s of
                Some err \<Rightarrow> (Inl (System_error err), tbl1, c)
              | None \<Rightarrow> (Inr (), tbl1\<lparr>sig_handled := (sig_handled tbl1)(s := True)\<rparr>,
                         c\<lparr>ws_signals := ws_signals c @ [s], ws_status := 1\<rparr>)))"

fun ws_enable_all ::
    "(int \<Rightarrow> int option) \<Rightarrow> int list \<Rightarrow> sig_table \<times> win_signal \<Rightarrow> unit res \<times> sig_table \<times> win_signal" where
  "ws_enable_all refused [] st = (Inr (), st)"
| "ws_enable_all refused (s # ss) st = (case ws_enable refused s st of
      (Inl e, st') \<Rightarrow> (Inl e, st')
    | (Inr _, st') \<Rightarrow> ws_enable_all refused ss st')"

definition ws_new :: "(int \<Rightarrow> int option) \<Rightarrow> int list \<Rightarrow> sig_table \<Rightarrow> unit res \<times> sig_table \<times> win_signal" where
  "ws_new refused list tbl = ws_enable_all refused list (tbl, \<lparr>ws_signals = [], ws_status = 0\<rparr>)"

fun ws_unhandle :: "int list \<Rightarrow> sig_table \<Rightarrow> sig_table" where
  "ws_unhandle [] tbl = tbl"
| "ws_unhandle (s # ss) tbl = ws_unhandle ss (tbl\<lparr>sig_handled := (sig_handled tbl)(s := False)\<rparr>)"

definition ws_reset :: "sig_table \<times> win_signal \<Rightarrow> sig_table \<times> win_signal" where
  "ws_reset st = (case st of (tbl, c) \<Rightarrow> (ws_unhandle (ws_signals c) tbl, c\<lparr>ws_signals := [], ws_status := 0\<rparr>))"

definition ws_destroy :: "sig_table \<times> win_signal \<Rightarrow> sig_table" where
  "ws_destroy st = fst (ws_reset st)"

definition ws_close :: "win_signal \<Rightarrow> win_signal" where
  "ws_close c = c\<lparr>ws_status := 0\<rparr>"

definition ws_is_closed :: "win_signal \<Rightarrow> bool" where
  "ws_is_closed c = (ws_status c = 0)"

fun ws_first :: "int list \<Rightarrow> sig_table \<Rightarrow> int option \<times> sig_table" where
  "ws_first [] tbl = (None, tbl)"
| "ws_first (s # ss) tbl =
     (let count = sig_status tbl s
      in if 0 < count then (Some s, tbl\<lparr>sig_status := (sig_status tbl)(s := count - 1)\<rparr>) else ws_first ss tbl)"

definition ws_read :: "sig_table \<Rightarrow> win_signal \<Rightarrow> int option \<times> sig_table" where
  "ws_read tbl c = (if ws_status c = 0 then (None, tbl) else ws_first (ws_signals c) tbl)"

text \<open>The handler, and the loop of \<open>wait_until\<close> over what it sees in its turns: the counters and the clock.\<close>

definition ws_handler :: "int \<Rightarrow> sig_table \<Rightarrow> sig_table" where
  "ws_handler s tbl = tbl\<lparr>sig_status := (sig_status tbl)(s := sig_status tbl s + 1), sig_handled := (sig_handled tbl)(s := True)\<rparr>"

fun ws_wait_until :: "int \<Rightarrow> win_signal \<Rightarrow> (sig_table \<times> int) list \<Rightarrow> bool option" where
  "ws_wait_until t c [] = None"
| "ws_wait_until t c ((tbl, now) # turns) =
     (if ws_available tbl c then Some True else if t \<le> now then Some False else ws_wait_until t c turns)"

definition ws_do_wait_for :: "int \<Rightarrow> int \<Rightarrow> win_signal \<Rightarrow> (sig_table \<times> int) list \<Rightarrow> bool option" where
  "ws_do_wait_for now t c turns = ws_wait_until (now + t) c turns"

section \<open>Names\<close>

text \<open>The macros in the order of the table; \<open>defined\<close> gives the number of a signal that the system defines.\<close>

definition signal_names :: "string list" where
  "signal_names = [''SIGABRT'', ''SIGFPE'', ''SIGILL'', ''SIGINT'', ''SIGSEGV'', ''SIGTERM'', ''SIGALRM'', ''SIGBUS'',
     ''SIGCHLD'', ''SIGCONT'', ''SIGHUP'', ''SIGKILL'', ''SIGPIPE'', ''SIGPROF'', ''SIGQUIT'', ''SIGSTOP'', ''SIGSYS'',
     ''SIGTRAP'', ''SIGTSTP'', ''SIGTTIN'', ''SIGTTOU'', ''SIGURG'', ''SIGUSR1'', ''SIGUSR2'', ''SIGVTALRM'', ''SIGXCPU'',
     ''SIGXFSZ'', ''SIGEMT'', ''SIGINFO'', ''SIGIO'', ''SIGPOLL'', ''SIGPWR'', ''SIGRTMIN'', ''SIGRTMAX'', ''SIGSTKFLT'',
     ''SIGTHR'', ''SIGWINCH'']"

definition signal_name :: "(string \<Rightarrow> int option) \<Rightarrow> int \<Rightarrow> string" where
  "signal_name defined s = (case List.find (\<lambda>nm. defined nm = Some s) signal_names of
      Some nm \<Rightarrow> nm
    | None \<Rightarrow> (case (defined ''SIGRTMIN'', defined ''SIGRTMAX'') of
        (Some lo, Some hi) \<Rightarrow> if lo < s \<and> s < hi then ''SIGRTMIN+'' @ to_string_int (s - lo) else to_string_int s
      | _ \<Rightarrow> to_string_int s))"

end
