(* ===== verification/Signal_Correct.thy ===== *)
theory Signal_Correct
  imports Posix_Signal "HOL-Library.Multiset"
begin

text \<open>
  \<open>PosixSignal\<close> as a message channel, in both versions, and the names of signals.
\<close>

section \<open>The channel contract\<close>

definition signal_holds :: "posix_signal \<times> 'w \<Rightarrow> bool" where
  "signal_holds cw \<longleftrightarrow> \<not> sg_open (fst cw) \<or> sg_queue (fst cw) \<noteq> []"

text \<open>\<open>signal_holds\<close> is when a wait succeeds without asking the system.\<close>

lemma signal_holds_wait:
  "signal_holds (c, w) \<Longrightarrow> signal_do_wait_for os closing t c w = (True, c, w)"
  by (auto simp: signal_holds_def signal_do_wait_for_def)

interpretation posix_signals: message_channel
  "\<lambda>cw. True" "\<lambda>cw. signal_close os (fst cw) (snd cw)" "\<lambda>cw. signal_is_closed (fst cw)" signal_holds
  "\<lambda>cw. (fst (signal_read (fst cw)), (snd (signal_read (fst cw)), snd cw))" for os
  by unfold_locales (auto simp: signal_close_def signal_is_closed_def signal_holds_def signal_read_def)

text \<open>A successful wait leaves a message to read, or a closed channel; it keeps the messages it finds.\<close>

lemma signal_wait_holds:
  assumes "signal_do_wait_for os closing t c w = (True, c', w')"
  shows "signal_holds (c', w') \<and> (\<exists>new. sg_queue c' = sg_queue c @ new \<and> length new \<le> 1)"
  using assms by (auto simp: signal_do_wait_for_def signal_holds_def Let_def split: if_splits prod.splits)

text \<open>Polling ends, whatever happens: every turn takes some of the time that is left.\<close>

lemma signal_wait_apple_ends: "signal_wait_apple os sleep closing t c w \<noteq> None"
proof (induction "nat t" arbitrary: t c w rule: less_induct)
  case less
  have "nat (t - 10000000) < nat t" "nat 0 < nat t" if "0 < t" using that by auto
  with less show ?case
    by (subst signal_wait_apple.simps) (auto simp: Let_def split: option.split prod.split)
qed

interpretation win_signals: message_channel
  "\<lambda>st. True" "\<lambda>st. (fst st, ws_close (snd st))" "\<lambda>st. ws_is_closed (snd st)" "\<lambda>st. ws_available (fst st) (snd st)"
  "\<lambda>st. (fst (ws_read (fst st) (snd st)), (snd (ws_read (fst st) (snd st)), snd st))"
proof unfold_locales
  fix st :: "sig_table \<times> win_signal"
  have first: "\<exists>s \<in> set ss. 0 < sig_status tbl s \<Longrightarrow> \<exists>m. fst (ws_first ss tbl) = Some m" for ss tbl
    by (induction ss) (auto simp: Let_def)
  show "\<exists>m. fst (fst (ws_read (fst st) (snd st)), (snd (ws_read (fst st) (snd st)), snd st)) = Some m"
    if "\<not> ws_is_closed (snd st)" and "ws_available (fst st) (snd st)"
    using that first by (auto simp: ws_is_closed_def ws_available_def ws_read_def)
qed (auto simp: ws_close_def ws_is_closed_def ws_available_def ws_read_def)

section \<open>Delivery by the Windows version\<close>


fun ws_reads :: "nat \<Rightarrow> win_signal \<Rightarrow> sig_table \<Rightarrow> int option list \<times> sig_table" where
  "ws_reads 0 c tbl = ([], tbl)"
| "ws_reads (Suc n) c tbl = (case ws_read tbl c of (m, tbl1) \<Rightarrow> map_prod ((#) m) id (ws_reads n c tbl1))"







lemma ws_reads_status: "sig_handled (snd (ws_reads n c tbl)) = sig_handled tbl"
proof -
  have "sig_handled (snd (ws_first ss tbl)) = sig_handled tbl" for ss tbl
    by (induction ss) (auto simp: Let_def)
  then have "sig_handled (snd (ws_read tbl c)) = sig_handled tbl" for tbl by (simp add: ws_read_def)
  then show ?thesis by (induction n arbitrary: tbl) (simp_all add: case_prod_unfold)
qed



text \<open>\<open>enable\<close> refuses zero and large numbers but not negative ones, for which it writes before the array.\<close>

lemma ws_enable_negative: "refused (-1) = None \<Longrightarrow> fst (ws_enable refused (-1) (tbl, c)) = Inr ()"
  by (simp add: ws_enable_def max_signals_def)

section \<open>Names\<close>

lemma signal_names_shape: "nm \<in> set signal_names \<Longrightarrow> nm \<noteq> [] \<and> hd nm = CHR ''S'' \<and> CHR ''+'' \<notin> set nm"
proof -
  have "\<forall>nm \<in> set signal_names. nm \<noteq> [] \<and> hd nm = CHR ''S'' \<and> CHR ''+'' \<notin> set nm" by code_simp
  then show "nm \<in> set signal_names \<Longrightarrow> ?thesis" by blast
qed

lemma hd_to_string: "is_digit (hd (to_string n))"
  using to_string_digits [of n] by (cases "to_string n") auto

lemma to_string_int_hd: "to_string_int n \<noteq> [] \<and> (hd (to_string_int n) = CHR ''-'' \<or> is_digit (hd (to_string_int n)))"
  using hd_to_string by (simp add: to_string_int_def)

lemma to_string_int_not_S: "hd (to_string_int n) \<noteq> CHR ''S''"
  using to_string_int_hd [of n] by (auto simp: is_digit_def)

lemma to_string_int_inj: "to_string_int m = to_string_int n \<longleftrightarrow> m = n"
proof
  assume e: "to_string_int m = to_string_int n"
  have d: "to_string k \<noteq> ''-'' @ to_string l" for k l
    using hd_to_string [of k] by (cases "to_string k") (auto simp: is_digit_def)
  show "m = n" using e d [of "nat m" "nat (- n)"] d [of "nat n" "nat (- m)"]
    by (auto simp: to_string_int_def to_string_inj split: if_splits)
qed simp

lemma rt_cases:
  "(\<exists>lo. (case (a, b) of (Some lo, Some hi) \<Rightarrow> if lo < u \<and> u < hi then f lo else g | _ \<Rightarrow> g) = f lo \<and> a = Some lo)
     \<or> (case (a, b) of (Some lo, Some hi) \<Rightarrow> if lo < u \<and> u < hi then f lo else g | _ \<Rightarrow> g) = g" for u :: int
  by (cases a; cases b) auto

text \<open>The names tell signals apart, on every system.\<close>

theorem signal_name_inj: "signal_name defined s = signal_name defined t \<longleftrightarrow> s = t"
proof
  assume e: "signal_name defined s = signal_name defined t"
  let ?f = "\<lambda>s. List.find (\<lambda>nm. defined nm = Some s) signal_names"
  have some: "defined nm = Some u \<and> signal_name defined u = nm \<and> nm \<in> set signal_names" if "?f u = Some nm" for u nm
  proof -
    have "defined nm = Some u \<and> nm \<in> set signal_names" using that by (auto simp: find_Some_iff)
    moreover have "signal_name defined u = nm" by (simp add: signal_name_def that)
    ultimately show ?thesis by simp
  qed
  have none: "(\<exists>lo. signal_name defined u = ''SIGRTMIN+'' @ to_string_int (u - lo) \<and> defined ''SIGRTMIN'' = Some lo)
      \<or> signal_name defined u = to_string_int u" if "?f u = None" for u
    unfolding signal_name_def that option.case by (rule rt_cases)
  have plus: "CHR ''+'' \<in> set (''SIGRTMIN+'' @ x)" for x by simp
  have mixed: "signal_name defined u \<noteq> signal_name defined v" if "?f u = Some nm" and "?f v = None" for u v nm
  proof
    assume eq: "signal_name defined u = signal_name defined v"
    have nm: "signal_name defined u = nm" and shape: "hd nm = CHR ''S''" "CHR ''+'' \<notin> set nm"
      using some [OF that(1)] signal_names_shape [of nm] by blast+
    from none [OF that(2)] show False
    proof
      assume "\<exists>lo. signal_name defined v = ''SIGRTMIN+'' @ to_string_int (v - lo) \<and> defined ''SIGRTMIN'' = Some lo"
      then obtain x where "nm = ''SIGRTMIN+'' @ x" using eq nm by metis
      with plus [of x] shape(2) show False by metis
    next
      assume "signal_name defined v = to_string_int v"
      then show False using eq nm shape(1) to_string_int_not_S [of v] by metis
    qed
  qed
  have ht: "''SIGRTMIN+'' @ x \<noteq> to_string_int u" for x u
  proof
    assume e: "''SIGRTMIN+'' @ x = to_string_int u"
    have "hd (''SIGRTMIN+'' @ x) = CHR ''S''" by simp
    then show False using to_string_int_not_S [of u] unfolding e by simp
  qed
  have both: "s = t" if f: "?f s = None" "?f t = None"
    using none [OF f(1)] none [OF f(2)]
  proof (elim disjE exE conjE)
    fix lo lo'
    assume a: "signal_name defined s = ''SIGRTMIN+'' @ to_string_int (s - lo)" "defined ''SIGRTMIN'' = Some lo"
      "signal_name defined t = ''SIGRTMIN+'' @ to_string_int (t - lo')" "defined ''SIGRTMIN'' = Some lo'"
    from a(2,4) have l: "lo = lo'" by simp
    from a(1,3) e have "to_string_int (s - lo) = to_string_int (t - lo')" by (metis same_append_eq)
    then show "s = t" unfolding to_string_int_inj using l by simp
  next
    assume "signal_name defined s = to_string_int s" "signal_name defined t = to_string_int t"
    with e show "s = t" by (metis to_string_int_inj)
  qed (use e ht in metis)+
  show "s = t"
  proof (cases "?f s")
    case None
    show ?thesis
    proof (cases "?f t")
      case (Some b)
      then show ?thesis using mixed [OF Some None] e by metis
    qed (use None both in blast)
  next
    case (Some a)
    note sa = Some
    show ?thesis
    proof (cases "?f t")
      case (Some b)
      with some [OF sa] some [OF Some] e show ?thesis by (metis option.inject)
    qed (use sa mixed e in metis)
  qed
qed simp

end
