(* ===== verification/Winio.thy ===== *)
theory Winio
  imports Stdio_Handles
begin

text \<open>
  Class \<open>Winio\<close> of \<open>stdio.cpp\<close>, the file handles of the Windows build, and the meaning of the opening modes of the
  three file classes. The Windows calls are fields of a record; each gives its result and the value of
  \<open>GetLastError()\<close> after it.
\<close>

section \<open>Handles\<close>

datatype win_access = GENERIC_READ | GENERIC_WRITE
datatype win_share = FILE_SHARE_READ | FILE_SHARE_WRITE
datatype win_creation = CREATE_ALWAYS | OPEN_ALWAYS | OPEN_EXISTING
datatype win_method = FILE_BEGIN | FILE_CURRENT | FILE_END

text \<open>The arguments of \<open>CreateFileW\<close> after the name.\<close>

record 'h create_args =
  desired_access :: "win_access list"
  share_mode :: "win_share list"
  security_attributes :: 'h
  creation_disposition :: win_creation
  flags_and_attributes :: "32 word"
  template_file :: 'h

record ('h, 'w) win_files =
  wf_null :: 'h
  wf_invalid :: 'h
  wf_stdin :: 'h
  wf_stdout :: 'h
  wf_stderr :: 'h
  wf_create :: "string \<Rightarrow> 'h create_args \<Rightarrow> 'w \<Rightarrow> ('h \<times> int) \<times> 'w"
  wf_close :: "'h \<Rightarrow> 'w \<Rightarrow> int \<times> 'w"
  wf_flush :: "'h \<Rightarrow> 'w \<Rightarrow> (bool \<times> int) \<times> 'w"
  wf_read :: "'h \<Rightarrow> 32 word \<Rightarrow> 'w \<Rightarrow> (string \<times> int) \<times> 'w"
  wf_write :: "'h \<Rightarrow> string \<Rightarrow> 32 word \<Rightarrow> 'w \<Rightarrow> (nat \<times> int) \<times> 'w"
  wf_set_pointer :: "'h \<Rightarrow> int \<Rightarrow> win_method \<Rightarrow> 'w \<Rightarrow> (bool \<times> int \<times> int) \<times> 'w"

definition winio_deleter :: "('h, 'w) win_files \<Rightarrow> 'h \<Rightarrow> 'w \<Rightarrow> int \<times> 'w" where
  "winio_deleter os h w =
     (if h \<noteq> wf_invalid os \<and> h \<noteq> wf_stdin os \<and> h \<noteq> wf_stdout os \<and> h \<noteq> wf_stderr os then wf_close os h w else (0, w))"

definition winio_create :: "('h, 'w) win_files \<Rightarrow> path \<Rightarrow> 'h create_args \<Rightarrow> 'w \<Rightarrow> 'h res \<times> 'w" where
  "winio_create os f args w = (case wf_create os (filename f) args w of
     ((h, err), w') \<Rightarrow> (if h = wf_invalid os then Inl (io_error err) else Inr h, w'))"

definition win_mode :: "io_mode \<Rightarrow> win_access list \<times> win_creation" where
  "win_mode m = (case m of
      Mode_read \<Rightarrow> ([GENERIC_READ], OPEN_EXISTING)
    | Mode_write \<Rightarrow> ([GENERIC_WRITE], CREATE_ALWAYS)
    | Mode_append \<Rightarrow> ([GENERIC_WRITE], OPEN_ALWAYS)
    | Mode_create_always \<Rightarrow> ([GENERIC_READ, GENERIC_WRITE], CREATE_ALWAYS)
    | Mode_open_always \<Rightarrow> ([GENERIC_READ, GENERIC_WRITE], OPEN_ALWAYS)
    | Mode_open_existing \<Rightarrow> ([GENERIC_READ, GENERIC_WRITE], OPEN_EXISTING))"

text \<open>The destructor of an object, which is that of its member \<open>fh_\<close>.\<close>

definition winio_destroy :: "('h, 'w) win_files \<Rightarrow> 'h resource \<Rightarrow> 'w \<Rightarrow> 'w" where
  "winio_destroy os r w = (case res_destroy (wf_null os) r of [] \<Rightarrow> w | h # _ \<Rightarrow> snd (winio_deleter os h w))"

text \<open>
  The constructor for a mode. When the seek to the end fails the handle is already held by the member \<open>fh_\<close>, which is
  destroyed.
\<close>

definition winio_open :: "('h, 'w) win_files \<Rightarrow> path \<Rightarrow> io_mode \<Rightarrow> 'w \<Rightarrow> 'h res \<times> 'w" where
  "winio_open os f m w =
     (if (p_empty f \<or> filename f = ''-'') \<and> m = Mode_read then (Inr (wf_stdin os), w)
      else if (p_empty f \<or> filename f = ''-'') \<and> (m = Mode_write \<or> m = Mode_append) then (Inr (wf_stdout os), w)
      else case win_mode m of (acc, creation) \<Rightarrow>
        (case winio_create os f \<lparr>desired_access = acc, share_mode = [], security_attributes = wf_null os,
                creation_disposition = creation, flags_and_attributes = 0, template_file = wf_null os\<rparr> w of
           (Inl e, w1) \<Rightarrow> (Inl e, w1)
         | (Inr h, w1) \<Rightarrow>
             if m = Mode_append
             then (case wf_set_pointer os h 0 FILE_END w1 of
                     ((rc, p, err), w2) \<Rightarrow>
                       if \<not> rc then (Inl (io_error err), winio_destroy os \<lparr>res_value = h\<rparr> w2) else (Inr h, w2))
             else (Inr h, w1)))"

definition winio_close :: "('h, 'w) win_files \<Rightarrow> 'h resource \<Rightarrow> 'w \<Rightarrow> unit res \<times> 'h resource \<times> 'w" where
  "winio_close os r w =
     (case res_reset (wf_null os) r of (r', dels) \<Rightarrow>
        (case dels of
           [] \<Rightarrow> (Inr (), r', w)
         | h # _ \<Rightarrow> (case winio_deleter os h w of (e, w') \<Rightarrow> (check_for_error e (), r', w'))))"

definition winio_is_open :: "('h, 'w) win_files \<Rightarrow> 'h resource \<Rightarrow> bool" where
  "winio_is_open os r = (res_value r \<noteq> wf_null os)"

definition winio_flush :: "('h, 'w) win_files \<Rightarrow> 'h \<Rightarrow> 'w \<Rightarrow> unit res \<times> 'w" where
  "winio_flush os h w = (case wf_flush os h w of ((ok, e), w') \<Rightarrow> (if \<not> ok then check_for_error e () else Inr (), w'))"

text \<open>The length is cut to the 32 bits of a \<open>DWORD\<close>.\<close>

definition winio_read :: "('h, 'w) win_files \<Rightarrow> 'h \<Rightarrow> nat \<Rightarrow> 'w \<Rightarrow> string res \<times> 'w" where
  "winio_read os h maxlen w = (case wf_read os h (of_nat maxlen) w of ((d, e), w') \<Rightarrow> (check_for_error e d, w'))"

definition winio_write :: "('h, 'w) win_files \<Rightarrow> 'h \<Rightarrow> string \<Rightarrow> 'w \<Rightarrow> nat res \<times> 'w" where
  "winio_write os h d w = (case wf_write os h d (of_nat (length d)) w of ((n, e), w') \<Rightarrow> (check_for_error e n, w'))"

definition SEEK_SET :: int where "SEEK_SET = 0"
definition SEEK_END :: int where "SEEK_END = 2"

definition seek_method :: "int \<Rightarrow> win_method" where
  "seek_method which =
     (if which = SEEK_SET then FILE_BEGIN else if which = SEEK_CUR then FILE_CURRENT
      else if which = SEEK_END then FILE_END else FILE_BEGIN)"

definition winio_seek :: "('h, 'w) win_files \<Rightarrow> 'h \<Rightarrow> int \<Rightarrow> int \<Rightarrow> 'w \<Rightarrow> unit res \<times> 'w" where
  "winio_seek os h ofs which w =
     (case wf_set_pointer os h ofs (seek_method which) w of ((ok, p, e), w') \<Rightarrow> (check_for_error e (), w'))"

definition winio_tell :: "('h, 'w) win_files \<Rightarrow> 'h \<Rightarrow> 'w \<Rightarrow> int res \<times> 'w" where
  "winio_tell os h w = (case wf_set_pointer os h 0 FILE_CURRENT w of ((ok, p, e), w') \<Rightarrow> (check_for_error e p, w'))"

definition null_device_win :: string where "null_device_win = ''NUL:''"

definition winio_null :: "('h, 'w) win_files \<Rightarrow> (string \<Rightarrow> path) \<Rightarrow> 'w \<Rightarrow> 'h res \<times> 'w" where
  "winio_null os to_path w = winio_create os (to_path null_device_win)
     \<lparr>desired_access = [GENERIC_READ, GENERIC_WRITE], share_mode = [FILE_SHARE_READ, FILE_SHARE_WRITE],
      security_attributes = wf_null os, creation_disposition = OPEN_EXISTING, flags_and_attributes = 0, template_file = wf_null os\<rparr> w"

definition winio_std_input :: "('h, 'w) win_files \<Rightarrow> 'h" where "winio_std_input os = wf_stdin os"
definition winio_std_output :: "('h, 'w) win_files \<Rightarrow> 'h" where "winio_std_output os = wf_stdout os"
definition winio_std_error :: "('h, 'w) win_files \<Rightarrow> 'h" where "winio_std_error os = wf_stderr os"

end
