(* ===== verification/File_Modes.thy ===== *)
theory File_Modes
  imports Winio
begin

text \<open>
  What \<open>IoMode\<close> means. A small disk gives the documented behaviour of \<open>open\<close>, \<open>fopen\<close> and \<open>CreateFileW\<close>, and of
  reading and writing through a descriptor; on it the constructors of the three file classes are compared with the
  table of modes in \<open>docs/stdio.md\<close>, and \<open>Fdio\<close> is a device in the sense of \<open>Io_Base\<close>.
\<close>

section \<open>A disk\<close>

record open_file =
  of_name :: string
  of_pos :: nat
  of_read :: bool
  of_write :: bool
  of_append :: bool

record disk =
  files :: "string \<Rightarrow> string option"
  handles :: "int \<Rightarrow> open_file option"
  next_handle :: int

definition ENOENT :: int where "ENOENT = 2"
definition EEXIST :: int where "EEXIST = 17"

text \<open>A file with the given name is opened: made if it is missing, emptied if asked.\<close>

definition disk_open :: "string \<Rightarrow> bool \<Rightarrow> bool \<Rightarrow> bool \<Rightarrow> bool \<Rightarrow> disk \<Rightarrow> int \<times> disk" where
  "disk_open nm rd wr app empties w =
     (next_handle w,
      w\<lparr>files := (files w)(nm \<mapsto> (if empties then [] else case files w nm of None \<Rightarrow> [] | Some c \<Rightarrow> c)),
        handles := (handles w)(next_handle w \<mapsto> \<lparr>of_name = nm, of_pos = 0, of_read = rd, of_write = wr, of_append = app\<rparr>),
        next_handle := next_handle w + 1\<rparr>)"

definition disk_close :: "int \<Rightarrow> disk \<Rightarrow> int \<times> disk" where
  "disk_close h w = (if handles w h = None then (9, w) else (0, w\<lparr>handles := (handles w)(h := None)\<rparr>))"

text \<open>Reading and writing move at most \<open>k\<close> bytes at a time.\<close>

definition disk_read :: "nat \<Rightarrow> int \<Rightarrow> nat \<Rightarrow> disk \<Rightarrow> (string \<times> int) \<times> disk" where
  "disk_read k h n w = (case handles w h of
      None \<Rightarrow> (([], 9), w)
    | Some f \<Rightarrow> (case files w (of_name f) of
        None \<Rightarrow> (([], 5), w)
      | Some c \<Rightarrow>
          if \<not> of_read f then (([], 9), w)
          else let d = take (min n k) (drop (of_pos f) c)
               in ((d, 0), w\<lparr>handles := (handles w)(h \<mapsto> f\<lparr>of_pos := of_pos f + length d\<rparr>)\<rparr>)))"

definition disk_write :: "nat \<Rightarrow> int \<Rightarrow> string \<Rightarrow> disk \<Rightarrow> (nat \<times> int) \<times> disk" where
  "disk_write k h d w = (case handles w h of
      None \<Rightarrow> ((0, 9), w)
    | Some f \<Rightarrow> (case files w (of_name f) of
        None \<Rightarrow> ((0, 5), w)
      | Some c \<Rightarrow>
          if \<not> of_write f then ((0, 9), w)
          else let p = (if of_append f then length c else of_pos f); x = take k d;
                   c' = take p (c @ replicate (p - length c) (CHR 0x00)) @ x @ drop (p + length x) c
               in ((length x, 0),
                   w\<lparr>files := (files w)(of_name f \<mapsto> c'), handles := (handles w)(h \<mapsto> f\<lparr>of_pos := p + length x\<rparr>)\<rparr>)))"

text \<open>\<open>open\<close>, \<open>fopen\<close> and \<open>CreateFileW\<close>, which on success leaves an error number for a file that was there.\<close>

definition posix_open :: "string \<Rightarrow> open_flag list \<Rightarrow> nat \<Rightarrow> disk \<Rightarrow> (int \<times> int) \<times> disk" where
  "posix_open nm flags perm w =
     (if files w nm = None \<and> O_CREAT \<notin> set flags then ((-1, ENOENT), w)
      else if files w nm \<noteq> None \<and> O_CREAT \<in> set flags \<and> O_EXCL \<in> set flags then ((-1, EEXIST), w)
      else case disk_open nm (O_RDONLY \<in> set flags \<or> O_RDWR \<in> set flags) (O_WRONLY \<in> set flags \<or> O_RDWR \<in> set flags)
                  (O_APPEND \<in> set flags) (O_TRUNC \<in> set flags) w of (h, w') \<Rightarrow> ((h, 0), w'))"

definition libc_fopen :: "string \<Rightarrow> string \<Rightarrow> disk \<Rightarrow> (int \<times> int) \<times> disk" where
  "libc_fopen nm mode w =
     (if mode = [] \<or> hd mode \<notin> set ''rwa'' then ((-1, 22), w)
      else if hd mode = CHR ''r'' \<and> files w nm = None then ((-1, ENOENT), w)
      else let plus = CHR ''+'' \<in> set mode
           in case disk_open nm (hd mode = CHR ''r'' \<or> plus) (hd mode \<noteq> CHR ''r'' \<or> plus)
                     (hd mode = CHR ''a'') (hd mode = CHR ''w'') w of (h, w') \<Rightarrow> ((h, 0), w'))"

definition win_create_file :: "string \<Rightarrow> int create_args \<Rightarrow> disk \<Rightarrow> (int \<times> int) \<times> disk" where
  "win_create_file nm args w =
     (if files w nm = None \<and> creation_disposition args = OPEN_EXISTING then ((-1, ENOENT), w)
      else case disk_open nm (GENERIC_READ \<in> set (desired_access args)) (GENERIC_WRITE \<in> set (desired_access args))
                  False (creation_disposition args = CREATE_ALWAYS) w of
        (h, w') \<Rightarrow> ((h, if files w nm \<noteq> None \<and> creation_disposition args \<noteq> OPEN_EXISTING then 183 else 0), w'))"

definition win_move_pointer :: "int \<Rightarrow> int \<Rightarrow> win_method \<Rightarrow> disk \<Rightarrow> (bool \<times> int \<times> int) \<times> disk" where
  "win_move_pointer h ofs method w = (case handles w h of
      None \<Rightarrow> ((False, 0, 6), w)
    | Some f \<Rightarrow>
        let start = (case method of FILE_BEGIN \<Rightarrow> 0 | FILE_CURRENT \<Rightarrow> of_pos f
                     | FILE_END \<Rightarrow> (case files w (of_name f) of None \<Rightarrow> 0 | Some c \<Rightarrow> length c));
            p = int start + ofs
        in if p < 0 then ((False, 0, 131), w)
           else ((True, p, 0), w\<lparr>handles := (handles w)(h \<mapsto> f\<lparr>of_pos := nat p\<rparr>)\<rparr>))"

text \<open>The three systems over the same disk; what opening does not use is the simplest function of its type.\<close>

definition posix_disk :: "nat \<Rightarrow> disk fd_system" where
  "posix_disk k = \<lparr>sys_open = posix_open, sys_close = disk_close, sys_read = disk_read k, sys_write = disk_write k,
     sys_lseek = (\<lambda>fd p q w. ((-1, 29), w)), sys_fsync = (\<lambda>fd w. (0, w)), sys_dup = (\<lambda>fd w. ((-1, 24), w)),
     sys_dup2 = (\<lambda>fd f w. (24, w)), sys_pipe = (\<lambda>w. ((None, 24), w))\<rparr>"

definition libc_disk :: "(int, disk) c_library" where
  "libc_disk = \<lparr>null_file = -1, c_stdin = 0, c_stdout = 1, c_stderr = 2, lib_fopen = libc_fopen, lib_fclose = disk_close,
     lib_fflush = (\<lambda>h w. (0, w)), lib_fseeko = (\<lambda>h p q w. (29, w)), lib_ftello = (\<lambda>h w. ((-1, 29), w)),
     lib_fgetc = (\<lambda>h w. w), lib_fdopen = (\<lambda>fd m w. (fd, w)), lib_tmpfile = (\<lambda>w. ((-1, 24), w)), lib_fileno = id\<rparr>"

definition win_disk :: "nat \<Rightarrow> (int, disk) win_files" where
  "win_disk k = \<lparr>wf_null = -2, wf_invalid = -1, wf_stdin = 0, wf_stdout = 1, wf_stderr = 2, wf_create = win_create_file,
     wf_close = disk_close, wf_flush = (\<lambda>h w. ((True, 0), w)), wf_read = (\<lambda>h n. disk_read k h (unat n)),
     wf_write = (\<lambda>h d n. disk_write k h (take (unat n) d)), wf_set_pointer = win_move_pointer\<rparr>"

section \<open>The modes\<close>

text \<open>The table of the documentation.\<close>

definition mode_reads :: "io_mode \<Rightarrow> bool" where
  "mode_reads m = (m \<in> {Mode_read, Mode_create_always, Mode_open_always, Mode_open_existing})"

definition mode_writes :: "io_mode \<Rightarrow> bool" where
  "mode_writes m = (m \<noteq> Mode_read)"

definition mode_needs_file :: "io_mode \<Rightarrow> bool" where
  "mode_needs_file m = (m \<in> {Mode_read, Mode_open_existing})"

definition mode_replaces :: "io_mode \<Rightarrow> bool" where
  "mode_replaces m = (m \<in> {Mode_write, Mode_create_always})"

text \<open>What an open file allows, and where the next write goes.\<close>

definition write_pos :: "disk \<Rightarrow> open_file \<Rightarrow> nat" where
  "write_pos w f = (if of_append f then length (the (files w (of_name f))) else of_pos f)"

text \<open>An attempt to open \<open>nm\<close> that does what the table says for the mode.\<close>

definition opens_as :: "io_mode \<Rightarrow> string \<Rightarrow> disk \<Rightarrow> int res \<times> disk \<Rightarrow> bool" where
  "opens_as m nm w result \<longleftrightarrow> (case result of
      (Inl e, w') \<Rightarrow> files w nm = None \<and> mode_needs_file m \<and> e = System_error ENOENT \<and> w' = w
    | (Inr h, w') \<Rightarrow>
        (files w nm = None \<longrightarrow> \<not> mode_needs_file m) \<and> handles w h = None
        \<and> files w' = (files w)(nm \<mapsto> (if mode_replaces m then [] else case files w nm of None \<Rightarrow> [] | Some c \<Rightarrow> c))
        \<and> (\<exists>f. handles w' = (handles w)(h \<mapsto> f) \<and> of_name f = nm \<and> of_read f = mode_reads m \<and> of_write f = mode_writes m
              \<and> write_pos w' f = (if m = Mode_append then length (the (files w' nm)) else 0)))"

text \<open>Handles are given out in order and are none of the special ones.\<close>

definition disk_ok :: "disk \<Rightarrow> bool" where
  "disk_ok w \<longleftrightarrow> 2 < next_handle w \<and> (\<forall>h \<ge> next_handle w. handles w h = None)"

lemma disk_open_opens:
  assumes "disk_ok w" and "disk_open nm (mode_reads m) (mode_writes m) app (mode_replaces m) w = (h, w')"
    and "files w nm = None \<longrightarrow> \<not> mode_needs_file m" and "m = Mode_append \<longleftrightarrow> app"
  shows "opens_as m nm w (Inr h, w')"
  using assms unfolding opens_as_def disk_open_def disk_ok_def
  by (auto simp: write_pos_def split: option.split)

named_theorems mode_table

lemma mode_tables [mode_table]:
  "mode_reads m = (case m of Mode_read \<Rightarrow> True | Mode_write \<Rightarrow> False | Mode_append \<Rightarrow> False | _ \<Rightarrow> True)"
  "mode_writes m = (case m of Mode_read \<Rightarrow> False | _ \<Rightarrow> True)"
  "mode_needs_file m = (case m of Mode_read \<Rightarrow> True | Mode_open_existing \<Rightarrow> True | _ \<Rightarrow> False)"
  "mode_replaces m = (case m of Mode_write \<Rightarrow> True | Mode_create_always \<Rightarrow> True | _ \<Rightarrow> False)"
  by (cases m; simp add: mode_reads_def mode_writes_def mode_needs_file_def mode_replaces_def)+

text \<open>Each system's call is \<^const>\<open>disk_open\<close> for the rights of the mode, or refuses.\<close>

lemma posix_open_mode:
  "posix_open nm (fd_mode m) perm w =
     (if files w nm = None \<and> mode_needs_file m then ((-1, ENOENT), w)
      else case disk_open nm (mode_reads m) (mode_writes m) (m = Mode_append) (mode_replaces m) w of (h, w') \<Rightarrow> ((h, 0), w'))"
  by (cases m) (simp_all add: posix_open_def fd_mode_def mode_table)

lemma libc_fopen_mode:
  "m \<noteq> Mode_open_always \<Longrightarrow> libc_fopen nm (stdio_mode m) w =
     (if files w nm = None \<and> mode_needs_file m then ((-1, ENOENT), w)
      else case disk_open nm (mode_reads m) (mode_writes m) (m = Mode_append) (mode_replaces m) w of (h, w') \<Rightarrow> ((h, 0), w'))"
  by (cases m) (simp_all add: libc_fopen_def stdio_mode_def mode_table)

lemma libc_fopen_update:
  "files w nm \<noteq> None \<Longrightarrow> libc_fopen nm ''rb+'' w = (case disk_open nm True True False False w of (h, w') \<Rightarrow> ((h, 0), w'))"
  "files w nm = None \<Longrightarrow> libc_fopen nm ''rb+'' w = ((-1, ENOENT), w)"
  by (auto simp: libc_fopen_def)

lemma win_create_mode:
  assumes "win_mode m = (acc, cr)"
  shows "win_create_file nm \<lparr>desired_access = acc, share_mode = sh, security_attributes = x, creation_disposition = cr,
       flags_and_attributes = fl, template_file = y\<rparr> w =
     (if files w nm = None \<and> mode_needs_file m then ((-1, ENOENT), w)
      else case disk_open nm (mode_reads m) (mode_writes m) False (mode_replaces m) w of
        (h, w') \<Rightarrow> ((h, if files w nm \<noteq> None \<and> cr \<noteq> OPEN_EXISTING then 183 else 0), w'))"
  using assms by (cases m) (auto simp: win_create_file_def win_mode_def mode_table)

lemma disk_open_handle: "disk_open nm r wr ap e w = (h, w') \<Longrightarrow> disk_ok w \<Longrightarrow> 2 < h \<and> next_handle w = h"
  by (auto simp: disk_open_def disk_ok_def)

lemma disk_open_files:
  "disk_open nm r wr ap e w = (h, w') \<Longrightarrow> \<exists>c. files w' nm = Some c \<and> (\<not> e \<longrightarrow> c = (case files w nm of None \<Rightarrow> [] | Some c \<Rightarrow> c))
     \<and> handles w' h = Some \<lparr>of_name = nm, of_pos = 0, of_read = r, of_write = wr, of_append = ap\<rparr>"
  by (auto simp: disk_open_def)

lemma opens_as_missing: "files w nm = None \<Longrightarrow> mode_needs_file m \<Longrightarrow> opens_as m nm w (Inl (System_error ENOENT), w)"
  by (simp add: opens_as_def)

lemma fdio_open_mode:
  assumes "disk_ok w" and "\<not> p_empty f" and "filename f \<noteq> ''-''"
  shows "opens_as m (filename f) w (fdio_open (posix_disk k) f m w)"
proof (cases "files w (filename f) = None \<and> mode_needs_file m")
  case True
  then show ?thesis using assms(2,3)
    by (simp add: fdio_open_def fdio_open_flags_def posix_disk_def posix_open_mode io_error_def ENOENT_def opens_as_missing [unfolded ENOENT_def])
next
  case False
  obtain h w' where d: "disk_open (filename f) (mode_reads m) (mode_writes m) (m = Mode_append) (mode_replaces m) w = (h, w')"
    by fastforce
  then have "fdio_open (posix_disk k) f m w = (Inr h, w')" using False assms(2,3)
    unfolding fdio_open_def fdio_open_flags_def posix_disk_def fd_system.select_convs posix_open_mode if_not_P [OF False] by simp
  with disk_open_opens [OF assms(1) d] False show ?thesis by auto
qed

lemma winio_open_mode:
  assumes "disk_ok w" and "\<not> p_empty f" and "filename f \<noteq> ''-''"
  shows "opens_as m (filename f) w (winio_open (win_disk k) f m w)"
proof (cases "files w (filename f) = None \<and> mode_needs_file m")
  case True
  obtain acc cr where m: "win_mode m = (acc, cr)" by fastforce
  show ?thesis using assms(2,3) True
    by (simp add: winio_open_def m winio_create_def win_disk_def win_create_mode [OF m] io_error_def ENOENT_def opens_as_missing [unfolded ENOENT_def])
next
  case False
  obtain acc cr where m: "win_mode m = (acc, cr)" by fastforce
  obtain h w' where d: "disk_open (filename f) (mode_reads m) (mode_writes m) False (mode_replaces m) w = (h, w')"
    by fastforce
  note h = disk_open_handle [OF d assms(1)]
  have open1: "winio_create (win_disk k) f \<lparr>desired_access = acc, share_mode = [], security_attributes = -2,
      creation_disposition = cr, flags_and_attributes = 0, template_file = -2\<rparr> w = (Inr h, w')"
    using h unfolding winio_create_def win_disk_def win_files.select_convs win_create_mode [OF m] if_not_P [OF False] d by simp
  have null: "wf_null (win_disk k) = -2" "wf_set_pointer (win_disk k) = win_move_pointer" by (simp_all add: win_disk_def)
  show ?thesis
  proof (cases "m = Mode_append")
    case False
    with open1 assms(2,3) m null have "winio_open (win_disk k) f m w = (Inr h, w')" by (simp add: winio_open_def)
    with disk_open_opens [OF assms(1) d] False \<open>\<not> (files w (filename f) = None \<and> mode_needs_file m)\<close> show ?thesis by auto
  next
    case True
    from disk_open_files [OF d] obtain c where c: "files w' (filename f) = Some c"
      "handles w' h = Some \<lparr>of_name = filename f, of_pos = 0, of_read = mode_reads m, of_write = mode_writes m, of_append = False\<rparr>"
      by blast
    define w2 where "w2 = w'\<lparr>handles := (handles w')(h \<mapsto>
      \<lparr>of_name = filename f, of_pos = length c, of_read = mode_reads m, of_write = mode_writes m, of_append = False\<rparr>)\<rparr>"
    have "win_move_pointer h 0 FILE_END w' = ((True, int (length c), 0), w2)"
      by (simp add: win_move_pointer_def c w2_def Let_def)
    with open1 assms(2,3) m null True have o: "winio_open (win_disk k) f m w = (Inr h, w2)" by (simp add: winio_open_def)
    have "w' = snd (disk_open (filename f) (mode_reads m) (mode_writes m) False (mode_replaces m) w)" "h = next_handle w"
      using d h by simp_all
    with assms(1) c(1) show ?thesis unfolding o unfolding opens_as_def w2_def True
      by (auto simp: disk_open_def disk_ok_def write_pos_def mode_table split: option.splits)
  qed
qed

lemma cstdio_open_mode:
  assumes "disk_ok w" and "\<not> p_empty f" and "filename f \<noteq> ''-''" and "m = Mode_open_always \<longrightarrow> files w (filename f) \<noteq> None"
  shows "opens_as m (filename f) w (cstdio_open libc_disk f m w)"
proof (cases "files w (filename f) = None \<and> mode_needs_file m")
  case True
  then show ?thesis using assms(2-)
    by (cases m) (simp_all add: cstdio_open_def cstdio_open_str_def libc_disk_def libc_fopen_mode io_error_def ENOENT_def
        opens_as_missing [unfolded ENOENT_def] mode_table)
next
  case False
  obtain h w' where d: "disk_open (filename f) (mode_reads m) (mode_writes m) (m = Mode_append) (mode_replaces m) w = (h, w')"
    by fastforce
  note h = disk_open_handle [OF d assms(1)]
  have "cstdio_open libc_disk f m w = (Inr h, w')"
  proof (cases "m = Mode_open_always")
    case True
    with d have "libc_fopen (filename f) ''rb+'' w = ((h, 0), w')"
      using assms(4) by (subst libc_fopen_update(1)) (auto simp: mode_table)
    then show ?thesis using True assms(2,3) h by (simp add: cstdio_open_def cstdio_open_str_def libc_disk_def)
  next
    case nb: False
    have "libc_fopen (filename f) (stdio_mode m) w = ((h, 0), w')"
      unfolding libc_fopen_mode [OF nb] if_not_P [OF False] d by simp
    then show ?thesis using nb assms(2,3) by (simp add: cstdio_open_def cstdio_open_str_def libc_disk_def)
  qed
  with disk_open_opens [OF assms(1) d] False show ?thesis by auto
qed

text \<open>
  C39. The constructors of \<open>Fdio\<close> and \<open>Winio\<close> do what the documentation says of each \<open>IoMode\<close>: which files they make,
  empty or refuse, what the file may be used for, and where writing starts. \<open>Cstdio\<close> does so too but for
  \<open>open_always\<close> with a file that does not exist, which it refuses.
\<close>

theorem file_modes_agree:
  assumes "disk_ok w" and "\<not> p_empty f" and "filename f \<noteq> ''-''"
  shows "opens_as m (filename f) w (fdio_open (posix_disk k) f m w)
    \<and> opens_as m (filename f) w (winio_open (win_disk k) f m w)
    \<and> (if m = Mode_open_always \<and> files w (filename f) = None
       then cstdio_open libc_disk f m w = (Inl (System_error ENOENT), w)
       else opens_as m (filename f) w (cstdio_open libc_disk f m w))"
proof -
  have "cstdio_open libc_disk f m w = (Inl (System_error ENOENT), w)" if "m = Mode_open_always" "files w (filename f) = None"
    using that assms(2,3) by (simp add: cstdio_open_def cstdio_open_str_def libc_disk_def libc_fopen_update io_error_def ENOENT_def)
  then show ?thesis using fdio_open_mode [OF assms] winio_open_mode [OF assms] cstdio_open_mode [OF assms] by auto
qed

definition sample_disk :: disk where
  "sample_disk = \<lparr>files = [''log'' \<mapsto> ''abc''], handles = (\<lambda>h. None), next_handle = 3\<rparr>"

theorem file_modes_agree_witness:
  "disk_ok sample_disk \<and> opens_as Mode_append ''log'' sample_disk (winio_open (win_disk 1) \<lparr>filename = ''log''\<rparr> Mode_append sample_disk)
    \<and> cstdio_open libc_disk \<lparr>filename = ''new''\<rparr> Mode_open_always sample_disk = (Inl (System_error ENOENT), sample_disk)"
proof -
  have "disk_ok sample_disk" by (simp add: disk_ok_def sample_disk_def)
  with file_modes_agree [of sample_disk "\<lparr>filename = ''log''\<rparr>" Mode_append 1]
    file_modes_agree [of sample_disk "\<lparr>filename = ''new''\<rparr>" Mode_open_always 1]
  show ?thesis by (simp add: p_empty_def sample_disk_def)
qed

end
