(* ===== verification/File_Io.thy ===== *)
theory File_Io
  imports File_Modes
begin

text \<open>
  \<open>Fdio\<close> and \<open>Winio\<close> under the loops of \<open>IoBase\<close>: their \<open>read\<close> and \<open>write\<close> as devices, what is written to a file
  and read again, and the lengths that \<open>Winio\<close> cannot transfer.
\<close>

section \<open>Fdio as a device\<close>

definition readable :: "int \<Rightarrow> disk \<Rightarrow> bool" where
  "readable fd w \<longleftrightarrow> (\<exists>f c. handles w fd = Some f \<and> files w (of_name f) = Some c \<and> of_read f)"

definition ahead :: "int \<Rightarrow> disk \<Rightarrow> string" where
  "ahead fd w = (case handles w fd of None \<Rightarrow> [] | Some f \<Rightarrow> drop (of_pos f) (the (files w (of_name f))))"

text \<open>The file \<open>nm\<close> is open for writing at its end.\<close>

definition extendable :: "string \<Rightarrow> int \<Rightarrow> disk \<Rightarrow> bool" where
  "extendable nm fd w \<longleftrightarrow> disk_ok w \<and> (\<exists>f c. handles w fd = Some f \<and> of_name f = nm \<and> files w nm = Some c \<and> of_write f
     \<and> write_pos w f = length c)"

definition text_of :: "string \<Rightarrow> disk \<Rightarrow> string" where
  "text_of nm w = the (files w nm)"

lemma readableE:
  assumes "readable fd w"
  obtains f c where "handles w fd = Some f" and "files w (of_name f) = Some c" and "of_read f"
  using assms unfolding readable_def by blast

lemma take_drop_length: "xs = take n xs @ drop (length (take n xs)) xs"
  by (cases "n \<le> length xs") simp_all

interpretation fdio_in: reader "fdio_read (posix_disk (Suc k)) fd" "ahead fd" "readable fd" for k fd
proof unfold_locales
  fix w n
  assume "readable fd w"
  then obtain f c where f: "handles w fd = Some f" "files w (of_name f) = Some c" "of_read f" by (rule readableE)
  define d where "d = take (min n (Suc k)) (drop (of_pos f) c)"
  define w' where "w' = w\<lparr>handles := (handles w)(fd \<mapsto> f\<lparr>of_pos := of_pos f + length d\<rparr>)\<rparr>"
  have "fdio_read (posix_disk (Suc k)) fd n w = (Inr d, w')"
    using f by (simp add: fdio_read_def posix_disk_def disk_read_def Let_def d_def w'_def check_for_error_def)
  moreover have "readable fd w'" using f by (simp add: readable_def w'_def)
  moreover have "drop (of_pos f) c = d @ drop (of_pos f + length d) c"
    using take_drop_length [of "drop (of_pos f) c" "min n (Suc k)", folded d_def] by (simp add: add.commute)
  then have "ahead fd w = d @ ahead fd w'" using f by (simp add: ahead_def w'_def)
  moreover have "length d \<le> n" by (simp add: d_def)
  moreover have "n = 0 \<or> ahead fd w = []" if "d = []" using that f by (auto simp: d_def ahead_def)
  ultimately show "\<exists>d w'. fdio_read (posix_disk (Suc k)) fd n w = (Inr d, w') \<and> readable fd w' \<and> ahead fd w = d @ ahead fd w'
      \<and> length d \<le> n \<and> (d = [] \<longrightarrow> n = 0 \<or> ahead fd w = [])" by blast
qed

interpretation fdio_out: writer "fdio_write (posix_disk (Suc k)) fd" "text_of nm" "extendable nm fd" for k nm fd
proof unfold_locales
  fix w and d :: string
  assume "extendable nm fd w"
  then obtain f c where f: "disk_ok w" "handles w fd = Some f" "of_name f = nm" "files w nm = Some c" "of_write f" "write_pos w f = length c"
    unfolding extendable_def by blast
  then have p: "(if of_append f then length c else of_pos f) = length c" by (auto simp: write_pos_def)
  define x where "x = take (Suc k) d"
  define w' where "w' = w\<lparr>files := (files w)(nm \<mapsto> c @ x), handles := (handles w)(fd \<mapsto> f\<lparr>of_pos := length c + length x\<rparr>)\<rparr>"
  have "fdio_write (posix_disk (Suc k)) fd d w = (Inr (length x), w')"
    using f(2-5) unfolding fdio_write_def posix_disk_def disk_write_def fd_system.select_convs
    by (simp add: p Let_def x_def w'_def check_for_error_def)
  moreover have "fd < next_handle w" using f(1,2) unfolding disk_ok_def by (metis not_le option.distinct(1))
  then have "extendable nm fd w'" using f by (auto simp: extendable_def w'_def write_pos_def disk_ok_def)
  moreover have "text_of nm w' = text_of nm w @ take (length x) d" using f by (simp add: text_of_def w'_def x_def min_def)
  moreover have "length x \<le> length d" "d \<noteq> [] \<longrightarrow> 0 < length x" by (simp_all add: x_def)
  ultimately show "\<exists>n w'. fdio_write (posix_disk (Suc k)) fd d w = (Inr n, w') \<and> extendable nm fd w' \<and> n \<le> length d
      \<and> text_of nm w' = text_of nm w @ take n d \<and> (d \<noteq> [] \<longrightarrow> 0 < n)" by blast
qed

section \<open>Opened files\<close>

lemma opened_extendable:
  assumes "disk_ok w" and "opens_as m nm w (Inr fd, w1)" and "next_handle w \<le> next_handle w1" and "fd < next_handle w1"
    and "m = Mode_append \<or> mode_writes m \<and> mode_replaces m"
  shows "extendable nm fd w1" and "text_of nm w1 = (if m = Mode_append then case files w nm of None \<Rightarrow> [] | Some c \<Rightarrow> c else [])"
  using assms unfolding opens_as_def extendable_def disk_ok_def text_of_def
  by (auto simp: write_pos_def mode_table split: option.splits io_mode.splits)

lemma opened_readable:
  assumes "opens_as m nm w (Inr fd, w1)" and "mode_reads m" and "\<not> mode_replaces m" and "m \<noteq> Mode_append" and "files w nm = Some c"
    and "\<forall>f. handles w1 fd = Some f \<longrightarrow> of_pos f = 0"
  shows "readable fd w1" and "ahead fd w1 = c"
  using assms unfolding opens_as_def readable_def ahead_def by auto

lemma fdio_open_fresh:
  "\<not> p_empty f \<Longrightarrow> filename f \<noteq> ''-'' \<Longrightarrow> fdio_open (posix_disk k) f m w = (Inr fd, w1) \<Longrightarrow>
     next_handle w1 = next_handle w + 1 \<and> fd = next_handle w \<and> (\<exists>f. handles w1 fd = Some f \<and> of_pos f = 0)"
  unfolding fdio_open_def fdio_open_flags_def posix_disk_def fd_system.select_convs posix_open_mode
  by (auto simp: disk_open_def ENOENT_def split: if_splits)

lemma fdio_opens:
  assumes "disk_ok w" and "\<not> p_empty f" and "filename f \<noteq> ''-''" and "\<not> mode_needs_file m \<or> files w (filename f) \<noteq> None"
  shows "\<exists>w1. fdio_open (posix_disk k) f m w = (Inr (next_handle w), w1) \<and> opens_as m (filename f) w (Inr (next_handle w), w1)"
proof -
  obtain r w1 where o: "fdio_open (posix_disk k) f m w = (r, w1)" by fastforce
  have oa: "opens_as m (filename f) w (r, w1)" using fdio_open_mode [OF assms(1-3), of m k] o by simp
  with assms(4) obtain fd where "r = Inr fd" by (cases r) (auto simp: opens_as_def)
  then show ?thesis using oa o fdio_open_fresh [OF assms(2,3), of k m w] by auto
qed

text \<open>
  C40. What is written to a file with \<open>Fdio\<close>, however the system splits the transfers, is what \<open>read_all\<close> gives when the
  file is opened again: the text alone if it was opened with \<open>write\<close> or \<open>create_always\<close>, the text after the old
  contents if it was opened with \<open>append\<close>.
\<close>

theorem fdio_write_read:
  assumes "disk_ok w" and "\<not> p_empty f" and "filename f \<noteq> ''-''" and "m \<in> {Mode_write, Mode_create_always, Mode_append}"
  shows "\<exists>fd w1 w2 w3 fd' w4 w5. fdio_open (posix_disk (Suc k)) f m w = (Inr fd, w1)
    \<and> base_writes (fdio_write (posix_disk (Suc k)) fd) text w1 = Some (Inr (length text), w2)
    \<and> fdio_close (posix_disk (Suc k)) \<lparr>res_value = fd\<rparr> w2 = (Inr (), \<lparr>res_value = -1\<rparr>, w3)
    \<and> fdio_open (posix_disk (Suc k)) f Mode_read w3 = (Inr fd', w4)
    \<and> base_read_all (fdio_read (posix_disk (Suc k)) fd') w4
        = Some (Inr ((if m = Mode_append then case files w (filename f) of None \<Rightarrow> [] | Some c \<Rightarrow> c else []) @ text), w5)"
proof -
  let ?P = "posix_disk (Suc k)" and ?nm = "filename f"
  let ?old = "if m = Mode_append then case files w ?nm of None \<Rightarrow> [] | Some c \<Rightarrow> c else []"
  have m: "\<not> mode_needs_file m" "m = Mode_append \<or> mode_writes m \<and> mode_replaces m" using assms(4) by (auto simp: mode_table)
  define fd where "fd = next_handle w"
  obtain w1 where o: "fdio_open ?P f m w = (Inr fd, w1)" and oa: "opens_as m ?nm w (Inr fd, w1)"
    using fdio_opens [OF assms(1-3)] m(1) unfolding fd_def by blast
  have next1: "next_handle w1 = next_handle w + 1" using fdio_open_fresh [OF assms(2,3) o] by simp
  have ext: "extendable ?nm fd w1" and old: "text_of ?nm w1 = ?old"
    using opened_extendable [OF assms(1) oa _ _ m(2)] next1 by (simp_all add: fd_def)
  obtain w2 where w2: "base_writes (fdio_write ?P fd) text w1 = Some (Inr (length text), w2)" "extendable ?nm fd w2" "text_of ?nm w2 = ?old @ text"
    using fdio_out.writes_loop_ready [OF ext, of 0 "text"] old by (auto simp: base_writes_def)
  define w3 where "w3 = w2\<lparr>handles := (handles w2)(fd := None)\<rparr>"
  have "2 < fd" using assms(1) by (simp add: fd_def disk_ok_def)
  then have w3: "fdio_close ?P \<lparr>res_value = fd\<rparr> w2 = (Inr (), \<lparr>res_value = -1\<rparr>, w3)"
    using w2(2) by (auto simp: fdio_close_def res_reset_def fdio_deleter_def posix_disk_def disk_close_def extendable_def
        check_for_error_def w3_def)
  have ok3: "disk_ok w3" and c3: "files w3 ?nm = Some (?old @ text)"
    using w2(2,3) by (auto simp: extendable_def disk_ok_def text_of_def w3_def)
  then obtain w4 where o4: "fdio_open ?P f Mode_read w3 = (Inr (next_handle w3), w4)"
    and oa4: "opens_as Mode_read ?nm w3 (Inr (next_handle w3), w4)" using fdio_opens [OF ok3 assms(2,3), of Mode_read] by auto
  have rd: "readable (next_handle w3) w4" "ahead (next_handle w3) w4 = ?old @ text"
    using opened_readable [OF oa4 _ _ _ c3] fdio_open_fresh [OF assms(2,3) o4] by (auto simp: mode_table)
  from fdio_in.read_all_ready [OF rd(1), of _ "[]"] obtain w5 where
    "base_read_all (fdio_read ?P (next_handle w3)) w4 = Some (Inr (?old @ text), w5)"
    unfolding base_read_all_def rd(2) append_Nil by blast
  with o w2(1) w3 o4 show ?thesis by blast
qed

theorem fdio_write_read_witness:
  "\<exists>fd w1 w2 w3 fd' w4 w5. fdio_open (posix_disk 2) \<lparr>filename = ''log''\<rparr> Mode_append sample_disk = (Inr fd, w1)
    \<and> base_writes (fdio_write (posix_disk 2) fd) ''defgh'' w1 = Some (Inr 5, w2)
    \<and> fdio_close (posix_disk 2) \<lparr>res_value = fd\<rparr> w2 = (Inr (), \<lparr>res_value = -1\<rparr>, w3)
    \<and> fdio_open (posix_disk 2) \<lparr>filename = ''log''\<rparr> Mode_read w3 = (Inr fd', w4)
    \<and> base_read_all (fdio_read (posix_disk 2) fd') w4 = Some (Inr ''abcdefgh'', w5)"
proof -
  have "disk_ok sample_disk" by (simp add: disk_ok_def sample_disk_def)
  from fdio_write_read [OF this, of "\<lparr>filename = ''log''\<rparr>" Mode_append 1 "''defgh''"] show ?thesis
    by (simp add: p_empty_def sample_disk_def numeral_2_eq_2 eval_nat_numeral)
qed

section \<open>Lengths in Winio\<close>

text \<open>
  \<open>Winio\<close> passes lengths as 32-bit numbers. Below 4 GiB it reads and writes as \<open>Fdio\<close> does on the same disk; a length
  that is a multiple of 4 GiB asks for nothing, so \<open>read\<close> gives an end of file and the loop of \<open>writes\<close> never ends.
\<close>

lemma winio_read_short: "n < 2 ^ 32 \<Longrightarrow> winio_read (win_disk k) h n w = fdio_read (posix_disk k) h n w"
  by (simp add: winio_read_def fdio_read_def win_disk_def posix_disk_def unat_of_nat take_bit_nat_eq_self)

lemma winio_write_short: "length d < 2 ^ 32 \<Longrightarrow> winio_write (win_disk k) h d w = fdio_write (posix_disk k) h d w"
  by (simp add: winio_write_def fdio_write_def win_disk_def posix_disk_def unat_of_nat take_bit_nat_eq_self)

lemma read_all_loop_cong:
  assumes "rd block_size = rd' block_size"
  shows "read_all_loop rd buf w = read_all_loop rd' buf w"
proof -
  have half: "read_all_loop g buf w = Some r" if "read_all_loop f buf w = Some r" and "f block_size = g block_size" for f g r
    by (rule read_all_loop.raw_induct [OF _ that(1), where P = "\<lambda>f buf w r. f block_size = g block_size \<longrightarrow> read_all_loop g buf w = Some r", rule_format, OF _ that(2)])
      (subst read_all_loop.simps, auto simp: read_some_def split: sum.splits prod.splits if_splits)
  show ?thesis using half [of rd _ rd'] half [of rd' _ rd] assms by (metis not_None_eq)
qed

lemma winio_read_all: "base_read_all (winio_read (win_disk k) h) w = base_read_all (fdio_read (posix_disk k) h) w"
  unfolding base_read_all_def by (rule read_all_loop_cong) (simp add: fun_eq_iff winio_read_short block_size_def)

lemma winio_read_4GiB: "wf_read os h 0 w = (([], 0), w) \<Longrightarrow> winio_read os h (2 ^ 32) w = (Inr [], w)"
proof -
  have "(of_nat (2 ^ 32) :: 32 word) = 0" by simp
  then show "wf_read os h 0 w = (([], 0), w) \<Longrightarrow> ?thesis" by (simp only: winio_read_def) (simp add: check_for_error_def)
qed

lemma writes_loop_stuck:
  assumes "wr str w = (Inr 0, w)" and "str \<noteq> []"
  shows "writes_loop wr str 0 w = None"
proof -
  have "False" if "writes_loop wr str 0 w = Some r" for r
  proof -
    have "wr = wr \<and> str = str \<and> (0 :: nat) = 0 \<and> w = w \<longrightarrow> False"
    proof (rule writes_loop.raw_induct [OF _ that, where P = "\<lambda>f s n u r. f = wr \<and> s = str \<and> n = 0 \<and> u = w \<longrightarrow> False"])
      show "f = wr \<and> s = str \<and> n = 0 \<and> u = w \<longrightarrow> False"
        if ih: "\<And>f s n u r. loop f s n u = Some r \<Longrightarrow> f = wr \<and> s = str \<and> n = 0 \<and> u = w \<longrightarrow> False"
          and body: "(case f (drop n s) u of (Inl e, s') \<Rightarrow> Some (Inl e, s')
              | (Inr k, s') \<Rightarrow> if n + k < length s then loop f s (n + k) s' else Some (Inr (n + k), s')) = Some r"
        for loop f s n u r
        using ih [of wr str 0 w r] body assms by (auto split: if_splits)
    qed
    then show False by simp
  qed
  then show ?thesis by (cases "writes_loop wr str 0 w") auto
qed

lemma winio_writes_4GiB:
  assumes "length d = 2 ^ 32" and "wf_write os h d 0 w = ((0, 0), w)"
  shows "base_writes (winio_write os h) d w = None"
proof -
  have "d \<noteq> []" using assms(1) by auto
  moreover have "(of_nat (length d) :: 32 word) = 0" unfolding assms(1) by simp
  then have "winio_write os h d w = (Inr 0, w)" using assms(2) by (simp add: winio_write_def check_for_error_def)
  ultimately show ?thesis by (simp add: base_writes_def writes_loop_stuck)
qed

end
