(* ===== verification/Mem_Fs.thy ===== *)
theory Mem_Fs
  imports Path_Tree Path_Ops "HOL-Library.Sublist"
begin

text \<open>
  A small file system with the calls that class \<open>Path\<close> makes, after their documentation: directories, files and
  symbolic links in a finite table, with inode numbers from a finite supply. A name is resolved by its elements from the
  root, which is also the working directory; a link is followed where it is the last element. The theorems on the
  functions that change the file system are about this one.
\<close>

section \<open>The table\<close>

datatype node = Node_dir | Node_file string | Node_link string

type_synonym entry = "string list \<times> node \<times> 64 word"

record mem_fs =
  entries :: "entry list"
  spare :: "64 word list"

definition ENOTEMPTY :: int where "ENOTEMPTY = 39"
definition ENOSPC :: int where "ENOSPC = 28"
definition EBUSY :: int where "EBUSY = 16"

definition root_ino :: "64 word" where "root_ino = 1"

text \<open>The elements of a name.\<close>

definition key :: "string \<Rightarrow> string list" where
  "key f = filter proper (split_slash f)"

definition node_at :: "mem_fs \<Rightarrow> string list \<Rightarrow> node option" where
  "node_at w k = (if k = [] then Some Node_dir else map_option fst (map_of (entries w) k))"

definition ino_at :: "mem_fs \<Rightarrow> string list \<Rightarrow> 64 word" where
  "ino_at w k = (if k = [] then root_ino else case map_of (entries w) k of None \<Rightarrow> 0 | Some (n, i) \<Rightarrow> i)"

definition children :: "mem_fs \<Rightarrow> string list \<Rightarrow> string list" where
  "children w d = map last (filter (\<lambda>k. k \<noteq> [] \<and> butlast k = d) (map fst (entries w)))"

definition resolve_key :: "mem_fs \<Rightarrow> string list \<Rightarrow> string list" where
  "resolve_key w k = (case node_at w k of Some (Node_link t) \<Rightarrow> key t | _ \<Rightarrow> k)"

definition add_node :: "string list \<Rightarrow> node \<Rightarrow> mem_fs \<Rightarrow> int \<times> mem_fs" where
  "add_node k n w = (case spare w of
      [] \<Rightarrow> (ENOSPC, w)
    | i # is \<Rightarrow> (0, w\<lparr>entries := entries w @ [(k, n, i)], spare := is\<rparr>))"

definition put_file :: "string list \<Rightarrow> string \<Rightarrow> mem_fs \<Rightarrow> mem_fs" where
  "put_file k c w = w\<lparr>entries := map (\<lambda>(j, n, i). if j = k then (j, Node_file c, i) else (j, n, i)) (entries w)\<rparr>"

text \<open>Taking out every entry at or below \<open>k\<close>.\<close>

definition prune :: "string list \<Rightarrow> mem_fs \<Rightarrow> mem_fs" where
  "prune k w = w\<lparr>entries := filter (\<lambda>e. \<not> prefix k (fst e)) (entries w),
     spare := spare w @ map (\<lambda>(j, n, i). i) (filter (\<lambda>e. prefix k (fst e)) (entries w))\<rparr>"

section \<open>The calls\<close>

definition node_kind :: "node \<Rightarrow> file_kind" where
  "node_kind n = (case n of Node_dir \<Rightarrow> Kind_directory | Node_file c \<Rightarrow> Kind_regular | Node_link t \<Rightarrow> Kind_symlink)"

definition node_size :: "node \<Rightarrow> 64 word" where
  "node_size n = (case n of Node_dir \<Rightarrow> 4096 | Node_file c \<Rightarrow> of_nat (length c) | Node_link t \<Rightarrow> of_nat (length t))"

definition mem_stat :: "bool \<Rightarrow> string \<Rightarrow> mem_fs \<Rightarrow> stat_buf option" where
  "mem_stat follow f w =
     (let k = (if follow then resolve_key w (key f) else key f)
      in if f = [] then None
         else map_option (\<lambda>n. zero_stat\<lparr>st_kind := node_kind n, st_size := node_size n, st_dev := 1, st_ino := ino_at w k\<rparr>)
                (node_at w k))"

definition mem_listdir :: "string \<Rightarrow> mem_fs \<Rightarrow> string list option" where
  "mem_listdir f w =
     (let k = resolve_key w (key f)
      in if f \<noteq> [] \<and> node_at w k = Some Node_dir then Some ([''.'', ''..''] @ children w k) else None)"

definition mem_create :: "node \<Rightarrow> string \<Rightarrow> mem_fs \<Rightarrow> int \<times> mem_fs" where
  "mem_create n f w =
     (let k = key f
      in if f = [] then (ENOENT, w)
         else if node_at w k \<noteq> None then (EEXIST, w)
         else (case node_at w (butlast k) of
             None \<Rightarrow> (ENOENT, w)
           | Some d \<Rightarrow> if d = Node_dir then add_node k n w else (ENOTDIR, w)))"

definition mem_remove :: "string \<Rightarrow> mem_fs \<Rightarrow> int \<times> mem_fs" where
  "mem_remove f w =
     (let k = key f
      in if f = [] \<or> node_at w k = None then (ENOENT, w)
         else if k = [] then (EBUSY, w)
         else if node_at w k = Some Node_dir \<and> children w k \<noteq> [] then (ENOTEMPTY, w)
         else (0, prune k w))"

text \<open>\<open>rename\<close> of a name that exists to one that does not.\<close>

definition mem_rename :: "string \<Rightarrow> string \<Rightarrow> mem_fs \<Rightarrow> int \<times> mem_fs" where
  "mem_rename f g w =
     (let a = key f; b = key g
      in if f = [] \<or> g = [] \<or> node_at w a = None then (ENOENT, w)
         else if a = [] then (EBUSY, w)
         else if prefix a b then (if a = b then (0, w) else (EINVAL, w))
         else if node_at w b = Some Node_dir \<and> children w b \<noteq> [] then (ENOTEMPTY, w)
         else if node_at w (butlast b) \<noteq> Some Node_dir then (ENOENT, w)
         else let w1 = (if node_at w b = None then w else prune b w)
              in (0, w1\<lparr>entries := map (\<lambda>(k, n, i). (if prefix a k then b @ drop (length a) k else k, n, i)) (entries w1)\<rparr>))"

definition open_stream :: "string \<Rightarrow> cfile" where
  "open_stream c = \<lparr>rest = c, sent = [], at_eof = False, hiccups = []\<rparr>"

definition mem_fopen :: "string \<Rightarrow> string \<Rightarrow> mem_fs \<Rightarrow> (cfile option \<times> int) \<times> mem_fs" where
  "mem_fopen f mode w =
     (let k = resolve_key w (key f)
      in if f = [] then ((None, ENOENT), w)
         else case node_at w k of
             Some (Node_file c) \<Rightarrow>
               if mode = ''rb'' then ((Some (open_stream c), 0), w)
               else if mode = ''ab'' then ((Some (open_stream []), 0), w)
               else ((Some (open_stream []), 0), put_file k [] w)
           | Some n \<Rightarrow> ((None, EISDIR), w)
           | None \<Rightarrow>
               if mode = ''rb'' \<or> node_at w (butlast k) \<noteq> Some Node_dir then ((None, ENOENT), w)
               else (case add_node k (Node_file []) w of
                       (e, w') \<Rightarrow> ((if e = 0 then Some (open_stream []) else None, e), w')))"

definition mem_fclose :: "string \<Rightarrow> cfile \<Rightarrow> mem_fs \<Rightarrow> mem_fs" where
  "mem_fclose f s w =
     (let k = resolve_key w (key f)
      in case node_at w k of Some (Node_file c) \<Rightarrow> (if sent s = [] then w else put_file k (c @ sent s) w) | _ \<Rightarrow> w)"

definition mem_readlink :: "string \<Rightarrow> nat \<Rightarrow> mem_fs \<Rightarrow> int + string" where
  "mem_readlink f n w = (if f = [] then Inl ENOENT else case node_at w (key f) of
      None \<Rightarrow> Inl ENOENT | Some (Node_link t) \<Rightarrow> Inr (take n t) | Some _ \<Rightarrow> Inl EINVAL)"

definition mem_os :: "mem_fs posix" where
  "mem_os = \<lparr>sys_stat = mem_stat True, sys_lstat = mem_stat False, sys_getcwd = (\<lambda>n w. Inr ''/''),
     sys_readlink = mem_readlink, sys_getenv = (\<lambda>n w. None), sys_getpw = (\<lambda>u n w. (0, None)), sys_listdir = mem_listdir,
     sys_mkdir = mem_create Node_dir, sys_symlink = (\<lambda>t f. mem_create (Node_link t) f), sys_rename = mem_rename,
     sys_remove = mem_remove, sys_chdir = (\<lambda>f w. (0, w)), sys_utimens = (\<lambda>f t b w. (0, w)), sys_fopen = mem_fopen,
     sys_fclose = mem_fclose, std_in = (\<lambda>w. open_stream []), set_std_in = (\<lambda>c w. w), std_out = (\<lambda>w. open_stream []),
     set_std_out = (\<lambda>c w. w)\<rparr>"

lemma mem_calls [simp]:
  "sys_stat mem_os = mem_stat True" "sys_lstat mem_os = mem_stat False" "sys_readlink mem_os = mem_readlink"
  "sys_listdir mem_os = mem_listdir" "sys_mkdir mem_os = mem_create Node_dir" "sys_remove mem_os = mem_remove"
  "sys_symlink mem_os = (\<lambda>t f. mem_create (Node_link t) f)" "sys_rename mem_os = mem_rename"
  "sys_fopen mem_os = mem_fopen" "sys_fclose mem_os = mem_fclose"
  by (simp_all add: mem_os_def)

section \<open>Well-formed tables\<close>

text \<open>
  The keys are different and made of elements a directory can hold, the directory of every entry is there, and inode
  numbers are not used twice.
\<close>

definition leaf_ok :: "string \<Rightarrow> bool" where
  "leaf_ok e \<longleftrightarrow> nosl e \<and> proper e \<and> e \<noteq> ''..''"

definition inodes :: "mem_fs \<Rightarrow> 64 word list" where
  "inodes w = map (\<lambda>(k, n, i). i) (entries w)"

definition mem_ok :: "mem_fs \<Rightarrow> bool" where
  "mem_ok w \<longleftrightarrow> distinct (map fst (entries w))
     \<and> (\<forall>k \<in> fst ` set (entries w). k \<noteq> [] \<and> (\<forall>e \<in> set k. leaf_ok e) \<and> node_at w (butlast k) = Some Node_dir)
     \<and> distinct (inodes w @ spare w) \<and> 0 \<notin> set (inodes w @ spare w) \<and> root_ino \<notin> set (inodes w @ spare w)"

lemma node_at_Nil [simp]: "node_at w [] = Some Node_dir"
  by (simp add: node_at_def)

lemma node_at_key: "k \<noteq> [] \<Longrightarrow> node_at w k \<noteq> None \<longleftrightarrow> k \<in> fst ` set (entries w)"
  by (simp add: node_at_def map_of_eq_None_iff)

lemma mem_okD:
  assumes "mem_ok w" and "node_at w k \<noteq> None" and "k \<noteq> []"
  shows "node_at w (butlast k) = Some Node_dir" and "\<forall>e \<in> set k. leaf_ok e"
  using assms node_at_key [of k w] unfolding mem_ok_def by blast+

lemma leaf_ok_good: "\<forall>e \<in> set k. leaf_ok e \<Longrightarrow> good True k"
  by (auto simp: good_def leaf_ok_def proper_def)

text \<open>An entry below a name makes the name a directory.\<close>

lemma mem_ok_prefix:
  assumes "mem_ok w"
  shows "node_at w (k @ j) \<noteq> None \<Longrightarrow> j \<noteq> [] \<Longrightarrow> node_at w k = Some Node_dir"
proof (induction j rule: rev_induct)
  case (snoc x j)
  have "node_at w (k @ j) = Some Node_dir" using mem_okD(1) [OF assms snoc.prems(1)] by (simp add: butlast_append)
  then show ?case using snoc.IH by (cases "j = []") auto
qed simp

lemma node_at_children: "x \<in> set (children w d) \<longleftrightarrow> d @ [x] \<in> fst ` set (entries w)"
proof
  assume "x \<in> set (children w d)"
  then obtain k where k: "k \<in> fst ` set (entries w)" "k \<noteq> []" "butlast k = d" "x = last k"
    by (auto simp: children_def)
  then have "k = d @ [x]" using append_butlast_last_id by metis
  then show "d @ [x] \<in> fst ` set (entries w)" using k(1) by simp
next
  assume "d @ [x] \<in> fst ` set (entries w)"
  then have "d @ [x] \<in> set (filter (\<lambda>k. k \<noteq> [] \<and> butlast k = d) (map fst (entries w)))" by simp
  then have "last (d @ [x]) \<in> set (children w d)" unfolding children_def set_map by (rule imageI)
  then show "x \<in> set (children w d)" by simp
qed

lemma children_ok:
  assumes "mem_ok w"
  shows "distinct (children w d)" and "x \<in> set (children w d) \<Longrightarrow> leaf_ok x \<and> node_at w (d @ [x]) \<noteq> None"
proof -
  have "distinct (map fst (entries w))" using assms by (simp add: mem_ok_def)
  moreover have "inj_on last {k. k \<noteq> [] \<and> butlast k = d}"
  proof (rule inj_onI)
    fix j k assume "j \<in> {k. k \<noteq> [] \<and> butlast k = d}" "k \<in> {k. k \<noteq> [] \<and> butlast k = d}" "last j = last k"
    then show "j = k" using append_butlast_last_id [of j] append_butlast_last_id [of k] by simp
  qed
  then have "inj_on last (set (filter (\<lambda>k. k \<noteq> [] \<and> butlast k = d) (map fst (entries w))))"
    by (rule inj_on_subset) auto
  ultimately show "distinct (children w d)" unfolding children_def distinct_map by (simp add: distinct_map)
  assume "x \<in> set (children w d)"
  then have "d @ [x] \<in> fst ` set (entries w)" using node_at_children by blast
  then show "leaf_ok x \<and> node_at w (d @ [x]) \<noteq> None"
    using assms node_at_key [of "d @ [x]" w] unfolding mem_ok_def by (metis append_is_Nil_conv in_set_conv_decomp list.distinct(1))
qed

section \<open>Path names on this file system\<close>

lemma key_name_of: "good True es \<Longrightarrow> key (name_of True es) = es"
proof -
  assume g: "good True es"
  have p: "filter proper es = es" by (rule filter_proper_id) (use g in \<open>auto simp: good_def\<close>)
  show "key (name_of True es) = es"
  proof (cases "es = []")
    case False
    then have "split_slash (join_slash es) = es" using g by (intro split_join_slash) (simp_all add: good_def)
    then show ?thesis using p by (simp add: key_def name_of_def proper_def)
  qed (simp add: key_def name_of_def join_slash_def proper_def)
qed

lemma name_of_not_Nil: "name_of True es \<noteq> []"
  by (simp add: name_of_def)

lemma is_directory_mem:
  "good True es \<Longrightarrow> is_directory mem_os {} (path_of True es) w \<longleftrightarrow> node_at w (resolve_key w es) = Some Node_dir"
  by (auto simp: is_directory_def get_stat_def mem_stat_def key_name_of name_of_not_Nil node_kind_def zero_stat_def Let_def
      split: option.split node.splits)

lemma is_symlink_mem:
  "good True es \<Longrightarrow> is_symlink mem_os (path_of True es) w \<longleftrightarrow> (\<exists>t. node_at w es = Some (Node_link t))"
  by (auto simp: is_symlink_def get_stat_def mem_stat_def key_name_of name_of_not_Nil node_kind_def zero_stat_def Let_def
      split: option.split node.splits)

lemma p_exists_mem:
  "good True es \<Longrightarrow> p_exists mem_os {} (path_of True es) w \<longleftrightarrow> node_at w (resolve_key w es) \<noteq> None"
  by (simp add: p_exists_def mem_stat_def key_name_of name_of_not_Nil Let_def)

lemma dir_advance_plain:
  "dir_paths u (dir_advance u p {} names) = map (\<lambda>x. join p (mk_path x)) (filter (\<lambda>x. x \<noteq> ''.'' \<and> x \<noteq> ''..'') names)"
  by (induction names) (auto simp: Let_def dir_incr_def)

lemma join_leaf:
  assumes "good True es" and "leaf_ok x"
  shows "join (path_of True es) (mk_path x) = path_of True (es @ [x])" and "good True (es @ [x])"
  using join_elems [OF assms(1), of "[x]"] assms(2) by (simp_all add: leaf_ok_def)

lemma directory_mem:
  assumes "good True es" and "mem_ok w" and "node_at w es = Some Node_dir"
  shows "dir_paths u (directory mem_os u (path_of True es) {} w) = map (\<lambda>x. path_of True (es @ [x])) (children w es)"
proof -
  have r: "resolve_key w es = es" by (simp add: resolve_key_def assms(3))
  have l: "mem_listdir (name_of True es) w = Some ([''.'', ''..''] @ children w es)"
    by (simp add: mem_listdir_def key_name_of [OF assms(1)] r assms(3) name_of_not_Nil)
  have ok: "\<forall>x \<in> set (children w es). leaf_ok x" using children_ok(2) [OF assms(2)] by blast
  then have f: "filter (\<lambda>x. x \<noteq> ''.'' \<and> x \<noteq> ''..'') (children w es) = children w es"
    by (intro filter_True) (auto simp: leaf_ok_def proper_def)
  have "dir_paths u (directory mem_os u (path_of True es) {} w)
      = map (\<lambda>x. join (path_of True es) (mk_path x)) (children w es)"
    using assms(1) l f by (simp add: directory_def dir_begin_def dir_advance_plain)
  also have "\<dots> = map (\<lambda>x. path_of True (es @ [x])) (children w es)"
    using join_leaf(1) [OF assms(1)] ok by simp
  finally show ?thesis .
qed

end
