(* ===== verification/Path_Update.thy ===== *)
theory Path_Update
  imports Mem_Fs "HOL-Library.Multiset"
begin

text \<open>
  \<open>remove\<close> and \<open>make_directory\<close> with the flag \<open>recurse\<close> on the file system of \<open>Mem_Fs\<close>: what is gone or made
  afterwards, and that nothing else changes.
\<close>

section \<open>Taking out and adding entries\<close>





definition added :: "string list \<Rightarrow> node \<Rightarrow> mem_fs \<Rightarrow> mem_fs \<Rightarrow> bool" where
  "added k n w w' \<longleftrightarrow> mem_ok w' \<and> (\<forall>j. node_at w' j = (if j = k then Some n else node_at w j))
     \<and> Suc (length (spare w')) = length (spare w)"

lemma add_node_added:
  assumes "mem_ok w" and "k \<noteq> []" and "\<forall>e \<in> set k. leaf_ok e" and "node_at w k = None"
    and "node_at w (butlast k) = Some Node_dir" and "spare w \<noteq> []"
  shows "\<exists>w'. add_node k n w = (0, w') \<and> added k n w w'"
proof -
  obtain i rest where s: "spare w = i # rest" using assms(6) by (cases "spare w") auto
  define w' where "w' = w\<lparr>entries := entries w @ [(k, n, i)], spare := rest\<rparr>"
  have fresh: "k \<notin> fst ` set (entries w)" using node_at_key [OF assms(2), of w] assms(4) by blast
  then have mo: "map_of (entries w) k = None" by (simp add: map_of_eq_None_iff)
  have at: "node_at w' j = (if j = k then Some n else node_at w j)" for j
    using assms(2) mo by (auto simp: node_at_def w'_def map_add_def split: option.split)
  have perm: "mset (inodes w' @ spare w') = mset (inodes w @ spare w)" by (simp add: inodes_def w'_def s)
  then have "set (inodes w' @ spare w') = set (inodes w @ spare w)" by (metis set_mset_mset)
  moreover have "distinct (inodes w' @ spare w')"
    using assms(1) mset_eq_imp_distinct_iff [OF perm] unfolding mem_ok_def by blast
  moreover have "distinct (map fst (entries w'))" using assms(1) fresh by (simp add: mem_ok_def w'_def)
  moreover have "j \<noteq> [] \<and> (\<forall>e \<in> set j. leaf_ok e) \<and> node_at w' (butlast j) = Some Node_dir"
    if "j \<in> fst ` set (entries w')" for j
  proof -
    have "j = k \<or> j \<in> fst ` set (entries w)" using that by (auto simp: w'_def)
    then have "j \<noteq> [] \<and> (\<forall>e \<in> set j. leaf_ok e) \<and> node_at w (butlast j) = Some Node_dir"
      using assms(1-3,5) unfolding mem_ok_def by blast
    then show ?thesis using at assms(4) by auto
  qed
  ultimately have "mem_ok w'" using assms(1) unfolding mem_ok_def by simp
  then show ?thesis using at s by (auto simp: add_node_def added_def w'_def)
qed

section \<open>remove\<close>









section \<open>make\_directory\<close>

lemma mem_create_added:
  assumes "mem_ok w" and "\<forall>e \<in> set k. leaf_ok e" and "node_at w k = None" and "node_at w (butlast k) = Some Node_dir" and "spare w \<noteq> []"
  shows "\<exists>w'. mem_create n (name_of True k) w = (0, w') \<and> added k n w w'"
proof -
  have "k \<noteq> []" using assms(3) by auto
  then show ?thesis using add_node_added [OF assms(1) _ assms(2-5), of n] assms(3,4)
    by (simp add: mem_create_def key_name_of leaf_ok_good [OF assms(2)] name_of_not_Nil)
qed

lemma then_do_Inr [simp]: "then_do (Some (Inr (), w)) f = f w"
  by (simp add: then_do_def)

lemma prefix_up: "prefix k es \<longleftrightarrow> k = es \<or> prefix k (butlast es)"
  by (metis append_Nil2 append_butlast_last_id prefixI prefix_order.antisym prefix_order.refl prefix_order.trans prefix_snoc prefixeq_butlast butlast.simps(1))

text \<open>The name of the directory above is another one.\<close>

lemma parent_path_of:
  assumes "\<forall>e \<in> set es. leaf_ok e" and "es \<noteq> []"
  shows "fst (split_path (path_of True es)) = path_of True (butlast es)"
    and "\<not> path_eq (path_of True (butlast es)) (path_of True es)" and "\<not> prefix es (butlast es)"
proof -
  have len: "length (butlast es) < length es" using assms(2) by simp
  have g: "good True es" by (rule leaf_ok_good [OF assms(1)])
  show "fst (split_path (path_of True es)) = path_of True (butlast es)" by (simp add: split_path_path_of [OF g] assms(2))
  have "good True (butlast es)" using assms(1) by (intro leaf_ok_good) (auto dest: in_set_butlastD)
  moreover have "butlast es \<noteq> es" using len by (metis nat_neq_iff)
  ultimately show "\<not> path_eq (path_of True (butlast es)) (path_of True es)"
    using path_of_inj [of True "butlast es" True es] g by (auto simp: path_eq_def path_of_def)
  show "\<not> prefix es (butlast es)" using len prefix_length_le leD by blast
qed

lemma mem_ok_above:
  assumes "mem_ok w" and "node_at w es = Some Node_dir" and "prefix k es"
  shows "node_at w k = Some Node_dir"
proof -
  obtain j where "es = k @ j" using assms(3) by (auto elim: prefixE)
  then show ?thesis using mem_ok_prefix [OF assms(1), of k j] assms(2) by (cases "j = []") auto
qed

lemma make_directory_mem:
  assumes "mem_ok w" and "\<forall>e \<in> set es. leaf_ok e" and "length es < depth" and "length es \<le> length (spare w)"
    and "\<forall>k. prefix k es \<longrightarrow> node_at w k = None \<or> node_at w k = Some Node_dir"
  shows "\<exists>w'. make_directory depth mem_os u {F_recurse} (path_of True es) w = Some (Inr (), w') \<and> mem_ok w'
    \<and> (\<forall>k. node_at w' k = (if prefix k es then Some Node_dir else node_at w k))
    \<and> length (spare w) \<le> length (spare w') + length es"
  using assms
proof (induction depth arbitrary: es w)
  case (Suc depth)
  let ?p = "path_of True es"
  have g: "good True es" by (rule leaf_ok_good [OF Suc.prems(2)])
  note up = prefix_up [of _ es]
  show ?case
  proof (cases "node_at w es")
    case (Some n)
    then have n: "n = Node_dir" using Suc.prems(5) by auto
    then have "is_directory mem_os {} ?p w" using Some by (simp add: is_directory_mem [OF g] resolve_key_def)
    then have "make_directory (Suc depth) mem_os u {F_recurse} ?p w = Some (Inr (), w)"
      using Some by (simp add: mem_create_def key_name_of [OF g] name_of_not_Nil EEXIST_def)
    moreover have "node_at w k = Some Node_dir" if "prefix k es" for k
      using mem_ok_above [OF Suc.prems(1) _ that] Some n by simp
    ultimately show ?thesis using Suc.prems(1) by (intro exI [of _ w]) auto
  next
    case None
    then have ne: "es \<noteq> []" by auto
    have sp: "spare v \<noteq> []" if "length (spare w) \<le> length (spare v) + length (butlast es)" for v
    proof
      assume "spare v = []"
      then have "length (spare w) \<le> length es - 1" using that by simp
      moreover have "0 < length es" using ne by simp
      ultimately show False using Suc.prems(4) by linarith
    qed
    have make: "\<exists>v'. mem_create Node_dir (name_of True es) v = (0, v') \<and> mem_ok v'
        \<and> (\<forall>k. node_at v' k = (if k = es then Some Node_dir else node_at v k)) \<and> Suc (length (spare v')) = length (spare v)"
      if "mem_ok v" "node_at v es = None" "node_at v (butlast es) = Some Node_dir" "spare v \<noteq> []" for v
      using mem_create_added [OF that(1) Suc.prems(2) that(2-4), of Node_dir] by (auto simp: added_def)
    show ?thesis
    proof (cases "node_at w (butlast es)")
      case (Some n)
      then have n: "node_at w (butlast es) = Some Node_dir" using Suc.prems(5) prefixeq_butlast [of es] by fastforce
      obtain w' where w': "mem_create Node_dir (name_of True es) w = (0, w')" "mem_ok w'"
        "\<forall>k. node_at w' k = (if k = es then Some Node_dir else node_at w k)" "Suc (length (spare w')) = length (spare w)"
        using make [OF Suc.prems(1) None n] sp [of w] by auto
      have "node_at w k = Some Node_dir" if "prefix k (butlast es)" for k by (rule mem_ok_above [OF Suc.prems(1) n that])
      moreover have "length (spare w) \<le> length (spare w') + length es" using w'(4) ne by (cases es) auto
      ultimately show ?thesis using w'(1-3) up by (intro exI [of _ w']) auto
    next
      case no_parent: None
      note parent = parent_path_of [OF Suc.prems(2) ne]
      have first: "mem_create Node_dir (name_of True es) w = (ENOENT, w)"
        using None no_parent by (simp add: mem_create_def key_name_of [OF g] name_of_not_Nil)
      have IH: "\<exists>w'. make_directory depth mem_os u {F_recurse} (path_of True (butlast es)) w = Some (Inr (), w') \<and> mem_ok w'
          \<and> (\<forall>k. node_at w' k = (if prefix k (butlast es) then Some Node_dir else node_at w k))
          \<and> length (spare w) \<le> length (spare w') + length (butlast es)"
      proof (rule Suc.IH [OF Suc.prems(1)])
        show "\<forall>e \<in> set (butlast es). leaf_ok e" using Suc.prems(2) by (auto dest: in_set_butlastD)
        have "length es = Suc (length (butlast es))" using ne by simp
        then show "length (butlast es) < depth" "length (butlast es) \<le> length (spare w)" using Suc.prems(3,4) by linarith+
        show "\<forall>k. prefix k (butlast es) \<longrightarrow> node_at w k = None \<or> node_at w k = Some Node_dir" using Suc.prems(5) up by blast
      qed
      then obtain w1 where w1: "make_directory depth mem_os u {F_recurse} (path_of True (butlast es)) w = Some (Inr (), w1)" "mem_ok w1"
        "\<forall>k. node_at w1 k = (if prefix k (butlast es) then Some Node_dir else node_at w k)"
        "length (spare w) \<le> length (spare w1) + length (butlast es)" by blast
      obtain w' where w': "mem_create Node_dir (name_of True es) w1 = (0, w')" "mem_ok w'"
        "\<forall>k. node_at w' k = (if k = es then Some Node_dir else node_at w1 k)" "Suc (length (spare w')) = length (spare w1)"
        using make [OF w1(2)] w1(3) parent(3) None sp [OF w1(4)] by auto
      have "make_directory (Suc depth) mem_os u {F_recurse} ?p w = Some (Inr (), w')"
        using first w1(1) w'(1) parent g ne by (simp add: ENOENT_def EEXIST_def)
      moreover have "length es = Suc (length (butlast es))" using ne by simp
      then have "length (spare w) \<le> length (spare w') + length es" using w'(4) w1(4) by linarith
      ultimately show ?thesis using w'(2,3) w1(3) up by (intro exI [of _ w']) auto
    qed
  qed
qed simp

section \<open>Properties\<close>


text \<open>
  C26. \<open>make_directory\<close> with the flag \<open>recurse\<close> makes the directory and those above it that are missing, and changes
  nothing else; it calls itself at most once for each element of the name. It needs that no name on the way is a file
  or a link and that the file system is not full.
\<close>

theorem path_make_directory:
  assumes "mem_ok w" and "\<forall>e \<in> set es. leaf_ok e" and "length es < depth" and "length es \<le> length (spare w)"
    and "\<forall>k. prefix k es \<longrightarrow> node_at w k \<in> {None, Some Node_dir}"
  shows "\<exists>w'. make_directory depth mem_os u {F_recurse} (path_of True es) w = Some (Inr (), w') \<and> mem_ok w'
    \<and> (\<forall>k. node_at w' k = (if prefix k es then Some Node_dir else node_at w k))"
proof -
  have "\<forall>k. prefix k es \<longrightarrow> node_at w k = None \<or> node_at w k = Some Node_dir" using assms(5) by simp
  from make_directory_mem [OF assms(1-4) this, of u] show ?thesis by blast
qed

text \<open>A directory \<open>a\<close> with a file and a link to the directory \<open>b\<close>, which holds a file.\<close>

definition sample_fs :: mem_fs where
  "sample_fs = \<lparr>entries = [([''a''], Node_dir, 2), ([''a'', ''f''], Node_file ''text'', 3), ([''a'', ''l''], Node_link ''/b'', 4),
     ([''b''], Node_dir, 5), ([''b'', ''g''], Node_file ''keep'', 6)], spare = [7, 8, 9]\<rparr>"

lemma sample_fs_ok: "mem_ok sample_fs"
  by code_simp

text \<open>
  The listing of a link to a directory is that of the directory, which \<open>size\<close> with the flag \<open>recurse\<close> adds up for a
  link it meets; \<open>remove\<close> and \<open>copy_to\<close> ask for links first.
\<close>

lemma listing_follows_links:
  "dir_paths (\<lambda>_. True) (directory mem_os (\<lambda>_. True) (path_of True [''a'', ''l'']) {} sample_fs) = [path_of True [''a'', ''l'', ''g'']]"
  by code_simp


theorem path_make_directory_witness:
  "\<exists>w'. make_directory 4 mem_os (\<lambda>_. True) {F_recurse} (path_of True [''b'', ''c'', ''d'']) sample_fs = Some (Inr (), w')
    \<and> node_at w' [''b'', ''c''] = Some Node_dir \<and> node_at w' [''b'', ''g''] = Some (Node_file ''keep'')"
proof -
  have "\<forall>k. prefix k [''b'', ''c'', ''d''] \<longrightarrow> node_at sample_fs k \<in> {None, Some Node_dir}"
    by (auto simp: node_at_def sample_fs_def prefix_Cons)
  from path_make_directory [OF sample_fs_ok _ _ _ this, where depth = 4 and u = "\<lambda>_. True"] obtain w' where
    "make_directory 4 mem_os (\<lambda>_. True) {F_recurse} (path_of True [''b'', ''c'', ''d'']) sample_fs = Some (Inr (), w')"
    "\<forall>k. node_at w' k = (if prefix k [''b'', ''c'', ''d''] then Some Node_dir else node_at sample_fs k)"
    by (auto simp: leaf_ok_def proper_def sample_fs_def)
  moreover have "node_at sample_fs [''b'', ''g''] = Some (Node_file ''keep'')" by (simp add: node_at_def sample_fs_def)
  ultimately show ?thesis by (intro exI [of _ w']) (simp add: prefix_Cons)
qed

end
