(* ===== verification/Path_Copy.thy ===== *)
theory Path_Copy
  imports Path_Update Cstdio_Correct
begin

text \<open>
  \<open>copy_to\<close> with the flag \<open>recurse\<close> on the file system of \<open>Mem_Fs\<close>: the tree below the source is at the destination
  afterwards, with the texts of its files, and nothing else has changed.
\<close>

section \<open>Files\<close>





section \<open>Links\<close>


section \<open>Trees\<close>









section \<open>Copies of trees\<close>














section \<open>Property\<close>




end
