(* ===== verification/Path_Times.thy ===== *)
theory Path_Times
  imports Path_Files Winio
begin

text \<open>
  The times of files. \<open>set_access_time\<close> and \<open>set_modify_time\<close> over the documented behaviour of \<open>stat\<close> and \<open>utimensat\<close>,
  and the functions of \<open>path.cpp\<close> for macOS (\<open>set_file_times\<close> over \<open>utimes\<close>) and Windows (\<open>get_file_time\<close>,
  \<open>set_file_time\<close> and the functions that call them).
\<close>

section \<open>The macOS function\<close>

text \<open>\<open>utimes\<close> is the system call; it gives 0 or the error number.\<close>

definition set_file_times_apple ::
    "(string \<Rightarrow> timeval \<times> timeval \<Rightarrow> 'w \<Rightarrow> int \<times> 'w) \<Rightarrow> int \<Rightarrow> int \<Rightarrow> int \<Rightarrow> int \<Rightarrow> path \<Rightarrow> 'w \<Rightarrow> unit res \<times> 'w" where
  "set_file_times_apple utimes tick atime mtime flags p w =
     (case utimes (filename p) (timepoint_to_timeval tick atime, timepoint_to_timeval tick mtime) w of
        (err, w') \<Rightarrow> (if err \<noteq> 0 then Inl (System_error err) else Inr (), w'))"

section \<open>The Windows functions\<close>

definition FILE_ATTRIBUTE_NORMAL :: "32 word" where "FILE_ATTRIBUTE_NORMAL = 0x80"

text \<open>\<open>GetFileTime\<close> and \<open>SetFileTime\<close>, the second with a null pointer for each time that stays.\<close>

record ('h, 'w) win_times =
  wt_get :: "'h \<Rightarrow> 'w \<Rightarrow> filetime list option \<times> 'w"
  wt_set :: "'h \<Rightarrow> filetime option list \<Rightarrow> 'w \<Rightarrow> (bool \<times> int) \<times> 'w"

definition get_file_time :: "('h, 'w) win_files \<Rightarrow> ('h, 'w) win_times \<Rightarrow> int \<Rightarrow> nat \<Rightarrow> path \<Rightarrow> 'w \<Rightarrow> int \<times> 'w" where
  "get_file_time os ts tick index p w =
     (case wf_create os (filename p) \<lparr>desired_access = [GENERIC_READ], share_mode = [FILE_SHARE_READ],
             security_attributes = wf_null os, creation_disposition = OPEN_EXISTING,
             flags_and_attributes = FILE_ATTRIBUTE_NORMAL, template_file = wf_null os\<rparr> w of
        ((fh, err), w1) \<Rightarrow>
          if fh = wf_null os then (0, w1)
          else (case wt_get ts fh w1 of
                  (None, w2) \<Rightarrow> (0, snd (wf_close os fh w2))
                | (Some ft, w2) \<Rightarrow> (filetime_to_timepoint_helper tick (ft ! index), snd (wf_close os fh w2))))"

definition set_file_time ::
    "('h, 'w) win_files \<Rightarrow> ('h, 'w) win_times \<Rightarrow> int \<Rightarrow> int \<Rightarrow> nat \<Rightarrow> path \<Rightarrow> 'w \<Rightarrow> unit res \<times> 'w" where
  "set_file_time os ts tick t index p w =
     (case wf_create os (filename p) \<lparr>desired_access = [GENERIC_READ, GENERIC_WRITE],
             share_mode = [FILE_SHARE_READ, FILE_SHARE_WRITE], security_attributes = wf_null os, creation_disposition = OPEN_ALWAYS,
             flags_and_attributes = FILE_ATTRIBUTE_NORMAL, template_file = wf_null os\<rparr> w of
        ((fh, err), w1) \<Rightarrow>
          if fh = wf_null os then (Inl (System_error err), w1)
          else (case wt_set ts fh ([None, None, None][index := Some (timepoint_to_filetime_helper tick t)]) w1 of
                  ((rc, err), w2) \<Rightarrow>
                    (if \<not> rc then Inl (System_error err) else Inr (), snd (wf_close os fh w2))))"

definition win_access_time :: "('h, 'w) win_files \<Rightarrow> ('h, 'w) win_times \<Rightarrow> int \<Rightarrow> path \<Rightarrow> 'w \<Rightarrow> int \<times> 'w" where
  "win_access_time os ts tick p w = get_file_time os ts tick 1 p w"

definition win_create_time :: "('h, 'w) win_files \<Rightarrow> ('h, 'w) win_times \<Rightarrow> int \<Rightarrow> path \<Rightarrow> 'w \<Rightarrow> int \<times> 'w" where
  "win_create_time os ts tick p w = get_file_time os ts tick 0 p w"

definition win_modify_time :: "('h, 'w) win_files \<Rightarrow> ('h, 'w) win_times \<Rightarrow> int \<Rightarrow> path \<Rightarrow> 'w \<Rightarrow> int \<times> 'w" where
  "win_modify_time os ts tick p w = get_file_time os ts tick 2 p w"

definition win_set_access_time :: "('h, 'w) win_files \<Rightarrow> ('h, 'w) win_times \<Rightarrow> int \<Rightarrow> int \<Rightarrow> path \<Rightarrow> 'w \<Rightarrow> unit res \<times> 'w" where
  "win_set_access_time os ts tick t p w = set_file_time os ts tick t 1 p w"

definition win_set_create_time :: "('h, 'w) win_files \<Rightarrow> ('h, 'w) win_times \<Rightarrow> int \<Rightarrow> int \<Rightarrow> path \<Rightarrow> 'w \<Rightarrow> unit res \<times> 'w" where
  "win_set_create_time os ts tick t p w = set_file_time os ts tick t 0 p w"

definition win_set_modify_time :: "('h, 'w) win_files \<Rightarrow> ('h, 'w) win_times \<Rightarrow> int \<Rightarrow> int \<Rightarrow> path \<Rightarrow> 'w \<Rightarrow> unit res \<times> 'w" where
  "win_set_modify_time os ts tick t p w = set_file_time os ts tick t 2 p w"

section \<open>Files with times\<close>

text \<open>
  Files and links with their times, and the target of each link, after the documentation of \<open>stat\<close> and \<open>utimensat\<close>:
  links are followed unless asked otherwise, and a \<open>tv_nsec\<close> that is no fraction of a second is refused. Nothing else
  can be changed.
\<close>

definition EROFS :: int where "EROFS = 30"

record time_fs =
  tf_stat :: "string \<Rightarrow> stat_buf option"
  tf_link :: "string \<Rightarrow> string option"

definition tf_name :: "bool \<Rightarrow> string \<Rightarrow> time_fs \<Rightarrow> string" where
  "tf_name nofollow f w = (if nofollow then f else case tf_link w f of None \<Rightarrow> f | Some g \<Rightarrow> g)"

definition tf_utimens :: "string \<Rightarrow> timespec \<times> timespec \<Rightarrow> bool \<Rightarrow> time_fs \<Rightarrow> int \<times> time_fs" where
  "tf_utimens f am nofollow w =
     (case am of (a, m) \<Rightarrow>
        let g = tf_name nofollow f w
        in case tf_stat w g of
             None \<Rightarrow> (ENOENT, w)
           | Some st \<Rightarrow>
               if timespec_valid a \<and> timespec_valid m
               then (0, w\<lparr>tf_stat := (tf_stat w)(g \<mapsto> st\<lparr>st_atim := a, st_mtim := m\<rparr>)\<rparr>)
               else (EINVAL, w))"

definition time_os :: "time_fs posix" where
  "time_os = \<lparr>sys_stat = (\<lambda>f w. tf_stat w (tf_name False f w)), sys_lstat = (\<lambda>f w. tf_stat w (tf_name True f w)),
     sys_getcwd = (\<lambda>n w. Inr ''/''), sys_readlink = (\<lambda>f n w. case tf_link w f of None \<Rightarrow> Inl EINVAL | Some g \<Rightarrow> Inr (take n g)),
     sys_getenv = (\<lambda>n w. None), sys_getpw = (\<lambda>u n w. (0, None)), sys_listdir = (\<lambda>f w. None), sys_mkdir = (\<lambda>f w. (EROFS, w)),
     sys_symlink = (\<lambda>f g w. (EROFS, w)), sys_rename = (\<lambda>f g w. (EROFS, w)), sys_remove = (\<lambda>f w. (EROFS, w)),
     sys_chdir = (\<lambda>f w. (ENOTDIR, w)), sys_utimens = tf_utimens, sys_fopen = (\<lambda>f m w. ((None, EROFS), w)),
     sys_fclose = (\<lambda>f c w. w), std_in = (\<lambda>w. \<lparr>rest = [], sent = [], at_eof = False, hiccups = []\<rparr>), set_std_in = (\<lambda>c w. w),
     std_out = (\<lambda>w. \<lparr>rest = [], sent = [], at_eof = False, hiccups = []\<rparr>), set_std_out = (\<lambda>c w. w)\<rparr>"

text \<open>A time point that \<open>utimensat\<close> accepts: not before 1970, or at a full second.\<close>

definition settable :: "int \<Rightarrow> int \<Rightarrow> bool" where
  "settable tick t \<longleftrightarrow> 0 \<le> t * tick \<or> t * tick mod ns_per_s = 0"

lemma settable_valid: "timespec_valid (timepoint_to_timespec tick t) \<longleftrightarrow> settable tick t"
  by (simp add: timepoint_to_timespec_def duration_to_timespec_fields settable_def)

lemma set_file_times_os:
  assumes "tf_stat w (tf_name (F_no_follow \<in> flags) (filename p) w) = Some st"
  shows "set_file_times time_os tick a m flags p w =
    (if settable tick a \<and> settable tick m
     then (Inr (), w\<lparr>tf_stat := (tf_stat w)(tf_name (F_no_follow \<in> flags) (filename p) w
             \<mapsto> st\<lparr>st_atim := timepoint_to_timespec tick a, st_mtim := timepoint_to_timespec tick m\<rparr>)\<rparr>)
     else (Inl (System_error EINVAL), w))"
  using assms by (simp add: set_file_times_def time_os_def tf_utimens_def Let_def settable_valid EINVAL_def)

lemma time_os_queries:
  "access_time time_os tick flags p w = (case tf_stat w (tf_name (F_no_follow \<in> flags) (filename p) w) of
     None \<Rightarrow> timespec_to_timepoint tick (st_atim zero_stat) | Some st \<Rightarrow> timespec_to_timepoint tick (st_atim st))"
  "modify_time time_os tick flags p w = (case tf_stat w (tf_name (F_no_follow \<in> flags) (filename p) w) of
     None \<Rightarrow> timespec_to_timepoint tick (st_mtim zero_stat) | Some st \<Rightarrow> timespec_to_timepoint tick (st_mtim st))"
  by (simp_all add: access_time_def modify_time_def get_stat_def time_os_def split: option.split)




text \<open>
  With \<open>no_follow\<close> the other time is asked of the file behind the link and given to the link: setting the access time
  of a link changes its modification time.
\<close>

lemma set_access_time_no_follow:
  assumes "0 < tick" and "tick dvd ns_per_s \<or> ns_per_s dvd tick" and "tf_stat w (filename p) = Some st" and "settable tick t"
    and "settable tick (modify_time time_os tick {} p w)"
  shows "\<exists>w1. set_access_time time_os tick t {F_no_follow} p w = (Inr (), w1)
    \<and> modify_time time_os tick {F_no_follow} p w1 = modify_time time_os tick {} p w"
  using assms(3-5) timespec_roundtrip [OF assms(1,2)]
  by (simp add: set_access_time_def set_file_times_os time_os_queries tf_name_def)

section \<open>Times on Windows\<close>

text \<open>
  Files with their three times, after the documentation of \<open>CreateFileW\<close>, \<open>GetFileTime\<close> and \<open>SetFileTime\<close>. A handle is the
  null pointer, \<open>INVALID_HANDLE_VALUE\<close>, a standard stream or that of a file; no file has the empty name.
\<close>

datatype win_handle = WH_null | WH_invalid | WH_std nat | WH_file string

type_synonym win_disk = "string \<Rightarrow> filetime list option"

definition ERROR_FILE_NOT_FOUND :: int where "ERROR_FILE_NOT_FOUND = 2"
definition ERROR_PATH_NOT_FOUND :: int where "ERROR_PATH_NOT_FOUND = 3"
definition ERROR_INVALID_HANDLE :: int where "ERROR_INVALID_HANDLE = 6"

definition win_disk_create :: "string \<Rightarrow> win_handle create_args \<Rightarrow> win_disk \<Rightarrow> (win_handle \<times> int) \<times> win_disk" where
  "win_disk_create f args w =
     (if f = [] then ((WH_invalid, ERROR_PATH_NOT_FOUND), w)
      else if w f \<noteq> None then ((WH_file f, 0), w)
      else if creation_disposition args = OPEN_EXISTING then ((WH_invalid, ERROR_FILE_NOT_FOUND), w)
      else ((WH_file f, 0), w(f \<mapsto> replicate 3 (timepoint_to_filetime_helper 100 0))))"

definition win_disk_os :: "(win_handle, win_disk) win_files" where
  "win_disk_os = \<lparr>wf_null = WH_null, wf_invalid = WH_invalid, wf_stdin = WH_std 0, wf_stdout = WH_std 1, wf_stderr = WH_std 2,
     wf_create = win_disk_create, wf_close = (\<lambda>h w. (0, w)), wf_flush = (\<lambda>h w. ((True, 0), w)),
     wf_read = (\<lambda>h n w. (([], 0), w)), wf_write = (\<lambda>h d n w. ((0, 0), w)), wf_set_pointer = (\<lambda>h ofs m w. ((True, 0, 0), w))\<rparr>"

definition win_disk_times :: "(win_handle, win_disk) win_times" where
  "win_disk_times = \<lparr>wt_get = (\<lambda>h w. (case h of WH_file f \<Rightarrow> w f | _ \<Rightarrow> None, w)),
     wt_set = (\<lambda>h new w. case h of
         WH_file f \<Rightarrow> ((True, 0), case w f of None \<Rightarrow> w
            | Some old \<Rightarrow> w(f \<mapsto> map2 (\<lambda>n t. case n of None \<Rightarrow> t | Some t' \<Rightarrow> t') new old))
       | _ \<Rightarrow> ((False, ERROR_INVALID_HANDLE), w))\<rparr>"

lemmas win_disk_defs = win_disk_os_def win_disk_times_def win_disk_create_def get_file_time_def set_file_time_def

text \<open>On a file that exists one time is set, for a time point from 1970 on, and the other two stay.\<close>

lemma win_time_set:
  assumes "filename p \<noteq> []" and "w (filename p) = Some [c, a, m]" and "index < 3" and "0 \<le> t" and "t * 100 < 2 ^ 63"
  shows "\<exists>w'. set_file_time win_disk_os win_disk_times 100 t index p w = (Inr (), w')
    \<and> (\<forall>i < 3. get_file_time win_disk_os win_disk_times 100 i p w' =
         (if i = index then t else fst (get_file_time win_disk_os win_disk_times 100 i p w), w'))"
proof -
  have three: "i < 3 \<longleftrightarrow> i = 0 \<or> i = 1 \<or> i = 2" for i :: nat by auto
  then have "index = 0 \<or> index = 1 \<or> index = 2" using assms(3) by blast
  then show ?thesis
    using assms(1,2) filetime_roundtrip [OF assms(4,5)]
    by (elim disjE) (auto simp: win_disk_defs three numeral_2_eq_2)
qed

text \<open>
  Setting a time of a file that does not exist makes it. \<open>CreateFileW\<close> gives \<open>INVALID_HANDLE_VALUE\<close>, not a null pointer, when it
  fails, so the test of the handle never holds and the error thrown is that of the next call.
\<close>

lemma win_time_missing:
  assumes "filename p \<noteq> []" and "w (filename p) = None"
  shows "fst (set_file_time win_disk_os win_disk_times 100 t 1 p w) = Inr ()"
    and "snd (set_file_time win_disk_os win_disk_times 100 t 1 p w) (filename p) \<noteq> None"
  using assms by (simp_all add: win_disk_defs)

lemma win_time_wrong_error:
  "filename p = [] \<Longrightarrow>
     set_file_time win_disk_os win_disk_times 100 t index p w = (Inl (System_error ERROR_INVALID_HANDLE), w)"
  by (simp add: win_disk_defs)

end
