(* ===== verification/Win_Path.thy ===== *)
theory Win_Path
  imports Path_Name Rx_Match
begin

text \<open>
  The path names of class \<open>Path\<close> (\<open>path.cpp\<close>) in the Windows branch of the code: names of wide characters with drives,
  network roots and backslashes. The conversions between UTF-8 and UTF-16 of rs-format and the matches of rs-regex are
  parameters.
\<close>

section \<open>Names of wide characters\<close>

type_synonym wchar = "16 word"
type_synonym wstring = "wchar list"

record wpath =
  wname :: wstring

abbreviation bslash :: wchar where "bslash \<equiv> 0x5C"
abbreviation wcolon :: wchar where "wcolon \<equiv> 0x3A"
abbreviation wdot :: wchar where "wdot \<equiv> 0x2E"

definition wempty :: wpath where
  "wempty = \<lparr>wname = []\<rparr>"

text \<open>\<open>to_utf8(decode_string(w))\<close> and \<open>to_wstring(decode_string(s))\<close>, which throw on an invalid text.\<close>

record wide_text =
  utf8_of :: "wstring \<Rightarrow> string res"
  utf16_of :: "string \<Rightarrow> wstring res"

definition w_utf8_name :: "wide_text \<Rightarrow> wpath \<Rightarrow> string res" where
  "w_utf8_name W p = utf8_of W (wname p)"

definition dumb_ascii_conversion :: "wstring \<Rightarrow> string" where
  "dumb_ascii_conversion w = map (\<lambda>c. if c \<le> 127 then char_of (unat c) else CHR ''_'') w"

section \<open>The patterns of the roots\<close>

text \<open>
  Three patterns are matched at the start of the name; a match is its length. The groups \<open>drive\<close>, \<open>network\<close> and so on are
  those of the source, with the choices in the order the matcher tries them.
\<close>

abbreviation is_bslash :: "char \<Rightarrow> bool" where "is_bslash c \<equiv> c = CHR 0x5C"

definition not_special :: "char \<Rightarrow> bool" where
  "not_special c \<longleftrightarrow> c \<noteq> CHR ''?'' \<and> c \<noteq> CHR 0x5C"

definition g_long :: matcher where
  "g_long = rx_opt (rx_seq (rx_one is_bslash) (rx_seq (rx_one is_bslash) (rx_seq (rx_lit CHR ''?'') (rx_one is_bslash))))"

definition g_drive :: matcher where
  "g_drive = rx_seq (rx_one is_alpha) (rx_seq (rx_lit CHR '':'') (rx_one is_bslash))"

definition g_drive_open :: matcher where
  "g_drive_open = rx_seq (rx_one is_alpha) (rx_seq (rx_lit CHR '':'') (rx_opt (rx_one is_bslash)))"

definition g_network :: matcher where
  "g_network = rx_seq (rx_two_or_more is_bslash) (rx_seq (rx_plus not_special) (rx_opt (rx_one is_bslash)))"

definition g_absolute :: matcher where
  "g_absolute = rx_seq g_long (rx_alt g_drive (rx_seq (rx_two_or_more is_bslash) (rx_ahead not_special)))"

definition g_root :: matcher where
  "g_root = rx_seq g_long (rx_alt g_drive g_network)"

definition g_any_root :: matcher where
  "g_any_root = rx_seq g_long (rx_alt g_drive_open (rx_alt g_network (rx_plus is_bslash)))"

record win_rx =
  rx_abs :: "string \<Rightarrow> nat option"
  rx_root :: "string \<Rightarrow> nat option"
  rx_any_root :: "string \<Rightarrow> nat option"

definition win_rx_ok :: "win_rx \<Rightarrow> bool" where
  "win_rx_ok R \<longleftrightarrow> rx_abs R = match_count g_absolute \<and> rx_root R = match_count g_root \<and> rx_any_root R = match_count g_any_root"

definition win_get_root :: "win_rx \<Rightarrow> bool \<Rightarrow> wstring \<Rightarrow> wstring" where
  "win_get_root R allow_drive_special s =
     (if s = [] then []
      else case (if allow_drive_special then rx_any_root R else rx_root R) (dumb_ascii_conversion s) of
          None \<Rightarrow> substr s 0 0
        | Some pos \<Rightarrow> substr s 0 pos)"

section \<open>The canonical form\<close>

definition win_delimiters :: "wstring \<Rightarrow> wstring" where
  "win_delimiters s = map (\<lambda>c. if c = 0x2F then bslash else c) s"

definition win_trim_leading :: "wstring \<Rightarrow> wstring" where
  "win_trim_leading s =
     (let p = (case find_from (\<lambda>c. c \<noteq> bslash) s 0 of None \<Rightarrow> length s | Some p \<Rightarrow> p)
      in if 2 < p then str_erase s 0 (p - 2) else s)"

function win_undot_loop :: "wstring \<Rightarrow> nat \<Rightarrow> wstring" where
  "win_undot_loop s p =
     (case find_str s [bslash, wdot, bslash] p of None \<Rightarrow> s | Some k \<Rightarrow> win_undot_loop (str_erase s k 2) k)"
  by auto

termination
proof (relation "measure (\<lambda>(s, p). length s)")
  fix s p k assume "find_str s [bslash, wdot, bslash] p = Some k"
  from find_str_SomeD(2) [OF this] show "((str_erase s k 2, k), s, p) \<in> measure (\<lambda>(s, p). length s)"
    by (simp add: str_erase_def)
qed simp

declare win_undot_loop.simps [simp del]

function win_unslash_loop :: "wstring \<Rightarrow> nat \<Rightarrow> wstring" where
  "win_unslash_loop s p =
     (if length s \<le> p then s
      else case find_str s [bslash, bslash] p of
          None \<Rightarrow> s
        | Some k \<Rightarrow> let q = (case find_from (\<lambda>c. c \<noteq> bslash) s (k + 2) of None \<Rightarrow> length s | Some q \<Rightarrow> q)
                    in win_unslash_loop (str_erase s (k + 1) (q - k - 1)) (k + 1))"
  by auto

termination
proof (relation "measure (\<lambda>(s, p). length s)")
  fix s p k q
  assume k: "find_str s [bslash, bslash] p = Some k"
    and q: "q = (case find_from (\<lambda>c. c \<noteq> bslash) s (k + 2) of None \<Rightarrow> length s | Some q \<Rightarrow> q)"
  have "k + 2 \<le> length s" using find_str_SomeD(2) [OF k] by simp
  moreover have "k + 2 \<le> q" using calculation q find_from_Some [of _ s "k + 2"] by (auto split: option.splits)
  ultimately show "((str_erase s (k + 1) (q - k - 1), k + 1), s, p) \<in> measure (\<lambda>(s, p). length s)"
    by (simp add: str_erase_def)
qed simp

declare win_unslash_loop.simps [simp del]

function win_trim_trailing :: "nat \<Rightarrow> wstring \<Rightarrow> wstring" where
  "win_trim_trailing min_root s =
     (if min_root < length s \<and> (last s = bslash \<or> last s = wdot \<and> s ! (length s - 2) = bslash)
      then win_trim_trailing min_root (butlast s) else s)"
  by auto

termination by (relation "measure (\<lambda>(m, s). length s)") auto

declare win_trim_trailing.simps [simp del]

text \<open>A slash after the name of a server.\<close>

definition win_close_network :: "wstring \<Rightarrow> wstring" where
  "win_close_network s =
     (if 3 \<le> length s \<and> s ! 0 = bslash \<and> s ! 1 = bslash \<and> find_from ((=) bslash) s 2 = None then s @ [bslash] else s)"

text \<open>The drive letter is three or two places before the end of the root, if there is one.\<close>

definition win_drive_upper :: "nat \<Rightarrow> wstring \<Rightarrow> wstring" where
  "win_drive_upper root_size s =
     (let drive = (if 3 \<le> root_size \<and> s ! (root_size - 1) = bslash then Some (root_size - 3)
                   else if 2 \<le> root_size \<and> s ! (root_size - 1) = wcolon then Some (root_size - 2)
                   else None)
      in case drive of
           None \<Rightarrow> s
         | Some d \<Rightarrow> if 0x61 \<le> s ! d \<and> s ! d \<le> 0x7A \<and> s ! (d + 1) = wcolon then s[d := s ! d - 0x20] else s)"

definition win_canonical :: "win_rx \<Rightarrow> wstring \<Rightarrow> wstring" where
  "win_canonical R s =
     (let s1 = win_trim_leading (win_delimiters s);
          s2 = win_undot_loop s1 0;
          s3 = (case find_from (\<lambda>c. c \<noteq> 0x3F \<and> c \<noteq> bslash) s2 0 of None \<Rightarrow> s2 | Some p \<Rightarrow> win_unslash_loop s2 p);
          root_size = length (win_get_root R True s3);
          s4 = win_trim_trailing (max root_size 1) s3
      in win_drive_upper root_size (win_close_network s4))"

definition win_is_legal :: "win_rx \<Rightarrow> wpath \<Rightarrow> bool" where
  "win_is_legal R p =
     (if find_from ((=) 0) (wname p) 0 \<noteq> None then False
      else let r = win_get_root R True (wname p)
           in if r = [] \<and> wname p \<noteq> [] \<and> wname p ! 0 = bslash then False
              else find_from (\<lambda>c. c \<in> {0x22, 0x2A, 0x3A, 0x3C, 0x3E, 0x3F, 0x7C}) (wname p) (length r) = None)"

definition win_path :: "win_rx \<Rightarrow> wstring \<Rightarrow> wpath" where
  "win_path R s = \<lparr>wname = win_canonical R s\<rparr>"

text \<open>The constructors; \<open>legal\<close> is the flag \<open>legal_name\<close>. The message of the exception holds the name in UTF-8.\<close>

definition win_make_canonical :: "win_rx \<Rightarrow> wide_text \<Rightarrow> bool \<Rightarrow> wstring \<Rightarrow> wpath res" where
  "win_make_canonical R W legal s =
     (let p = win_path R s
      in if legal \<and> \<not> win_is_legal R p
         then res_bind (w_utf8_name W p) (\<lambda>_. Inl (Invalid_argument ''Invalid file name''))
         else Inr p)"

definition win_path_utf8 :: "win_rx \<Rightarrow> wide_text \<Rightarrow> bool \<Rightarrow> string \<Rightarrow> wpath res" where
  "win_path_utf8 R W legal s = res_bind (utf16_of W s) (win_make_canonical R W legal)"

section \<open>Operations on names\<close>

definition win_empty :: "wpath \<Rightarrow> bool" where
  "win_empty p = (wname p = [])"

text \<open>\<open>filename_[i]\<close>, the null character at the end.\<close>

definition wchar_at :: "wstring \<Rightarrow> nat \<Rightarrow> wchar" where
  "wchar_at s i = (if i < length s then s ! i else 0)"

definition win_is_absolute :: "win_rx \<Rightarrow> wpath \<Rightarrow> bool" where
  "win_is_absolute R p = (rx_abs R (dumb_ascii_conversion (wname p)) \<noteq> None)"

definition win_is_drive_absolute :: "wpath \<Rightarrow> bool" where
  "win_is_drive_absolute p = (wname p \<noteq> [] \<and> wchar_at (wname p) 0 = bslash \<and> wchar_at (wname p) 1 \<noteq> bslash)"

definition win_is_drive_relative :: "wpath \<Rightarrow> bool" where
  "win_is_drive_relative p =
     (2 \<le> length (wname p) \<and> 0x41 \<le> wchar_at (wname p) 0 \<and> wchar_at (wname p) 0 \<le> 0x5A
      \<and> wchar_at (wname p) 1 = wcolon \<and> wchar_at (wname p) 2 \<noteq> bslash)"

definition win_is_relative :: "win_rx \<Rightarrow> wpath \<Rightarrow> bool" where
  "win_is_relative R p =
     (\<not> win_empty p \<and> \<not> win_is_absolute R p \<and> \<not> win_is_drive_absolute p \<and> \<not> win_is_drive_relative p)"

definition win_is_leaf :: "wpath \<Rightarrow> bool" where
  "win_is_leaf p = (if wname p = [] then False else find_from (\<lambda>c. c = wcolon \<or> c = bslash) (wname p) 0 = None)"

definition win_is_root :: "win_rx \<Rightarrow> wpath \<Rightarrow> bool" where
  "win_is_root R p = (wname p \<noteq> [] \<and> length (win_get_root R False (wname p)) = length (wname p))"

definition win_path_form :: "win_rx \<Rightarrow> wpath \<Rightarrow> form" where
  "win_path_form R p =
     (if wname p = [] then Form_empty
      else if win_is_drive_absolute p then Form_drive_absolute
      else if win_is_drive_relative p then Form_drive_relative
      else if win_is_absolute R p then Form_absolute
      else Form_relative)"

definition win_as_url :: "win_rx \<Rightarrow> wide_text \<Rightarrow> wpath \<Rightarrow> string res" where
  "win_as_url R W p =
     (if \<not> win_is_absolute R p then Inl (Invalid_argument ''File URL must be an absolute path'')
      else res_bind (w_utf8_name W p)
        (\<lambda>name. let suffix = map (\<lambda>c. if is_bslash c then CHR ''/'' else c) name;
                    first = (if suffix = [] then CHR 0x00 else suffix ! 0);
                    prefix = (if first \<noteq> CHR ''/'' then ''file:///'' else ''file://'')
                in Inr (prefix @ suffix)))"

function win_breakdown_loop :: "wstring \<Rightarrow> nat \<Rightarrow> wstring list" where
  "win_breakdown_loop s p =
     (if length s \<le> p then []
      else let q = (case find_from ((=) bslash) s p of None \<Rightarrow> length s | Some q \<Rightarrow> q)
           in substr s p (q - p) # win_breakdown_loop s (q + 1))"
  by auto

termination
proof (relation "measure (\<lambda>(s, p). length s - p)")
  fix s p q
  assume p: "\<not> length s \<le> p" and q: "q = (case find_from ((=) bslash) s p of None \<Rightarrow> length s | Some q \<Rightarrow> q)"
  have "p \<le> q" using p q find_from_Some [of _ s p] by (auto split: option.splits)
  with p show "((s, q + 1), s, p) \<in> measure (\<lambda>(s, p). length s - p)" by simp
qed simp

declare win_breakdown_loop.simps [simp del]

definition win_os_breakdown :: "win_rx \<Rightarrow> wpath \<Rightarrow> wstring list" where
  "win_os_breakdown R p =
     (if win_empty p then []
      else let r = win_get_root R True (wname p)
           in (if r \<noteq> [] then [r] else []) @ win_breakdown_loop (wname p) (length r))"

fun res_map :: "('a \<Rightarrow> 'b res) \<Rightarrow> 'a list \<Rightarrow> 'b list res" where
  "res_map f [] = Inr []"
| "res_map f (x # xs) = res_bind (f x) (\<lambda>y. res_bind (res_map f xs) (\<lambda>ys. Inr (y # ys)))"

definition win_breakdown :: "win_rx \<Rightarrow> wide_text \<Rightarrow> wpath \<Rightarrow> string list res" where
  "win_breakdown R W p = res_map (utf8_of W) (win_os_breakdown R p)"

definition win_leaf_start :: "wstring \<Rightarrow> nat" where
  "win_leaf_start s = (case find_last ((=) bslash) s of
      Some k \<Rightarrow> k + 1
    | None \<Rightarrow> if 2 \<le> length s \<and> s ! 1 = wcolon then 2 else 0)"

definition win_get_base_ext :: "wpath \<Rightarrow> wstring \<times> wstring" where
  "win_get_base_ext p =
     (let s = wname p
      in if s = [] then (s, s)
         else let start = win_leaf_start s;
                  dot = (if start < length s
                         then (case find_last ((=) wdot) s of
                                 None \<Rightarrow> None
                               | Some dot \<Rightarrow> if dot \<le> start \<or> length s - 1 \<le> dot then None else Some dot)
                         else None)
              in case dot of
                   None \<Rightarrow> (drop start s, [])
                 | Some dot \<Rightarrow> (substr s start (dot - start), drop dot s))"

definition win_get_leaf :: "wpath \<Rightarrow> wstring" where
  "win_get_leaf p = (if wname p = [] then wname p else drop (win_leaf_start (wname p)) (wname p))"

definition win_change_ext :: "win_rx \<Rightarrow> wide_text \<Rightarrow> string \<Rightarrow> wpath \<Rightarrow> wpath res" where
  "win_change_ext R W new_ext p =
     (if win_empty p \<or> length (win_get_root R True (wname p)) = length (wname p)
      then res_bind (w_utf8_name W p) (\<lambda>_. Inl (Invalid_argument ''Can't change file extension''))
      else let prefix = take (length (wname p) - length (snd (win_get_base_ext p))) (wname p)
           in res_bind (utf16_of W new_ext)
                (\<lambda>suffix. let prefix = (if suffix \<noteq> [] \<and> suffix ! 0 \<noteq> wdot then prefix @ [wdot] else prefix)
                          in Inr (win_path R (prefix @ suffix))))"

definition win_split_leaf :: "wide_text \<Rightarrow> wpath \<Rightarrow> (string \<times> string) res" where
  "win_split_leaf W p =
     (case win_get_base_ext p of (stem, ext) \<Rightarrow>
        res_bind (utf8_of W stem) (\<lambda>b. res_bind (utf8_of W ext) (\<lambda>e. Inr (b, e))))"

definition win_split_path :: "win_rx \<Rightarrow> wpath \<Rightarrow> wpath \<times> wpath" where
  "win_split_path R p =
     (let leaf = win_get_leaf p;
          dir = substr (wname p) 0 (length (wname p) - length leaf)
      in (win_path R dir, win_path R leaf))"

definition win_split_root :: "win_rx \<Rightarrow> wpath \<Rightarrow> wpath \<times> wpath" where
  "win_split_root R p =
     (let r = win_get_root R True (wname p) in (win_path R r, win_path R (drop (length r) (wname p))))"

definition win_join :: "win_rx \<Rightarrow> wpath \<Rightarrow> wpath \<Rightarrow> wpath" where
  "win_join R lhs rhs =
     (if win_empty lhs \<or> win_is_absolute R rhs then rhs
      else let result = wname lhs;
               r = win_get_root R True (wname lhs);
               result = (if length r < length result \<and> last result \<noteq> bslash \<and> \<not> win_empty rhs
                         then result @ [bslash] else result)
           in win_path R (result @ wname rhs))"

definition win_combine :: "wpath list \<Rightarrow> (wpath \<Rightarrow> wpath \<Rightarrow> wpath) \<Rightarrow> wpath" where
  "win_combine files f = (case files of [] \<Rightarrow> wempty | p # ps \<Rightarrow> foldl f p ps)"

fun win_back_cut :: "wstring \<Rightarrow> nat \<Rightarrow> nat \<Rightarrow> nat" where
  "win_back_cut s r 0 = 0"
| "win_back_cut s r (Suc n) = (if r < n \<and> s ! n \<noteq> bslash then win_back_cut s r n else n)"

definition win_common :: "win_rx \<Rightarrow> wpath \<Rightarrow> wpath \<Rightarrow> wpath" where
  "win_common R lhs rhs =
     (let l = wname lhs; r = wname rhs; root1 = win_get_root R True l; root2 = win_get_root R True r
      in if root1 \<noteq> root2 then wempty
         else let cut = mismatch l r
              in if cut = length root1 then win_path R (substr l 0 cut)
                 else if (cut = length l \<or> l ! cut = bslash) \<and> (cut = length r \<or> r ! cut = bslash)
                 then win_path R (substr l 0 cut)
                 else win_path R (substr l 0 (win_back_cut l (length root1) cut)))"

definition win_dots :: "nat \<Rightarrow> wstring" where
  "win_dots n = (let len = 3 * n - 1 in map (\<lambda>i. if i mod 3 = 2 then bslash else wdot) [0..<len])"

definition win_relative_to :: "win_rx \<Rightarrow> wide_text \<Rightarrow> wpath \<Rightarrow> wpath \<Rightarrow> wpath res" where
  "win_relative_to R W p base =
     (let base_form = win_path_form R base; this_form = win_path_form R p
      in if \<not> (base_form = Form_absolute \<and> this_form = Form_absolute)
            \<and> \<not> (base_form = Form_relative \<and> this_form = Form_relative)
         then Inl (Invalid_argument ''Invalid combination of arguments to Path::relative_to()'')
         else let base_vec = win_os_breakdown R base; this_vec = win_os_breakdown R p
              in if this_form = Form_absolute \<and> base_vec ! 0 \<noteq> this_vec ! 0 then Inr p
                 else let cut = mismatch base_vec this_vec;
                          prefix = (if cut < length base_vec then \<lparr>wname = win_dots (length base_vec - cut)\<rparr> else wempty);
                          suffix = win_combine (map (win_path R) (drop cut this_vec)) (win_join R);
                          rel_path = win_join R prefix suffix
                      in if win_empty rel_path then win_path_utf8 R W False ''.'' else Inr rel_path)"

end
