(* ===== verification/Win_Files.thy ===== *)
theory Win_Files
  imports Win_Path Path_Files
begin

text \<open>
  The functions of class \<open>Path\<close> that ask or change the file system, in the Windows branch of \<open>path.cpp\<close>. The system calls are
  fields of a record; a directory listing delivers the entries that were there when it was opened, and opening a file to ask
  for its identity leaves no trace. A function that calls itself for the entries of a directory takes the depth of calls as
  its first argument, as in \<open>Path_Files\<close>. An exception whose message holds a file name is thrown after the name was
  converted to UTF-8, which may itself throw.
\<close>

section \<open>The system calls\<close>

text \<open>
  \<open>FindFirstFileW\<close> gives a null handle, \<open>INVALID_HANDLE_VALUE\<close> with what the buffer then holds as the name of the entry, or a
  handle with the first entry; the further entries are those \<open>FindNextFile\<close> gives.
\<close>

datatype find_result = Find_null | Find_invalid wstring | Find_first wstring "wstring list"

record 'w windows =
  wa_attributes :: "wstring \<Rightarrow> 'w \<Rightarrow> 32 word"
  wa_file_size :: "wstring \<Rightarrow> 'w \<Rightarrow> (32 word \<times> 32 word) option"
  wa_file_index :: "wstring \<Rightarrow> 'w \<Rightarrow> (32 word \<times> 32 word \<times> 32 word) option option"
  wa_getcwd :: "nat \<Rightarrow> 'w \<Rightarrow> nat \<times> wstring \<times> int"
  wa_long_path :: "wstring \<Rightarrow> nat \<Rightarrow> 'w \<Rightarrow> nat \<times> wstring"
  wa_full_path :: "wstring \<Rightarrow> nat \<Rightarrow> 'w \<Rightarrow> nat \<times> wstring"
  wa_find :: "wstring \<Rightarrow> 'w \<Rightarrow> find_result"
  wa_remove_dir :: "wstring \<Rightarrow> 'w \<Rightarrow> (bool \<times> int) \<times> 'w"
  wa_delete :: "wstring \<Rightarrow> 'w \<Rightarrow> (bool \<times> int) \<times> 'w"
  wa_mkdir :: "wstring \<Rightarrow> 'w \<Rightarrow> int \<times> 'w"
  wa_rename :: "wstring \<Rightarrow> wstring \<Rightarrow> 'w \<Rightarrow> int \<times> 'w"
  wa_fopen :: "wstring \<Rightarrow> string \<Rightarrow> 'w \<Rightarrow> (cfile option \<times> int) \<times> 'w"
  wa_fclose :: "wstring \<Rightarrow> cfile \<Rightarrow> 'w \<Rightarrow> 'w"

definition INVALID_FILE_ATTRIBUTES :: "32 word" where "INVALID_FILE_ATTRIBUTES = 0xFFFFFFFF"
definition FILE_ATTRIBUTE_HIDDEN :: "32 word" where "FILE_ATTRIBUTE_HIDDEN = 0x2"
definition FILE_ATTRIBUTE_SYSTEM :: "32 word" where "FILE_ATTRIBUTE_SYSTEM = 0x4"
definition FILE_ATTRIBUTE_DIRECTORY :: "32 word" where "FILE_ATTRIBUTE_DIRECTORY = 0x10"
definition FILE_ATTRIBUTE_DEVICE :: "32 word" where "FILE_ATTRIBUTE_DEVICE = 0x40"
definition FILE_ATTRIBUTE_INTEGRITY_STREAM :: "32 word" where "FILE_ATTRIBUTE_INTEGRITY_STREAM = 0x8000"
definition FILE_ATTRIBUTE_NO_SCRUB_DATA :: "32 word" where "FILE_ATTRIBUTE_NO_SCRUB_DATA = 0x20000"
definition FILE_NOT_FOUND :: int where "FILE_NOT_FOUND = 2"

section \<open>Queries\<close>

definition get_attributes :: "'w windows \<Rightarrow> wstring \<Rightarrow> 'w \<Rightarrow> 32 word" where
  "get_attributes os file w = (let rc = wa_attributes os file w in if rc = INVALID_FILE_ATTRIBUTES then 0 else rc)"

text \<open>The two halves of the size, zero when the call fails.\<close>

definition get_attributes_ex :: "'w windows \<Rightarrow> wstring \<Rightarrow> 'w \<Rightarrow> 32 word \<times> 32 word" where
  "get_attributes_ex os file w = (case wa_file_size os file w of None \<Rightarrow> (0, 0) | Some sizes \<Rightarrow> sizes)"

text \<open>\<open>GetCurrentDirectoryW\<close> is first asked for the size.\<close>

definition win_get_current_directory :: "win_rx \<Rightarrow> 'w windows \<Rightarrow> bool \<Rightarrow> 'w \<Rightarrow> wpath res" where
  "win_get_current_directory R os checked w =
     (let size = fst (wa_getcwd os 0 w)
      in case wa_getcwd os size w of
           (rc, buf, err) \<Rightarrow> if 0 < rc then Inr (win_path R buf)
                            else if checked then Inl (System_error err) else Inr wempty)"

definition win_exists :: "'w windows \<Rightarrow> wpath \<Rightarrow> 'w \<Rightarrow> bool" where
  "win_exists os p w = (get_attributes os (wname p) w \<noteq> 0)"

definition win_id :: "'w windows \<Rightarrow> wpath \<Rightarrow> 'w \<Rightarrow> 64 word \<times> 64 word" where
  "win_id os p w = (case wa_file_index os (wname p) w of
      Some (Some (volume, high, low)) \<Rightarrow> (ucast volume, push_bit 32 (ucast high) + ucast low)
    | _ \<Rightarrow> (0, 0))"

definition win_is_directory :: "'w windows \<Rightarrow> wpath \<Rightarrow> 'w \<Rightarrow> bool" where
  "win_is_directory os p w = (and (get_attributes os (wname p) w) FILE_ATTRIBUTE_DIRECTORY \<noteq> 0)"

definition win_is_file :: "'w windows \<Rightarrow> wpath \<Rightarrow> 'w \<Rightarrow> bool" where
  "win_is_file os p w =
     (let attr = get_attributes os (wname p) w
      in attr \<noteq> 0 \<and> \<not> and attr (or FILE_ATTRIBUTE_DEVICE FILE_ATTRIBUTE_DIRECTORY) \<noteq> 0)"

definition win_is_special :: "'w windows \<Rightarrow> wpath \<Rightarrow> 'w \<Rightarrow> bool" where
  "win_is_special os p w = (and (get_attributes os (wname p) w) FILE_ATTRIBUTE_DEVICE \<noteq> 0)"

definition hidden_attr :: "32 word" where
  "hidden_attr = or (or (or FILE_ATTRIBUTE_HIDDEN FILE_ATTRIBUTE_SYSTEM) FILE_ATTRIBUTE_INTEGRITY_STREAM) FILE_ATTRIBUTE_NO_SCRUB_DATA"

definition win_is_hidden :: "win_rx \<Rightarrow> 'w windows \<Rightarrow> wpath \<Rightarrow> 'w \<Rightarrow> bool" where
  "win_is_hidden R os p w =
     (if wname p = [] \<or> wname p = [wdot] \<or> wname p = [wdot, wdot] then False
      else \<not> win_is_root R p \<and> and (get_attributes os (wname p) w) hidden_attr \<noteq> 0)"

definition win_is_symlink :: "wpath \<Rightarrow> bool" where
  "win_is_symlink p = False"

definition win_resolve_symlink :: "wpath \<Rightarrow> wpath" where
  "win_resolve_symlink p = p"

definition win_throw :: "wide_text \<Rightarrow> wpath \<Rightarrow> exn \<Rightarrow> 'a res" where
  "win_throw W p e = res_bind (w_utf8_name W p) (\<lambda>_. Inl e)"

text \<open>
  A loop of \<open>resolve\<close> over \<open>GetLongPathNameW\<close> or \<open>GetFullPathNameW\<close> with the size of the buffer, which is cast to 32 bits; the
  buffer keeps its size for the second loop.
\<close>

partial_function (option) path_name_loop :: "(nat \<Rightarrow> nat \<times> wstring) \<Rightarrow> wstring \<Rightarrow> nat \<Rightarrow> (wstring \<times> nat) option" where
  "path_name_loop call resolved n = (case call (n mod 2 ^ 32) of
      (rc, buf) \<Rightarrow> if rc = 0 then Some (resolved, n)
                   else if rc < n then Some (take rc buf, n)
                   else path_name_loop call resolved (2 * n))"

definition win_resolve :: "win_rx \<Rightarrow> wide_text \<Rightarrow> 'w windows \<Rightarrow> wpath \<Rightarrow> 'w \<Rightarrow> wpath res option" where
  "win_resolve R W os p w =
     opt_bind
       (if win_empty p then Some (win_get_current_directory R os False w)
        else case path_name_loop (\<lambda>n. wa_long_path os (wname p) n w) (wname p) 1024 of
            None \<Rightarrow> None
          | Some (long, n) \<Rightarrow> map_option (\<lambda>(full, _). Inr (win_path R full)) (path_name_loop (\<lambda>n. wa_full_path os long n w) long n))
       (\<lambda>result. let result = (if win_empty result then p else result)
          in Some (if \<not> win_is_absolute R result then win_throw W p (System_error ENOENT) else Inr result))"

section \<open>Directory iterators\<close>

text \<open>\<open>valid_utf\<close> is \<open>Format::is_valid_utf\<close> on wide strings.\<close>

record win_dir =
  wd_current :: wpath
  wd_prefix :: wpath
  wd_flags :: "pflag set"
  wd_stream :: "wstring list"

fun win_dir_advance :: "win_rx \<Rightarrow> 'w windows \<Rightarrow> (wstring \<Rightarrow> bool) \<Rightarrow> wpath \<Rightarrow> pflag set \<Rightarrow> 'w \<Rightarrow> wstring list \<Rightarrow> win_dir option" where
  "win_dir_advance R os valid_utf prefix flags w [] = None"
| "win_dir_advance R os valid_utf prefix flags w (leaf # names) =
     (if leaf \<noteq> [wdot] \<and> leaf \<noteq> [wdot, wdot] \<and> (F_unicode \<notin> flags \<or> valid_utf leaf)
      then let current = win_join R prefix (win_path R leaf)
           in if F_no_hidden \<notin> flags \<or> \<not> win_is_hidden R os current w
              then Some \<lparr>wd_current = current, wd_prefix = prefix, wd_flags = flags, wd_stream = names\<rparr>
              else win_dir_advance R os valid_utf prefix flags w names
      else win_dir_advance R os valid_utf prefix flags w names)"

definition win_dir_incr :: "win_rx \<Rightarrow> 'w windows \<Rightarrow> (wstring \<Rightarrow> bool) \<Rightarrow> 'w \<Rightarrow> win_dir option \<Rightarrow> win_dir option" where
  "win_dir_incr R os valid_utf w it = (case it of
      None \<Rightarrow> None | Some d \<Rightarrow> win_dir_advance R os valid_utf (wd_prefix d) (wd_flags d) w (wd_stream d))"

definition win_dir_begin :: "win_rx \<Rightarrow> 'w windows \<Rightarrow> (wstring \<Rightarrow> bool) \<Rightarrow> wpath \<Rightarrow> pflag set \<Rightarrow> 'w \<Rightarrow> win_dir option" where
  "win_dir_begin R os valid_utf dir flags w =
     (if F_unicode \<in> flags \<and> \<not> valid_utf (wname dir) then None
      else if \<not> win_empty dir \<and> \<not> win_is_root R dir \<and> \<not> win_is_directory os dir w then None
      else let glob = wname (win_join R dir (win_path R [0x2A]))
           in case wa_find os glob w of
                Find_null \<Rightarrow> None
              | Find_invalid name \<Rightarrow> win_dir_advance R os valid_utf dir flags w [name]
              | Find_first name names \<Rightarrow> win_dir_advance R os valid_utf dir flags w (name # names))"

definition win_directory :: "win_rx \<Rightarrow> 'w windows \<Rightarrow> (wstring \<Rightarrow> bool) \<Rightarrow> wpath \<Rightarrow> pflag set \<Rightarrow> 'w \<Rightarrow> win_dir option" where
  "win_directory R os valid_utf p flags w = win_dir_begin R os valid_utf p flags w"

lemma win_dir_advance_shorter:
  "win_dir_advance R os valid_utf prefix flags w names = Some d \<Longrightarrow>
     length (wd_stream d) < length names \<and> wd_prefix d = prefix \<and> wd_flags d = flags"
  by (induction names) (auto simp: Let_def split: if_splits)

text \<open>What a loop over the range sees.\<close>

function win_dir_paths :: "win_rx \<Rightarrow> 'w windows \<Rightarrow> (wstring \<Rightarrow> bool) \<Rightarrow> 'w \<Rightarrow> win_dir option \<Rightarrow> wpath list" where
  "win_dir_paths R os valid_utf w None = []"
| "win_dir_paths R os valid_utf w (Some d) =
     wd_current d # win_dir_paths R os valid_utf w (win_dir_incr R os valid_utf w (Some d))"
  by pat_completeness auto

termination
proof (relation "measure (\<lambda>(r, s, u, w, it). case it of None \<Rightarrow> 0 | Some d \<Rightarrow> Suc (length (wd_stream d)))")
  fix R and os :: "'w windows" and valid_utf w d
  show "((R, os, valid_utf, w, win_dir_incr R os valid_utf w (Some d)), R, os, valid_utf, w, Some d)
    \<in> measure (\<lambda>(r, s, u, w, it). case it of None \<Rightarrow> 0 | Some d \<Rightarrow> Suc (length (wd_stream d)))"
  proof (cases "win_dir_incr R os valid_utf w (Some d)")
    case (Some e)
    then have "length (wd_stream e) < length (wd_stream d)"
      using win_dir_advance_shorter [of R os valid_utf "wd_prefix d" "wd_flags d" w "wd_stream d" e] by (simp add: win_dir_incr_def)
    with Some show ?thesis by simp
  qed simp
qed simp

section \<open>Sizes and removal\<close>

fun win_size :: "nat \<Rightarrow> win_rx \<Rightarrow> 'w windows \<Rightarrow> (wstring \<Rightarrow> bool) \<Rightarrow> pflag set \<Rightarrow> wpath \<Rightarrow> 'w \<Rightarrow> 64 word option" where
  "win_size 0 R os valid_utf flags p w = None"
| "win_size (Suc depth) R os valid_utf flags p w =
     (let bytes = (case get_attributes_ex os (wname p) w of (high, low) \<Rightarrow> push_bit 32 (ucast high) + ucast low)
      in if F_recurse \<in> flags
         then foldl (\<lambda>acc child. case acc of None \<Rightarrow> None
                | Some b \<Rightarrow> map_option ((+) b) (win_size depth R os valid_utf {F_no_follow, F_recurse} child w))
              (Some bytes) (win_dir_paths R os valid_utf w (win_directory R os valid_utf p {} w))
         else Some bytes)"

fun each_wpath :: "(wpath \<Rightarrow> 'w \<Rightarrow> (unit res \<times> 'w) option) \<Rightarrow> wpath list \<Rightarrow> 'w \<Rightarrow> (unit res \<times> 'w) option" where
  "each_wpath f [] w = Some (Inr (), w)"
| "each_wpath f (p # ps) w = then_do (f p w) (each_wpath f ps)"

fun win_remove ::
    "nat \<Rightarrow> win_rx \<Rightarrow> wide_text \<Rightarrow> 'w windows \<Rightarrow> (wstring \<Rightarrow> bool) \<Rightarrow> pflag set \<Rightarrow> wpath \<Rightarrow> 'w \<Rightarrow> (unit res \<times> 'w) option" where
  "win_remove 0 R W os valid_utf flags p w = None"
| "win_remove (Suc depth) R W os valid_utf flags p w =
     then_do
       (if F_recurse \<in> flags \<and> win_is_directory os p w \<and> \<not> win_is_symlink p
        then each_wpath (win_remove depth R W os valid_utf {F_recurse}) (win_dir_paths R os valid_utf w (win_directory R os valid_utf p {} w)) w
        else Some (Inr (), w))
       (\<lambda>w. case (if win_is_directory os p w then wa_remove_dir os (wname p) w else wa_delete os (wname p) w) of
          ((ok, err), w') \<Rightarrow> Some (if \<not> ok \<and> err \<noteq> FILE_NOT_FOUND then (win_throw W p (System_error err), w') else (Inr (), w')))"

section \<open>Making directories, copying and moving\<close>

fun win_make_directory ::
    "nat \<Rightarrow> win_rx \<Rightarrow> wide_text \<Rightarrow> 'w windows \<Rightarrow> (wstring \<Rightarrow> bool) \<Rightarrow> pflag set \<Rightarrow> wpath \<Rightarrow> 'w \<Rightarrow> (unit res \<times> 'w) option" where
  "win_make_directory 0 R W os valid_utf flags p w = None"
| "win_make_directory (Suc depth) R W os valid_utf flags p w =
     (case wa_mkdir os (wname p) w of
        (err, w1) \<Rightarrow>
          if err = 0 then Some (Inr (), w1)
          else if err = EEXIST \<and> win_is_directory os p w1 then Some (Inr (), w1)
          else
            then_do
              (if err = EEXIST
               then (if F_overwrite \<notin> flags then Some (win_throw W p (System_error err), w1)
                     else win_remove 1 R W os valid_utf {} p w1)
               else if err = ENOENT \<and> F_recurse \<in> flags \<and> \<not> win_empty p
               then (let parent = fst (win_split_path R p)
                     in if parent = p then Some (win_throw W p (System_error err), w1)
                        else win_make_directory depth R W os valid_utf flags parent w1)
               else Some (Inr (), w1))
              (\<lambda>w2. case wa_mkdir os (wname p) w2 of
                 (err, w3) \<Rightarrow> Some (if err \<noteq> 0 then (win_throw W p (System_error err), w3) else (Inr (), w3))))"

text \<open>The copying loop is that of the other branch; its errors are those of the source or of the destination.\<close>

partial_function (option) win_copy_loop :: "wide_text \<Rightarrow> wpath \<Rightarrow> wpath \<Rightarrow> cfile \<Rightarrow> cfile \<Rightarrow> (unit res \<times> cfile \<times> cfile) option" where
  "win_copy_loop W p dst src out =
     (if at_eof src then Some (Inr (), src, out)
      else case c_fread io_block src of
        (d, err, src') \<Rightarrow>
          if err \<noteq> 0 then Some (win_throw W p (System_error err), src', out)
          else if d \<noteq> []
          then (case c_fwrite d out of
                  (n, err, out') \<Rightarrow> if err \<noteq> 0 then Some (win_throw W dst (System_error err), src', out')
                                   else win_copy_loop W p dst src' out')
          else win_copy_loop W p dst src' out)"

definition win_copy_file :: "wide_text \<Rightarrow> 'w windows \<Rightarrow> wpath \<Rightarrow> wpath \<Rightarrow> 'w \<Rightarrow> (unit res \<times> 'w) option" where
  "win_copy_file W os p dst w =
     (case wa_fopen os (wname p) ''rb'' w of
        ((None, err), w1) \<Rightarrow> Some (win_throw W p (System_error err), w1)
      | ((Some src, err), w1) \<Rightarrow>
          (case wa_fopen os (wname dst) ''wb'' w1 of
             ((None, err), w2) \<Rightarrow> Some (win_throw W dst (System_error err), wa_fclose os (wname p) src w2)
           | ((Some out, err), w2) \<Rightarrow>
               map_option (\<lambda>(r, src', out'). (r, wa_fclose os (wname p) src' (wa_fclose os (wname dst) out' w2)))
                 (win_copy_loop W p dst src out)))"

fun win_copy_to ::
    "nat \<Rightarrow> win_rx \<Rightarrow> wide_text \<Rightarrow> 'w windows \<Rightarrow> (wstring \<Rightarrow> bool) \<Rightarrow> pflag set \<Rightarrow> wpath \<Rightarrow> wpath \<Rightarrow> 'w \<Rightarrow> (unit res \<times> 'w) option" where
  "win_copy_to 0 R W os valid_utf flags p dst w = None"
| "win_copy_to (Suc depth) R W os valid_utf flags p dst w =
     (if \<not> win_exists os p w then Some (win_throw W p (System_error ENOENT), w)
      else if p = dst \<or> win_id os p w = win_id os dst w then Some (win_throw W dst (System_error EEXIST), w)
      else if win_is_directory os p w \<and> F_recurse \<notin> flags then Some (win_throw W p (System_error EISDIR), w)
      else then_do
        (if win_exists os dst w
         then (if F_overwrite \<notin> flags then Some (win_throw W dst (System_error EEXIST), w)
               else win_remove depth R W os valid_utf {F_recurse} dst w)
         else Some (Inr (), w))
        (\<lambda>w1.
          if win_is_symlink p then Some (Inl (System_error EOPNOTSUPP), w1)
          else if win_is_directory os p w1
          then then_do (win_make_directory depth R W os valid_utf {} dst w1)
                 (\<lambda>w2. each_wpath
                    (\<lambda>child. win_copy_to depth R W os valid_utf {F_recurse} child (win_join R dst (snd (win_split_path R child))))
                    (win_dir_paths R os valid_utf w2 (win_directory R os valid_utf p {} w2)) w2)
          else win_copy_file W os p dst w1))"

definition win_make_symlink ::
    "nat \<Rightarrow> win_rx \<Rightarrow> wide_text \<Rightarrow> 'w windows \<Rightarrow> (wstring \<Rightarrow> bool) \<Rightarrow> pflag set \<Rightarrow> wpath \<Rightarrow> wpath \<Rightarrow> 'w \<Rightarrow> (unit res \<times> 'w) option" where
  "win_make_symlink depth R W os valid_utf flags p linkname w =
     (if F_may_copy \<in> flags then win_copy_to depth R W os valid_utf {F_recurse} p linkname w
      else Some (Inl (System_error EOPNOTSUPP), w))"

definition win_move_to ::
    "nat \<Rightarrow> win_rx \<Rightarrow> wide_text \<Rightarrow> 'w windows \<Rightarrow> (wstring \<Rightarrow> bool) \<Rightarrow> pflag set \<Rightarrow> wpath \<Rightarrow> wpath \<Rightarrow> 'w \<Rightarrow> (unit res \<times> 'w) option" where
  "win_move_to depth R W os valid_utf flags p dst w =
     (if \<not> win_exists os p w then Some (win_throw W p (System_error ENOENT), w)
      else if p = dst then Some (Inr (), w)
      else then_do
        (if win_exists os dst w \<and> win_id os p w \<noteq> win_id os dst w
         then (if F_overwrite \<notin> flags then Some (win_throw W dst (System_error EEXIST), w)
               else win_remove depth R W os valid_utf {F_recurse} dst w)
         else Some (Inr (), w))
        (\<lambda>w1. case wa_rename os (wname p) (wname dst) w1 of
           (err, w2) \<Rightarrow>
             if err = 0 then Some (Inr (), w2)
             else if err \<noteq> EXDEV \<or> F_may_copy \<notin> flags
             then Some (res_bind (w_utf8_name W p) (\<lambda>_. win_throw W dst (System_error err)), w2)
             else then_do (win_copy_to depth R W os valid_utf {F_recurse} p dst w2)
                    (\<lambda>w3. win_remove depth R W os valid_utf {F_recurse} p w3)))"

end
