(* ===== verification/Win_Agree.thy ===== *)
theory Win_Agree
  imports Win_Path Path_Properties
begin

text \<open>
  Both builds of class \<open>Path\<close> do the same to portable names: a relative name, or an absolute one with a drive letter put
  before it, read with backslashes for slashes. The operations of \<open>Win_Path\<close> commute with this reading.
\<close>

section \<open>Reading a name with backslashes\<close>

definition to_wide :: "char \<Rightarrow> wchar" where
  "to_wide c = (if c = CHR ''/'' then bslash else of_char c)"

definition plain :: "string \<Rightarrow> bool" where
  "plain s \<longleftrightarrow> CHR 0x5C \<notin> set s"

abbreviation widen :: "string \<Rightarrow> wstring" where "widen s \<equiv> map to_wide s"

lemma of_char_wide: "unat (of_char c :: wchar) = of_char c"
proof -
  have "(of_char c :: nat) mod 256 = of_char c" by (rule of_char_mod_256)
  then have "(of_char c :: nat) < 256" using mod_less_divisor [of 256 "of_char c :: nat"] by linarith
  then have "(of_char c :: nat) < 65536" by linarith
  then have "(of_char c :: nat) < 2 ^ LENGTH(16)" by simp
  moreover have "(of_char c :: wchar) = of_nat (of_char c)" by (rule of_nat_of_char [symmetric])
  ultimately show ?thesis by (simp only: unat_of_nat mod_less)
qed

lemma of_char_wide_eq: "(of_char c :: wchar) = of_char d \<longleftrightarrow> c = d"
  using of_char_wide [of c] of_char_wide [of d] by (metis of_char_eq_iff)

lemma to_wide_lit:
  assumes "d \<noteq> CHR ''/''" and "d \<noteq> CHR 0x5C" and "of_char d = w"
  shows "to_wide c = w \<longleftrightarrow> c = d"
  using assms of_char_wide_eq [of c d] of_char_wide_eq [of d "CHR 0x5C"] by (auto simp: to_wide_def)

lemma to_wide_bslash: "c \<noteq> CHR 0x5C \<Longrightarrow> to_wide c = bslash \<longleftrightarrow> c = CHR ''/''"
  using of_char_wide_eq [of c "CHR 0x5C"] by (auto simp: to_wide_def)

lemma to_wide_dot [simp]: "to_wide c = wdot \<longleftrightarrow> c = CHR ''.''"
  by (rule to_wide_lit) simp_all

lemma to_wide_colon [simp]: "to_wide c = wcolon \<longleftrightarrow> c = CHR '':''"
  by (rule to_wide_lit) simp_all

lemma to_wide_query [simp]: "to_wide c = 0x3F \<longleftrightarrow> c = CHR ''?''"
  by (rule to_wide_lit) simp_all

lemma to_wide_slash [simp]: "to_wide c \<noteq> 0x2F"
  using of_char_wide_eq [of c "CHR ''/''"] by (auto simp: to_wide_def)

lemma inj_to_wide: "plain s \<Longrightarrow> inj_on to_wide (set s)"
  using of_char_wide_eq of_char_wide_eq [of _ "CHR 0x5C"] by (auto simp: inj_on_def plain_def to_wide_def)

lemma plain_simps [simp]:
  "plain []" "plain (c # s) \<longleftrightarrow> c \<noteq> CHR 0x5C \<and> plain s" "plain (s @ t) \<longleftrightarrow> plain s \<and> plain t"
  by (auto simp: plain_def)

lemma plain_take_drop [simp]: "plain s \<Longrightarrow> plain (take n s)" "plain s \<Longrightarrow> plain (drop n s)"
  by (auto simp: plain_def dest: in_set_takeD in_set_dropD)

lemma widen_eq: "plain s \<Longrightarrow> plain t \<Longrightarrow> widen s = widen t \<longleftrightarrow> s = t"
  using inj_to_wide [of "s @ t"] by (simp add: inj_on_map_eq_map)

section \<open>Searches and loops\<close>

lemma find_from_map: "find_from P (map h s) p = find_from (\<lambda>x. P (h x)) s p"
  by (simp add: find_from_def drop_map takeWhile_map comp_def)

lemma find_last_map: "find_last P (map h s) = find_last (\<lambda>x. P (h x)) s"
  by (simp add: find_last_def rev_map takeWhile_map comp_def Let_def)

lemma find_from_cong: "(\<And>x. x \<in> set s \<Longrightarrow> P x = Q x) \<Longrightarrow> find_from P s p = find_from Q s p"
proof -
  assume "\<And>x. x \<in> set s \<Longrightarrow> P x = Q x"
  then have "takeWhile (\<lambda>x. \<not> P x) (drop p s) = takeWhile (\<lambda>x. \<not> Q x) (drop p s)"
    by (intro takeWhile_cong) (auto dest: in_set_dropD)
  then show ?thesis by (simp add: find_from_def)
qed

lemma find_last_cong: "(\<And>x. x \<in> set s \<Longrightarrow> P x = Q x) \<Longrightarrow> find_last P s = find_last Q s"
proof -
  assume "\<And>x. x \<in> set s \<Longrightarrow> P x = Q x"
  then have "takeWhile (\<lambda>x. \<not> P x) (rev s) = takeWhile (\<lambda>x. \<not> Q x) (rev s)" by (intro takeWhile_cong) auto
  then show ?thesis by (simp add: find_last_def)
qed

lemma find_bslash:
  assumes "plain s"
  shows "find_from ((=) bslash) (widen s) p = find_from ((=) CHR ''/'') s p"
    and "find_from (\<lambda>c. c \<noteq> bslash) (widen s) p = find_first_not CHR ''/'' s p"
    and "find_last ((=) bslash) (widen s) = find_last ((=) CHR ''/'') s"
proof -
  have eq: "bslash = to_wide c \<longleftrightarrow> CHR ''/'' = c" "to_wide c \<noteq> bslash \<longleftrightarrow> c \<noteq> CHR ''/''" if "c \<in> set s" for c
    using that assms to_wide_bslash [of c] by (auto simp: plain_def)
  show "find_from ((=) bslash) (widen s) p = find_from ((=) CHR ''/'') s p"
    unfolding find_from_map by (rule find_from_cong) (rule eq(1))
  show "find_from (\<lambda>c. c \<noteq> bslash) (widen s) p = find_first_not CHR ''/'' s p"
    unfolding find_from_map find_first_not_def by (rule find_from_cong) (rule eq(2))
  show "find_last ((=) bslash) (widen s) = find_last ((=) CHR ''/'') s"
    unfolding find_last_map by (rule find_last_cong) (rule eq(1))
qed

lemma find_sub_map:
  "inj_on h (set s \<union> set t) \<Longrightarrow> find_sub (map h t) (map h s) = find_sub t s"
proof (induction s)
  case Nil
  then show ?case by (simp add: find_sub.simps [of _ "[]"])
next
  case (Cons x s)
  have "set (take (length t) (x # s)) \<union> set t \<subseteq> set (x # s) \<union> set t" using set_take_subset [of "length t" "x # s"] by blast
  then have "inj_on h (set (take (length t) (x # s)) \<union> set t)" 
    using inj_on_subset [OF Cons.prems] by blast
  then have "map h (take (length t) (x # s)) = map h t \<longleftrightarrow> take (length t) (x # s) = t" by (rule inj_on_map_eq_map)
  moreover have "inj_on h (set s \<union> set t)" using Cons.prems by (rule inj_on_subset) auto
  ultimately show ?case using Cons.IH
    by (simp add: find_sub.simps [of _ "x # s"] find_sub.simps [of _ "h x # map h s"] take_map [symmetric])
qed

lemma find_str_widen: "plain s \<Longrightarrow> plain t \<Longrightarrow> find_str (widen s) (widen t) p = find_str s t p"
  using inj_to_wide [of "drop p s @ t"] by (simp add: find_str_def drop_map find_sub_map)

lemma str_erase_map: "str_erase (map h s) p n = map h (str_erase s p n)"
  by (simp add: str_erase_def take_map drop_map)

lemma substr_map: "substr (map h s) p n = map h (substr s p n)"
  by (simp add: substr_def take_map drop_map)

lemma plain_erase [simp]: "plain s \<Longrightarrow> plain (str_erase s p n)"
  by (simp add: str_erase_def)

lemma win_undot_loop: "plain s \<Longrightarrow> win_undot_loop (widen s) p = widen (undot_loop s p)"
proof (induction s p rule: undot_loop.induct)
  case (1 s p)
  have "find_str (widen s) [bslash, wdot, bslash] p = find_str s ''/./'' p"
    using find_str_widen [OF "1.prems", of "''/./''" p] by (simp add: to_wide_def)
  then show ?case using "1.IH" "1.prems"
    by (cases "find_str s ''/./'' p") (simp_all add: win_undot_loop.simps [of "widen s"] undot_loop.simps [of s] str_erase_map)
qed

lemma win_unslash_loop: "plain s \<Longrightarrow> win_unslash_loop (widen s) p = widen (unslash_loop s p)"
proof (induction s p rule: unslash_loop.induct)
  case (1 s p)
  have "find_str (widen s) [bslash, bslash] p = find_str s ''//'' p"
    using find_str_widen [OF "1.prems", of "''//''" p] by (simp add: to_wide_def)
  moreover have "(case find_from (\<lambda>c. c \<noteq> bslash) (widen s) (k + 2) of None \<Rightarrow> length (widen s) | Some q \<Rightarrow> q)
      = or_size (find_first_not CHR ''/'' s (k + 2)) s" for k
    using "1.prems" by (simp add: find_bslash or_size_def split: option.split)
  ultimately show ?case using "1.IH" "1.prems"
    by (cases "find_str s ''//'' p")
      (simp_all add: win_unslash_loop.simps [of "widen s"] unslash_loop.simps [of s] str_erase_map Let_def)
qed

lemma win_trim_trailing: "plain s \<Longrightarrow> 0 < m \<Longrightarrow> win_trim_trailing m (widen s) = widen (trim_trailing m s)"
proof (induction m s rule: trim_trailing.induct)
  case (1 m s)
  have l: "s \<noteq> [] \<Longrightarrow> last s \<in> set s" "1 < length s \<Longrightarrow> s ! (length s - 2) \<in> set s" by simp_all
  let ?c = "m < length s \<and> (last s = CHR ''/'' \<or> last s = CHR ''.'' \<and> s ! (length s - 2) = CHR ''/'')"
  have c: "(m < length (widen s) \<and> (last (widen s) = bslash \<or> last (widen s) = wdot \<and> widen s ! (length (widen s) - 2) = bslash)) \<longleftrightarrow> ?c"
  proof (cases "m < length s")
    case True
    then have "s \<noteq> []" "1 < length s" using "1.prems"(2) by auto
    then have "last s \<noteq> CHR 0x5C" "s ! (length s - 2) \<noteq> CHR 0x5C" using l "1.prems"(1) unfolding plain_def by metis+
    then show ?thesis using \<open>s \<noteq> []\<close> \<open>1 < length s\<close> by (simp add: last_map to_wide_bslash)
  qed simp
  show ?case
  proof (cases ?c)
    case True
    have "plain (butlast s)" using "1.prems"(1) by (auto simp: plain_def dest: in_set_butlastD)
    then have "win_trim_trailing m (widen (butlast s)) = widen (trim_trailing m (butlast s))" by (rule "1.IH" [OF True _ "1.prems"(2)])
    moreover have "win_trim_trailing m (widen s) = win_trim_trailing m (butlast (widen s))"
      unfolding win_trim_trailing.simps [of m "widen s"] c if_P [OF True] ..
    moreover have "trim_trailing m s = trim_trailing m (butlast s)" unfolding trim_trailing.simps [of m s] if_P [OF True] ..
    ultimately show ?thesis by (simp add: map_butlast)
  next
    case False
    show ?thesis unfolding win_trim_trailing.simps [of m "widen s"] trim_trailing.simps [of m s] c if_not_P [OF False] ..
  qed
qed

section \<open>Roots\<close>

definition drive_letter :: "char \<Rightarrow> bool" where
  "drive_letter d \<longleftrightarrow> d \<in> set ''ABCDEFGHIJKLMNOPQRSTUVWXYZ''"

definition ascii_char :: "char \<Rightarrow> char" where
  "ascii_char c = (if c = CHR ''/'' then CHR 0x5C else if (of_char c :: wchar) \<le> 127 then c else CHR ''_'')"

lemma ascii_widen: "dumb_ascii_conversion (widen s) = map ascii_char s"
proof -
  have code_92: "char_of (92 :: nat) = CHR 0x5C" by code_simp
  have "(if to_wide c \<le> 127 then char_of (unat (to_wide c)) else CHR ''_'') = ascii_char c" for c
    using code_92 by (simp add: to_wide_def ascii_char_def of_char_wide)
  then show ?thesis by (simp add: dumb_ascii_conversion_def)
qed

lemma ascii_char_eq:
  assumes "(of_char d :: wchar) \<le> 127" and "d \<noteq> CHR ''/''" and "d \<noteq> CHR 0x5C" and "d \<noteq> CHR ''_''"
  shows "ascii_char c = d \<longleftrightarrow> c = d"
  using assms by (auto simp: ascii_char_def)

lemma ascii_char_lits [simp]:
  "ascii_char c = CHR '':'' \<longleftrightarrow> c = CHR '':''" "CHR '':'' = ascii_char c \<longleftrightarrow> c = CHR '':''"
  "c \<noteq> CHR 0x5C \<Longrightarrow> is_bslash (ascii_char c) \<longleftrightarrow> c = CHR ''/''"
proof -
  show colon: "ascii_char c = CHR '':'' \<longleftrightarrow> c = CHR '':''" by (rule ascii_char_eq) simp_all
  then show "CHR '':'' = ascii_char c \<longleftrightarrow> c = CHR '':''" by metis
  show "c \<noteq> CHR 0x5C \<Longrightarrow> is_bslash (ascii_char c) \<longleftrightarrow> c = CHR ''/''" by (auto simp: ascii_char_def)
qed

lemma drive_letter_simps:
  assumes "drive_letter d"
  shows "ascii_char d = d" and "is_alpha d" and "d \<noteq> CHR ''/''" and "d \<noteq> CHR 0x5C" and "d \<noteq> CHR ''?''" and "d \<noteq> CHR ''.''"
    and "0x41 \<le> (of_char d :: wchar)" and "(of_char d :: wchar) \<le> 0x5A"
  using assms by (auto simp: drive_letter_def ascii_char_def is_alpha_def)

lemmas rx_defs = rx_seq_def rx_one_def rx_opt_def rx_plus_def rx_alt_def rx_two_or_more_def rx_ahead_def rx_lit_def match_count_def

text \<open>A portable relative name has no root, a name with a drive has the three characters of the drive.\<close>

lemma no_root:
  assumes "s = [] \<or> hd s \<noteq> CHR ''/''" and "plain s" and "CHR '':'' \<notin> set s"
  shows "match_count g_any_root (map ascii_char s) = None" and "match_count g_root (map ascii_char s) = None"
    and "match_count g_absolute (map ascii_char s) = None"
proof -
  have "match_count g_any_root (map ascii_char s) = None \<and> match_count g_root (map ascii_char s) = None
      \<and> match_count g_absolute (map ascii_char s) = None"
  proof (cases s)
    case Nil
    then show ?thesis
      by (simp add: g_any_root_def g_root_def g_absolute_def g_long_def g_drive_def g_drive_open_def g_network_def rx_defs)
  next
    case (Cons c r)
    then have c: "c \<noteq> CHR ''/''" "c \<noteq> CHR 0x5C" using assms(1,2) by auto
    have r: "r = [] \<or> hd r \<noteq> CHR '':''" using Cons assms(3) by (cases r) auto
    show ?thesis
      using c r unfolding Cons
      by (cases r) (simp_all add: g_any_root_def g_root_def g_absolute_def g_long_def g_drive_def g_drive_open_def g_network_def rx_defs)
  qed
  then show "match_count g_any_root (map ascii_char s) = None" "match_count g_root (map ascii_char s) = None"
    "match_count g_absolute (map ascii_char s) = None" by blast+
qed

lemma drive_root:
  assumes "drive_letter d"
  shows "match_count g_any_root (map ascii_char (d # CHR '':'' # CHR ''/'' # r)) = Some 3"
    and "match_count g_root (map ascii_char (d # CHR '':'' # CHR ''/'' # r)) = Some 3"
    and "match_count g_absolute (map ascii_char (d # CHR '':'' # CHR ''/'' # r)) = Some 3"
proof -
  have "ascii_char CHR '':'' = CHR '':''" "ascii_char CHR ''/'' = CHR 0x5C" by (simp_all add: ascii_char_def)
  then show "match_count g_any_root (map ascii_char (d # CHR '':'' # CHR ''/'' # r)) = Some 3"
    "match_count g_root (map ascii_char (d # CHR '':'' # CHR ''/'' # r)) = Some 3"
    "match_count g_absolute (map ascii_char (d # CHR '':'' # CHR ''/'' # r)) = Some 3"
    using drive_letter_simps [OF assms]
    by (simp_all add: g_any_root_def g_root_def g_absolute_def g_long_def g_drive_def g_drive_open_def rx_defs)
qed

definition portable :: "string \<Rightarrow> bool" where
  "portable s \<longleftrightarrow> plain s \<and> CHR '':'' \<notin> set s \<and> CHR ''?'' \<notin> set s"

definition drive_name :: "char \<Rightarrow> string \<Rightarrow> string" where
  "drive_name d r = d # CHR '':'' # CHR ''/'' # r"

lemma win_root_rel:
  assumes "win_rx_ok R" and "s = [] \<or> hd s \<noteq> CHR ''/''" and "plain s" and "CHR '':'' \<notin> set s"
  shows "win_get_root R b (widen s) = []" and "rx_abs R (dumb_ascii_conversion (widen s)) = None"
  using no_root [OF assms(2-4)] assms(1) by (simp_all add: win_get_root_def win_rx_ok_def ascii_widen substr_def)

lemma win_root_drive:
  assumes "win_rx_ok R" and "drive_letter d"
  shows "win_get_root R b (widen (drive_name d r)) = widen [d, CHR '':'', CHR ''/'']"
    and "rx_abs R (dumb_ascii_conversion (widen (drive_name d r))) \<noteq> None"
  using drive_root [OF assms(2), of r] assms(1)
  unfolding win_rx_ok_def win_get_root_def ascii_widen drive_name_def by (auto simp: substr_def)

section \<open>The canonical form\<close>

lemma win_delimiters_widen [simp]: "win_delimiters (widen s) = widen s"
  by (simp add: win_delimiters_def)

text \<open>The name after the loops, before the end is trimmed.\<close>

definition middle :: "string \<Rightarrow> string" where
  "middle s = unslash_loop (undot_loop s 0) 0"

lemma middle_elems:
  assumes "split_slash s = c # cs"
  shows "middle s = c @ slash_tail (unslash_elems (undot_elems cs))"
proof -
  have c: "s = c @ slash_tail cs" "nosl c" "\<forall>d \<in> set cs. nosl d" using split_cases [of s] assms by (metis list.inject)+
  have "undot_loop s 0 = c @ slash_tail (undot_elems cs)"
    using undot_loop_undot [of 0 s] undot_split [OF c(2,3)] c(1) by simp
  then show ?thesis
    using unslash_loop_unslash [of 0] unslash_nosl [OF c(2)] unslash_tail [OF undot_elems_nosl [OF c(3)]] by (simp add: middle_def)
qed

lemma plain_undot: "plain s \<Longrightarrow> plain (undot_loop s p)"
proof (induction s p rule: undot_loop.induct)
  case (1 s p)
  then show ?case by (cases "find_str s ''/./'' p") (simp_all add: undot_loop.simps [of s])
qed

lemma plain_unslash: "plain s \<Longrightarrow> plain (unslash_loop s p)"
proof (induction s p rule: unslash_loop.induct)
  case (1 s p)
  then show ?case by (cases "find_str s ''//'' p") (simp_all add: unslash_loop.simps [of s] Let_def)
qed

lemma plain_middle: "plain s \<Longrightarrow> plain (middle s)"
  by (simp add: middle_def plain_undot plain_unslash)

lemma win_canonical_middle:
  assumes "s \<noteq> []" and "hd s \<noteq> CHR ''/''" and "hd s \<noteq> CHR ''?''" and "plain s"
  shows "win_canonical R (widen s) =
    (let root_size = length (win_get_root R True (widen (middle s)))
     in win_drive_upper root_size (win_close_network (widen (trim_trailing (max root_size 1) (middle s)))))"
proof -
  obtain c cs where c: "split_slash s = c # cs" "s = c @ slash_tail cs" "nosl c" "\<forall>d \<in> set cs. nosl d" by (rule split_cases)
  have ne: "c \<noteq> []" using c(2) assms(1,2) by (cases cs) auto
  then have "hd c = hd s" using c(2) by (cases c) auto
  then have hd_c: "hd c \<noteq> CHR ''/''" "hd c \<noteq> CHR ''?''" "hd c \<noteq> CHR 0x5C" using assms c(2) ne by (cases c; auto)+
  have first: "find_from (\<lambda>x. x \<noteq> bslash) (widen s) 0 = Some 0"
    using find_bslash(2) [OF assms(4)] first_not_slash_cons [of "hd s" "tl s"] assms(1,2) by simp
  have undot: "undot_loop s 0 = c @ slash_tail (undot_elems cs)"
    using undot_loop_undot [of 0 s] undot_split [OF c(3,4)] c(2) by simp
  have second: "find_from (\<lambda>x. x \<noteq> 0x3F \<and> x \<noteq> bslash) (widen (undot_loop s 0)) 0 = Some 0"
    using ne hd_c by (cases c) (auto simp: undot find_from_def to_wide_bslash)
  show ?thesis
    unfolding win_canonical_def Let_def win_delimiters_widen win_trim_leading_def first option.case
    using second
    by (simp add: win_undot_loop [OF assms(4)] win_unslash_loop [OF plain_undot [OF assms(4)]] middle_def [symmetric]
        win_trim_trailing [OF plain_middle [OF assms(4)]])
qed

lemma canonical_middle:
  assumes "s \<noteq> []" and "hd s \<noteq> CHR ''/''"
  shows "canonical s = trim_trailing 1 (middle s)"
proof -
  obtain c cs where c: "split_slash s = c # cs" "s = c @ slash_tail cs" "nosl c" "\<forall>d \<in> set cs. nosl d" by (rule split_cases)
  have ne: "c \<noteq> []" using c(2) assms by (cases cs) auto
  have h: "find_first_not CHR ''/'' (c @ u) 0 = Some 0" for u
    using ne c(3) by (cases c) (auto simp: first_not_slash_cons)
  have root: "get_root (c @ u) = []" for u using h [of u] ne by (simp add: get_root_def substr_def)
  have undot: "undot_loop s 0 = c @ slash_tail (undot_elems cs)"
    using undot_loop_undot [of 0 s] undot_split [OF c(3,4)] c(2) by simp
  have m: "middle s = c @ slash_tail (unslash_elems (undot_elems cs))" by (rule middle_elems [OF c(1)])
  show ?thesis
    using trim_leading_rel [of s] assms(2) h [of "slash_tail (undot_elems cs)"] root [of "slash_tail (unslash_elems (undot_elems cs))"] m
    by (simp add: canonical_def undot middle_def)
qed

lemma trim_length: "length (trim_trailing m s) \<le> length s"
proof (induction m s rule: trim_trailing.induct)
  case (1 m s)
  show ?case
  proof (cases "m < length s \<and> (last s = CHR ''/'' \<or> last s = CHR ''.'' \<and> s ! (length s - 2) = CHR ''/'')")
    case True
    from "1.IH" [OF True] True show ?thesis by (simp add: trim_trailing.simps [of m s])
  next
    case False
    show ?thesis unfolding trim_trailing.simps [of m s] if_not_P [OF False] by simp
  qed
qed

lemma trim_min:
  "m \<le> n \<Longrightarrow> trim_trailing n s = take (max n (length (trim_trailing m s))) s"
proof (induction m s rule: trim_trailing.induct)
  case (1 m s)
  let ?tail = "last s = CHR ''/'' \<or> last s = CHR ''.'' \<and> s ! (length s - 2) = CHR ''/''"
  show ?case
  proof (cases "n < length s \<and> ?tail")
    case True
    then have "m < length s \<and> ?tail" using "1.prems" by simp
    from "1.IH" [OF this "1.prems"]
    have m: "trim_trailing n (butlast s) = take (max n (length (trim_trailing m (butlast s)))) (butlast s)"
      "trim_trailing m s = trim_trailing m (butlast s)"
      using \<open>m < length s \<and> ?tail\<close> trim_trailing.simps [of m s] by simp_all
    have n: "trim_trailing n s = trim_trailing n (butlast s)" using True by (subst trim_trailing.simps) simp
    have "max n (length (trim_trailing m (butlast s))) \<le> length s - 1" using True trim_length [of m "butlast s"] by auto
    then show ?thesis using m n by (simp add: take_butlast butlast_conv_take min_def)
  next
    case False
    then have n: "trim_trailing n s = s" by (subst trim_trailing.simps) auto
    show ?thesis
    proof (cases "n < length s")
      case True
      with False have "trim_trailing m s = s" by (subst trim_trailing.simps) auto
      then show ?thesis using n by simp
    qed (use n in simp)
  qed
qed

lemma set_undot: "set (undot_loop s p) \<subseteq> set s"
proof (induction s p rule: undot_loop.induct)
  case (1 s p)
  have "set (str_erase s k 2) \<subseteq> set s" for k by (auto simp: str_erase_def dest: in_set_takeD in_set_dropD)
  with 1 show ?case by (cases "find_str s ''/./'' p") (force simp: undot_loop.simps [of s])+
qed

lemma set_unslash: "set (unslash_loop s p) \<subseteq> set s"
proof (induction s p rule: unslash_loop.induct)
  case (1 s p)
  have "set (str_erase s k n) \<subseteq> set s" for k n by (auto simp: str_erase_def dest: in_set_takeD in_set_dropD)
  with 1 show ?case unfolding unslash_loop.simps [of s p] Let_def by (cases "find_str s ''//'' p"; cases "length s \<le> p") (simp_all, blast)
qed

lemma middle_rel:
  assumes "s \<noteq> []" and "hd s \<noteq> CHR ''/''"
  shows "middle s \<noteq> []" and "hd (middle s) = hd s" and "set (middle s) \<subseteq> set s"
proof -
  obtain c cs where c: "split_slash s = c # cs" "s = c @ slash_tail cs" by (rule split_cases)
  have ne: "c \<noteq> []" using c(2) assms by (cases cs) auto
  then show "middle s \<noteq> []" "hd (middle s) = hd s" using middle_elems [OF c(1)] c(2) by (cases c; simp)+
  show "set (middle s) \<subseteq> set s" using set_undot [of s 0] set_unslash [of "undot_loop s 0" 0] by (auto simp: middle_def)
qed

lemma close_network_rel:
  assumes "s = [] \<or> hd s \<noteq> CHR ''/''" and "plain s"
  shows "win_close_network (widen s) = widen s"
  using assms by (cases s) (auto simp: win_close_network_def to_wide_bslash)

lemma win_canonical_rel:
  assumes "win_rx_ok R" and "s = [] \<or> hd s \<noteq> CHR ''/''" and "portable s"
  shows "win_canonical R (widen s) = widen (canonical s)"
proof (cases "s = []")
  case True
  have "win_undot_loop [] 0 = []" using win_undot_loop [of "[]" 0] undot_loop_undot [of 0 "[]"] by simp
  moreover have "win_trim_trailing m [] = []" for m by (subst win_trim_trailing.simps) simp
  ultimately show ?thesis using True canonical_Nil
    by (simp add: win_canonical_def win_delimiters_def win_trim_leading_def find_from_def win_get_root_def win_close_network_def
        win_drive_upper_def Let_def)
next
  case False
  have s: "plain s" "CHR '':'' \<notin> set s" "hd s \<noteq> CHR ''/''" "hd s \<noteq> CHR ''?''"
    using assms(2,3) False by (auto simp: portable_def dest: hd_in_set)
  note m = middle_rel [OF False s(3)] plain_middle [OF s(1)]
  have root: "win_get_root R True (widen (middle s)) = []" 
    by (rule win_root_rel(1) [OF assms(1) _ m(4)]) (use m(2,3) s in auto)
  have "canonical s = take (max 1 (length (canonical s))) (middle s)"
    using trim_min [of 1 1 "middle s"] canonical_middle [OF False s(3)] by simp
  then have "hd (canonical s) = hd s" "plain (canonical s)" using m by (metis hd_take max.cobounded1 order.strict_trans2 zero_less_one, metis plain_take_drop(1))
  then show ?thesis
    unfolding win_canonical_middle [OF False s(3,4,1)] root
    using close_network_rel [of "canonical s"] s(3) canonical_middle [OF False s(3)]
    by (simp add: win_drive_upper_def Let_def)
qed

lemma drive_upper_drive:
  assumes "drive_letter d"
  shows "win_drive_upper 3 (widen (drive_name d r)) = widen (drive_name d r)"
proof -
  have "to_wide d \<le> 0x5A" using drive_letter_simps(3,8) [OF assms] by (simp add: to_wide_def)
  moreover have "(0x5A :: wchar) < 0x61" by simp
  ultimately have "\<not> 0x61 \<le> to_wide d" by (meson leD order.strict_trans1)
  then show ?thesis by (simp add: win_drive_upper_def drive_name_def)
qed

lemma win_canonical_drive:
  assumes "win_rx_ok R" and "drive_letter d" and "plain r"
  shows "win_canonical R (widen (drive_name d r)) = widen (drive_name d (join_slash (filter proper (split_slash r))))"
proof -
  let ?s = "drive_name d r" and ?es = "filter proper (split_slash r)"
  note dl = drive_letter_simps [OF assms(2)]
  have s: "?s \<noteq> []" "hd ?s \<noteq> CHR ''/''" "hd ?s \<noteq> CHR ''?''" "plain ?s"
    using dl assms(3) by (simp_all add: drive_name_def)
  have sp: "split_slash ?s = [d, CHR '':''] # split_slash r"
    using split_nosl_append [of "[d, CHR '':'']" "CHR ''/'' # r"] dl(3) by (simp add: drive_name_def)
  define us where "us = unslash_elems (undot_elems (split_slash r))"
  have "us \<noteq> []" using undot_elems_nonempty [of "split_slash r"] by (simp add: us_def)
  then obtain r' where m: "middle ?s = drive_name d r'"
    using middle_elems [OF sp] by (cases us) (auto simp: us_def [symmetric] drive_name_def)
  have root: "win_get_root R True (widen (middle ?s)) = widen [d, CHR '':'', CHR ''/'']"
    unfolding m by (rule win_root_drive(1) [OF assms(1,2)])
  have "canonical ?s = [d, CHR '':''] @ slash_tail ?es"
    using canonical_rel [OF s(1,2)] sp s(1,2) by (simp add: canon_ref_def)
  then have t1: "trim_trailing 1 (middle ?s) = [d, CHR '':''] @ slash_tail ?es" using canonical_middle [OF s(1,2)] by simp
  have t3: "trim_trailing 3 (middle ?s) = drive_name d (join_slash ?es)"
  proof (cases ?es)
    case Nil
    then show ?thesis using trim_min [of 1 3 "middle ?s"] t1 m by (simp add: drive_name_def)
  next
    case (Cons e es)
    then have "3 \<le> length (trim_trailing 1 (middle ?s))" using t1 by simp
    then have "trim_trailing 3 (middle ?s) = take (length (trim_trailing 1 (middle ?s))) (middle ?s)"
      "trim_trailing 1 (middle ?s) = take (length (trim_trailing 1 (middle ?s))) (middle ?s)"
      using trim_min [of 1 3 "middle ?s"] trim_min [of 1 1 "middle ?s"] by (simp_all only: max_absorb2 one_le_numeral order_refl)
    then have "trim_trailing 3 (middle ?s) = trim_trailing 1 (middle ?s)" by simp
    then show ?thesis using t1 Cons by (simp add: drive_name_def)
  qed
  have "plain (drive_name d (join_slash ?es))"
  proof -
    have "trim_trailing 3 (middle ?s) = take (max 3 (length (trim_trailing 3 (middle ?s)))) (middle ?s)" using trim_min [of 3 3] by simp
    then show ?thesis using plain_middle [OF s(4)] t3 by (metis plain_take_drop(1))
  qed
  then have close: "win_close_network (widen (drive_name d (join_slash ?es))) = widen (drive_name d (join_slash ?es))"
    using close_network_rel [of "drive_name d (join_slash ?es)"] dl(3) by (simp add: drive_name_def)
  have m3: "max 3 1 = (3 :: nat)" by simp
  have l3: "length (widen [d, CHR '':'', CHR ''/'']) = 3" by simp
  show ?thesis
    unfolding win_canonical_middle [OF s] root Let_def l3 m3 t3 close by (rule drive_upper_drive [OF assms(2)])
qed

section \<open>Portable paths\<close>

text \<open>A name with the drive before it when it is absolute, and the path it is on Windows.\<close>

definition with_drive :: "char \<Rightarrow> string \<Rightarrow> string" where
  "with_drive d s = (if s \<noteq> [] \<and> hd s = CHR ''/'' then d # CHR '':'' # s else s)"

definition win_of :: "char \<Rightarrow> path \<Rightarrow> wpath" where
  "win_of d p = \<lparr>wname = widen (with_drive d (filename p))\<rparr>"

definition portable_path :: "path \<Rightarrow> bool" where
  "portable_path p \<longleftrightarrow> valid p \<and> portable (filename p)"

lemma portable_simps [simp]:
  "portable []" "portable (c # s) \<longleftrightarrow> c \<noteq> CHR 0x5C \<and> c \<noteq> CHR '':'' \<and> c \<noteq> CHR ''?'' \<and> portable s"
  "portable (s @ t) \<longleftrightarrow> portable s \<and> portable t"
  by (auto simp: portable_def)

lemma portable_take_drop [simp]: "portable s \<Longrightarrow> portable (take n s)" "portable s \<Longrightarrow> portable (drop n s)"
  by (auto simp: portable_def dest: in_set_takeD in_set_dropD)

lemma portable_plain: "portable s \<Longrightarrow> plain s"
  by (simp add: portable_def)

lemma wname_win_of [simp]: "wname (win_of d p) = widen (with_drive d (filename p))"
  by (simp add: win_of_def)

lemma with_drive_append: "s \<noteq> [] \<Longrightarrow> with_drive d (s @ t) = with_drive d s @ t"
  by (simp add: with_drive_def)

lemma with_drive_eq_Nil [simp]: "with_drive d s = [] \<longleftrightarrow> s = []"
  by (simp add: with_drive_def)

lemma with_drive_rel: "s = [] \<or> hd s \<noteq> CHR ''/'' \<Longrightarrow> with_drive d s = s"
  by (auto simp: with_drive_def)

lemma with_drive_abs: "with_drive d (CHR ''/'' # s) = drive_name d s"
  by (simp add: with_drive_def drive_name_def)

text \<open>The constructor does the same to a name with the drive as to the name.\<close>

lemma win_path_agree:
  assumes "win_rx_ok R" and "drive_letter d" and "portable s" and "\<not> bad_root s"
  shows "win_path R (widen (with_drive d s)) = win_of d (mk_path s)"
proof (cases "s = [] \<or> hd s \<noteq> CHR ''/''")
  case True
  have "canonical s = [] \<or> hd (canonical s) \<noteq> CHR ''/''"
  proof (cases "s = []")
    case False
    then have "canonical s = hd (split_slash s) @ slash_tail (filter proper (tl (split_slash s)))"
      using True canonical_rel [of s] by (simp add: canon_ref_def)
    moreover obtain c cs where c: "split_slash s = c # cs" "s = c @ slash_tail cs" by (rule split_cases)
    moreover have "c \<noteq> []" using c(2) True False by (cases cs) auto
    ultimately show ?thesis using True False by (cases c) auto
  qed (simp add: canonical_Nil)
  then show ?thesis using win_canonical_rel [OF assms(1) True assms(3)]
    by (simp add: win_path_def win_of_def mk_path_def with_drive_rel True)
next
  case False
  then obtain r where r: "s = CHR ''/'' # r" by (cases s) auto
  have "canonical s = CHR ''/'' # join_slash (filter proper (split_slash r))"
    using canonical_canon_ref [OF assms(4)] r by (simp add: canon_ref_def proper_def)
  then show ?thesis using win_canonical_drive [OF assms(1,2), of r] assms(3) r
    by (simp add: win_path_def win_of_def mk_path_def with_drive_abs portable_plain)
qed

text \<open>The front of a valid name.\<close>

lemma dot_slashes_take: "dot_slashes (take k r) \<Longrightarrow> dot_slashes r"
proof (induction r arbitrary: k rule: dot_slashes.induct)
  case (1 a b r)
  then obtain j where k: "k = Suc (Suc j)" by (cases k; cases "k - 1") auto
  show ?case using "1.prems" "1.IH" [of j] by (cases r; cases j) (auto simp: k)
qed (auto simp: take_Cons split: nat.splits)

lemma not_bad_root_take:
  assumes "good a es"
  shows "\<not> bad_root (take k (name_of a es))"
proof (cases a)
  case True
  have hd: "es = [] \<or> hd (join_slash es) \<noteq> CHR ''/''" using join_slash_hd [OF good_elems [OF assms]] by blast
  have nb: "\<not> dot_slashes (join_slash es)"
    using bad_root_name_of [OF assms] True hd by (cases "join_slash es") (auto simp: bad_root_def name_of_def)
  show ?thesis
  proof (cases k)
    case (Suc j)
    have "dropWhile ((=) CHR ''/'') (take j (join_slash es)) = take j (join_slash es)"
      using hd by (cases "join_slash es"; cases j) auto
    then show ?thesis using nb dot_slashes_take [of j "join_slash es"] True Suc by (auto simp: bad_root_def name_of_def)
  qed (simp add: bad_root_def)
next
  case False
  then have "take k (name_of a es) = [] \<or> hd (take k (name_of a es)) \<noteq> CHR ''/''"
    using name_of_hd [OF assms] by (cases "name_of a es"; cases k) auto
  then show ?thesis by (rule bad_root_rel)
qed

end
