(* ===== verification/Win_Ops.thy ===== *)
theory Win_Ops
  imports Win_Agree
begin

text \<open>
  The operations of \<open>Path\<close> on portable names: the Windows build gives the reading of the result of the Unix build.
\<close>

section \<open>Names by their elements\<close>

definition drive_front :: "char \<Rightarrow> bool \<Rightarrow> string" where
  "drive_front d a = (if a then [d, CHR '':''] else [])"

lemma drive_front_simps [simp]:
  "drive_front d True = [d, CHR '':'']" "drive_front d False = []" "length (drive_front d a) = (if a then 2 else 0)"
  by (simp_all add: drive_front_def)

lemma with_drive_name_of: "good a es \<Longrightarrow> with_drive d (name_of a es) = drive_front d a @ name_of a es"
  using name_of_hd [of a es] by (auto simp: with_drive_def drive_front_def)

lemma with_drive_take: "good a es \<Longrightarrow> a \<longrightarrow> 0 < k \<Longrightarrow> with_drive d (take k (name_of a es)) = drive_front d a @ take k (name_of a es)"
  using name_of_hd [of a es] by (cases "name_of a es"; cases k) (auto simp: with_drive_def drive_front_def)

lemma portable_slash_tail: "portable (slash_tail es) \<longleftrightarrow> (\<forall>e \<in> set es. portable e)"
  by (induction es) auto

lemma portable_name_of: "portable (name_of a es) \<longleftrightarrow> (\<forall>e \<in> set es. portable e)"
  by (cases es) (auto simp: name_of_def portable_slash_tail)

lemma portable_pathE:
  assumes "portable_path p"
  obtains a es where "good a es" and "p = path_of a es" and "\<forall>e \<in> set es. portable e"
proof -
  obtain a es where "good a es" "p = path_of a es" using assms validE [of p] unfolding portable_path_def by blast
  with assms portable_name_of show ?thesis by (intro that [of a es]) (auto simp: portable_path_def)
qed

lemma portable_path_of: "good a es \<Longrightarrow> portable_path (path_of a es) \<longleftrightarrow> (\<forall>e \<in> set es. portable e)"
  by (auto simp: portable_path_def portable_name_of)

lemma win_root_of:
  assumes "win_rx_ok R" and "drive_letter d" and "good a es" and "portable_path (path_of a es)"
  shows "win_get_root R b (widen (with_drive d (name_of a es))) = widen (with_drive d (root_of a))"
    and "win_is_absolute R (win_of d (path_of a es)) \<longleftrightarrow> a"
proof -
  have p: "portable (name_of a es)" using assms(4) by (simp add: portable_path_def)
  have "win_get_root R b (widen (with_drive d (name_of a es))) = widen (with_drive d (root_of a))
    \<and> (win_is_absolute R (win_of d (path_of a es)) \<longleftrightarrow> a)"
  proof (cases a)
    case True
    then show ?thesis
      using win_root_drive [OF assms(1,2)] by (simp add: name_of_def with_drive_abs win_is_absolute_def root_of_def drive_name_def)
  next
    case False
    then have rel: "name_of a es = [] \<or> hd (name_of a es) \<noteq> CHR ''/''" using name_of_hd [OF assms(3)] by blast
    then show ?thesis using win_root_rel [OF assms(1) rel] p False with_drive_rel [OF rel, of d]
      by (simp add: win_is_absolute_def portable_def root_of_def)
  qed
  then show "win_get_root R b (widen (with_drive d (name_of a es))) = widen (with_drive d (root_of a))"
    "win_is_absolute R (win_of d (path_of a es)) \<longleftrightarrow> a" by blast+
qed

lemma win_empty_of [simp]: "win_empty (win_of d p) \<longleftrightarrow> p_empty p"
  by (simp add: win_empty_def p_empty_def)

lemma win_of_empty: "wempty = win_of d path_empty"
  by (simp add: wempty_def win_of_def path_empty_def)

section \<open>Joining\<close>

lemma join_portable:
  assumes "portable_path p" and "portable_path q"
  shows "portable_path (join p q)"
proof -
  obtain a es where p: "good a es" "p = path_of a es" "\<forall>e \<in> set es. portable e" by (rule portable_pathE [OF assms(1)])
  obtain b fs where q: "good b fs" "q = path_of b fs" "\<forall>e \<in> set fs. portable e" by (rule portable_pathE [OF assms(2)])
  have "\<forall>e \<in> set (undot_head fs). portable e" using q(3) by (cases fs) (auto simp: undot_head_def)
  then show ?thesis using p q good_append [OF p(1), of fs] by (auto simp: join_path_of portable_path_of)
qed

lemma win_join_of:
  assumes "win_rx_ok R" and "drive_letter d" and "portable_path p" and "portable_path q"
  shows "win_join R (win_of d p) (win_of d q) = win_of d (join p q)"
proof -
  obtain a es where p: "good a es" "p = path_of a es" "\<forall>e \<in> set es. portable e" by (rule portable_pathE [OF assms(3)])
  obtain b fs where q: "good b fs" "q = path_of b fs" "\<forall>e \<in> set fs. portable e" by (rule portable_pathE [OF assms(4)])
  have abs: "win_is_absolute R (win_of d q) \<longleftrightarrow> b" "is_absolute q \<longleftrightarrow> b"
    using win_root_of(2) [OF assms(1,2) q(1)] assms(4) q by simp_all
  show ?thesis
  proof (cases "p_empty p \<or> b")
    case True
    then show ?thesis using abs by (auto simp: win_join_def join_def)
  next
    case False
    then have b: "\<not> b" and ne: "a \<or> es \<noteq> []" and n: "name_of a es \<noteq> []" using p q by (simp_all add: name_of_Nil_iff)
    let ?l = "name_of a es"
    have root: "win_get_root R True (widen (with_drive d ?l)) = widen (with_drive d (root_of a))"
      using win_root_of(1) [OF assms(1,2) p(1)] assms(3) p(2) by simp
    have len: "length (with_drive d (root_of a)) < length (with_drive d ?l) \<longleftrightarrow> length (root_of a) < length ?l"
      using with_drive_name_of [OF p(1), of d] by (cases a) (simp_all add: with_drive_def root_of_def)
    have lst: "last (widen (with_drive d ?l)) = bslash \<longleftrightarrow> last ?l = CHR ''/''"
    proof -
      have "last (with_drive d ?l) = last ?l" using n by (simp add: with_drive_def)
      moreover have "last ?l \<noteq> CHR 0x5C" using assms(3) p(2) n last_in_set [OF n]
        by (metis filename_path_of plain_def portable_def portable_path_def)
      ultimately show ?thesis using n by (simp add: last_map to_wide_bslash)
    qed
    let ?j = "(if length (root_of a) < length ?l \<and> last ?l \<noteq> CHR ''/'' \<and> \<not> p_empty q then ?l @ ''/'' else ?l) @ name_of b fs"
    have rel: "with_drive d (name_of b fs) = name_of b fs" using b with_drive_name_of [OF q(1), of d] by simp
    have nj: "\<not> (p_empty p \<or> is_absolute q)" "\<not> (win_empty (win_of d p) \<or> win_is_absolute R (win_of d q))"
      using False abs by simp_all
    have j: "join p q = mk_path ?j"
      unfolding join_def if_not_P [OF nj(1)] Let_def using p(2) q(2) get_root_name_of [OF p(1)] by simp
    have "win_join R (win_of d p) (win_of d q) = win_path R (widen (with_drive d ?j))"
      unfolding win_join_def if_not_P [OF nj(2)] Let_def
      using p(2) q(2) root len lst n rel by (simp add: with_drive_append to_wide_def)
    moreover have "portable ?j" using p q by (simp add: portable_name_of)
    moreover have "\<not> bad_root ?j"
    proof -
      have "?j = name_of a (es @ fs)"
        using name_of_append [OF ne, of fs] last_name_of [OF p(1)] p q b good_elems [OF p(1)]
        by (cases "fs = []"; cases "es = []") (auto simp: name_of_def root_of_def neq_Nil_conv)
      moreover have "\<forall>e \<in> set (es @ fs). nosl e \<and> e \<noteq> []" using good_elems [OF p(1)] good_elems [OF q(1)] by auto
      ultimately show ?thesis using bad_root_elems [of "es @ fs" a] by simp
    qed
    ultimately show ?thesis using win_path_agree [OF assms(1,2)] j by simp
  qed
qed

section \<open>Splitting\<close>

lemma win_leaf_start_of:
  assumes "good a es" and "portable (name_of a es)"
  shows "win_leaf_start (widen (with_drive d (name_of a es))) = length (drive_front d a) + leaf_start (name_of a es)"
proof -
  let ?s = "name_of a es"
  have plain: "plain ?s" "CHR '':'' \<notin> set ?s" using assms(2) by (simp_all add: portable_def)
  show ?thesis
  proof (cases a)
    case True
    obtain x t where s: "?s = x @ CHR ''/'' # t" "\<forall>c \<in> set t. CHR ''/'' \<noteq> c"
    proof -
      have "find_last ((=) CHR ''/'') ?s \<noteq> None" using True by (auto simp: find_last_None_iff name_of_def)
      then obtain k where k: "find_last ((=) CHR ''/'') ?s = Some k" by blast
      obtain x y t where "?s = x @ y # t" "CHR ''/'' = y" "\<forall>c \<in> set t. CHR ''/'' \<noteq> c" by (rule find_last_SomeE [OF k])
      then show ?thesis by (intro that [of x t]) simp_all
    qed
    have l: "find_last ((=) CHR ''/'') ?s = Some (length x)" using find_last_append [of "(=) CHR ''/''" "CHR ''/''" t x] s by simp
    have pt: "plain t" using plain(1) unfolding s(1) by simp
    have "to_wide c \<noteq> bslash" if "c \<in> set t" for c
      using that s(2) pt to_wide_bslash [of c] by (metis plain_def)
    then have t: "\<forall>c \<in> set (widen t). bslash \<noteq> c" by (metis (no_types, lifting) imageE list.set_map)
    have "widen (with_drive d ?s) = widen (drive_front d a @ x) @ bslash # widen t"
      using with_drive_name_of [OF assms(1), of d] unfolding s by (simp add: to_wide_def)
    then have "find_last ((=) bslash) (widen (with_drive d ?s)) = Some (length (drive_front d a) + length x)"
      using find_last_append [of "(=) bslash" bslash "widen t" "widen (drive_front d a @ x)"] t by simp
    then show ?thesis using l by (simp add: win_leaf_start_def leaf_start_def)
  next
    case False
    have "\<not> (2 \<le> length ?s \<and> ?s ! 1 = CHR '':'')" using plain(2) by (metis Suc_1 Suc_le_eq nth_mem)
    then show ?thesis using False find_bslash(3) [OF plain(1)] with_drive_name_of [OF assms(1), of d]
      by (auto simp: win_leaf_start_def leaf_start_def split: option.split)
  qed
qed

lemma win_get_leaf_of:
  assumes "portable_path p"
  shows "win_get_leaf (win_of d p) = widen (get_leaf p)"
proof -
  obtain a es where p: "good a es" "p = path_of a es" "\<forall>e \<in> set es. portable e" by (rule portable_pathE [OF assms])
  have "portable (name_of a es)" using p(3) by (simp add: portable_name_of)
  from win_leaf_start_of [OF p(1) this, of d] show ?thesis
    using p by (auto simp: win_get_leaf_def get_leaf_def with_drive_name_of drop_map)
qed

lemma win_path_front:
  assumes "win_rx_ok R" and "drive_letter d" and "good a es" and "portable (name_of a es)" and "a \<longrightarrow> 0 < k"
  shows "win_path R (widen (drive_front d a @ take k (name_of a es))) = win_of d (mk_path (take k (name_of a es)))"
  using win_path_agree [OF assms(1,2) portable_take_drop(1) [OF assms(4)] not_bad_root_take [OF assms(3)], of k]
    with_drive_take [OF assms(3,5), of d] by simp

lemma win_path_plain:
  assumes "win_rx_ok R" and "drive_letter d" and "portable s" and "s = [] \<or> hd s \<noteq> CHR ''/''"
  shows "win_path R (widen s) = win_of d (mk_path s)"
  using win_path_agree [OF assms(1-3)] bad_root_rel [OF assms(4)] with_drive_rel [OF assms(4), of d] by simp

lemma portable_elem:
  assumes "good a es" and "portable (name_of a es)" and "e \<in> set es"
  shows "portable e" and "e = [] \<or> hd e \<noteq> CHR ''/''"
  using assms by (auto simp: portable_name_of good_def) (metis hd_in_set)

lemma win_split_path_of:
  assumes "win_rx_ok R" and "drive_letter d" and "portable_path p"
  shows "win_split_path R (win_of d p) = map_prod (win_of d) (win_of d) (split_path p)"
proof -
  obtain a es where p: "good a es" "p = path_of a es" "\<forall>e \<in> set es. portable e" by (rule portable_pathE [OF assms(3)])
  have po: "portable (name_of a es)" using p(3) by (simp add: portable_name_of)
  let ?s = "name_of a es" and ?l = "get_leaf p"
  have leaf: "win_path R (widen ?l) = win_of d (mk_path ?l)"
    using win_path_plain [OF assms(1,2), of ?l] portable_elem [OF p(1) po, of "last es"] p(2) get_leaf_path_of [OF p(1)] by simp
  have s: "?s = take (leaf_start ?s) ?s @ ?l"
    using get_leaf_path_of [OF p(1)] leaf_start_name_of(1) [OF p(1)] p(2) by (metis append_take_drop_id)
  have k: "a \<longrightarrow> 0 < length ?s - length ?l"
  proof
    assume a
    then have "take (leaf_start ?s) ?s \<noteq> []" using leaf_start_name_of(2) [OF p(1)] by (simp add: root_of_def)
    then show "0 < length ?s - length ?l" using s by (metis add_diff_cancel_right' length_append length_greater_0_conv)
  qed
  have "length ?l \<le> length ?s" using s by (metis le_add2 length_append)
  then have "substr (widen (with_drive d ?s)) 0 (length (with_drive d ?s) - length ?l)
      = widen (drive_front d a @ take (length ?s - length ?l) ?s)"
    by (simp add: with_drive_name_of [OF p(1)] substr_def take_map drive_front_def)
  then show ?thesis
    using win_path_front [OF assms(1,2) p(1) po k] leaf win_get_leaf_of [OF assms(3), of d] p(2)
    by (simp add: win_split_path_def split_path_def Let_def) (simp add: substr_def)
qed

lemma win_split_root_of:
  assumes "win_rx_ok R" and "drive_letter d" and "portable_path p"
  shows "win_split_root R (win_of d p) = map_prod (win_of d) (win_of d) (split_root p)"
proof -
  obtain a es where p: "good a es" "p = path_of a es" "\<forall>e \<in> set es. portable e" by (rule portable_pathE [OF assms(3)])
  have po: "portable (name_of a es)" using p(3) by (simp add: portable_name_of)
  let ?s = "name_of a es"
  have root: "win_get_root R True (widen (with_drive d ?s)) = widen (with_drive d (root_of a))"
    using win_root_of(1) [OF assms(1,2) p(1)] assms(3) p(2) by simp
  have front: "with_drive d (root_of a) = drive_front d a @ take (length (root_of a)) ?s"
    by (simp add: with_drive_def root_of_def name_of_def)
  have tail: "drop (length (with_drive d (root_of a))) (widen (with_drive d ?s)) = widen (join_slash es)"
    using with_drive_name_of [OF p(1), of d] by (cases a) (simp_all add: with_drive_def root_of_def name_of_def)
  have "join_slash es = [] \<or> hd (join_slash es) \<noteq> CHR ''/''" using join_slash_hd [OF good_elems [OF p(1)]] by (cases es) auto
  moreover have "portable (join_slash es)" using po by (simp add: name_of_def split: if_splits)
  ultimately have t: "win_path R (widen (join_slash es)) = win_of d (mk_path (join_slash es))" by (intro win_path_plain assms)
  have "a \<longrightarrow> 0 < length (root_of a)" by (simp add: root_of_def)
  from win_path_front [OF assms(1,2) p(1) po this] have "win_path R (widen (with_drive d (root_of a))) = win_of d (mk_path (root_of a))"
    unfolding front by (simp add: root_of_def name_of_def)
  moreover have "drop (length (root_of a)) ?s = join_slash es" by (simp add: root_of_def name_of_def)
  ultimately show ?thesis
    using root tail t get_root_name_of [OF p(1)] p(2) by (simp add: win_split_root_def split_root_def Let_def)
qed

end
