(* ===== verification/Win_Relation.thy ===== *)
theory Win_Relation
  imports Win_Ops
begin

text \<open>
  Forms, elements, extensions, common prefixes and relative names on portable names, in both builds.
\<close>

section \<open>Forms and elements\<close>

lemma win_path_form_of:
  assumes "win_rx_ok R" and "drive_letter d" and "portable_path p"
  shows "win_path_form R (win_of d p) = path_form p"
proof -
  obtain a es where p: "good a es" "p = path_of a es" "\<forall>e \<in> set es. portable e" by (rule portable_pathE [OF assms(3)])
  have abs: "win_is_absolute R (win_of d p) \<longleftrightarrow> a" using win_root_of(2) [OF assms(1,2) p(1)] assms(3) p(2) by simp
  show ?thesis
  proof (cases a)
    case True
    have "to_wide d \<noteq> bslash" using drive_letter_simps(3,4) [OF assms(2)] to_wide_bslash by simp
    then have "\<not> win_is_drive_absolute (win_of d p)" "\<not> win_is_drive_relative (win_of d p)"
      using True p(2) by (simp_all add: win_is_drive_absolute_def win_is_drive_relative_def wchar_at_def name_of_def
          with_drive_abs drive_name_def to_wide_def)
    then show ?thesis using True abs p path_form_path_of [OF p(1)]
      by (simp add: win_path_form_def name_of_Nil_iff)
  next
    case False
    let ?s = "name_of a es"
    have w: "with_drive d ?s = ?s" using False with_drive_name_of [OF p(1), of d] by simp
    have po: "portable ?s" using p(3) by (simp add: portable_name_of)
    then have c: "\<forall>c \<in> set ?s. c \<noteq> CHR '':'' \<and> c \<noteq> CHR 0x5C" by (auto simp: portable_def plain_def)
    have "\<not> win_is_drive_absolute (win_of d p)"
      using name_of_hd [OF p(1)] False c w p(2) by (cases ?s) (auto simp: win_is_drive_absolute_def wchar_at_def to_wide_bslash)
    moreover have "\<not> win_is_drive_relative (win_of d p)"
      using c w p(2) nth_mem [of 1 ?s] by (auto simp: win_is_drive_relative_def wchar_at_def)
    ultimately show ?thesis using False abs p path_form_path_of [OF p(1)] by (simp add: win_path_form_def name_of_Nil_iff)
  qed
qed

lemma win_is_root_of:
  assumes "win_rx_ok R" and "drive_letter d" and "portable_path p"
  shows "win_is_root R (win_of d p) \<longleftrightarrow> is_root p"
proof -
  obtain a es where p: "good a es" "p = path_of a es" "\<forall>e \<in> set es. portable e" by (rule portable_pathE [OF assms(3)])
  have root: "win_get_root R False (wname (win_of d p)) = widen (with_drive d (root_of a))"
    using win_root_of(1) [OF assms(1,2) p(1)] assms(3) p(2) by simp
  show ?thesis
    using p(2) good_elems [OF p(1)] get_root_name_of [OF p(1)] with_drive_name_of [OF p(1), of d]
    unfolding win_is_root_def root is_root_def
    by (cases a; cases es) (auto simp: root_of_def name_of_def with_drive_def)
qed

lemma win_is_leaf_of:
  assumes "drive_letter d" and "portable_path p"
  shows "win_is_leaf (win_of d p) \<longleftrightarrow> is_leaf p"
proof -
  obtain a es where p: "good a es" "p = path_of a es" "\<forall>e \<in> set es. portable e" by (rule portable_pathE [OF assms(2)])
  let ?s = "name_of a es"
  have po: "portable ?s" using p(3) by (simp add: portable_name_of)
  show ?thesis
  proof (cases a)
    case True
    then show ?thesis using p(2) by (simp add: win_is_leaf_def is_leaf_def name_of_def with_drive_abs drive_name_def find_from_def to_wide_bslash)
  next
    case False
    have w: "with_drive d ?s = ?s" using False with_drive_name_of [OF p(1), of d] by simp
    have "(to_wide c = wcolon \<or> to_wide c = bslash) = (CHR ''/'' = c)" if "c \<in> set ?s" for c
    proof -
      have "c \<noteq> CHR '':''" "c \<noteq> CHR 0x5C" using that po unfolding portable_def plain_def by metis+
      then show ?thesis by (auto simp: to_wide_bslash)
    qed
    then have "find_from (\<lambda>c. c = wcolon \<or> c = bslash) (widen ?s) 0 = find_from ((=) CHR ''/'') ?s 0"
      unfolding find_from_map by (rule find_from_cong)
    then show ?thesis using p(2) w by (simp add: win_is_leaf_def is_leaf_def)
  qed
qed

lemma win_breakdown_loop: "plain s \<Longrightarrow> win_breakdown_loop (widen s) p = map widen (breakdown_loop s p)"
proof (induction s p rule: breakdown_loop.induct)
  case (1 s p)
  have q: "(case find_from ((=) bslash) (widen s) p of None \<Rightarrow> length (widen s) | Some q \<Rightarrow> q) = or_size (find_from ((=) CHR ''/'') s p) s"
    using find_bslash(1) [OF "1.prems", of p] by (simp add: or_size_def split: option.split)
  show ?case
  proof (cases "length s \<le> p")
    case False
    show ?thesis using False "1.IH" [OF False refl "1.prems"]
      unfolding win_breakdown_loop.simps [of "widen s" p] breakdown_loop.simps [of s p] Let_def q by (simp add: substr_map)
  qed (simp add: win_breakdown_loop.simps [of "widen s"] breakdown_loop.simps [of s])
qed

lemma win_os_breakdown_of:
  assumes "win_rx_ok R" and "drive_letter d" and "portable_path p"
  shows "win_os_breakdown R (win_of d p) = map (\<lambda>e. widen (with_drive d e)) (os_breakdown p)"
proof -
  obtain a es where p: "good a es" "p = path_of a es" "\<forall>e \<in> set es. portable e" by (rule portable_pathE [OF assms(3)])
  let ?s = "name_of a es"
  have po: "portable ?s" using p(3) by (simp add: portable_name_of)
  have root: "win_get_root R True (widen (with_drive d ?s)) = widen (with_drive d (root_of a))"
    using win_root_of(1) [OF assms(1,2) p(1)] assms(3) p(2) by simp
  have s: "with_drive d ?s = with_drive d (root_of a) @ join_slash es"
    using with_drive_name_of [OF p(1), of d] by (cases a) (simp_all add: with_drive_def root_of_def name_of_def)
  have "plain (with_drive d ?s)" using portable_plain [OF po] drive_letter_simps(4) [OF assms(2)] by (simp add: with_drive_def)
  then have loop: "win_breakdown_loop (widen (with_drive d ?s)) (length (with_drive d (root_of a))) = map widen es"
    using win_breakdown_loop [of "with_drive d ?s"] breakdown_loop_elems [OF good_elems [OF p(1)], of "with_drive d (root_of a)"] s by simp
  have es: "map (\<lambda>e. widen (with_drive d e)) es = map widen es"
  proof (rule map_cong [OF refl])
    fix e assume "e \<in> set es"
    then show "widen (with_drive d e) = widen e" using with_drive_rel [OF portable_elem(2) [OF p(1) po]] by simp
  qed
  show ?thesis
  proof (cases "p_empty p")
    case True
    then show ?thesis using p(1,2) by (simp add: win_os_breakdown_def os_breakdown_def)
  next
    case False
    then show ?thesis using p(2) root loop os_breakdown_path_of [OF p(1)] es
      by (simp add: win_os_breakdown_def root_of_def Let_def)
  qed
qed

section \<open>Extensions\<close>

text \<open>On texts of ASCII characters the conversions keep every character.\<close>

definition ascii_text :: "wide_text \<Rightarrow> bool" where
  "ascii_text W \<longleftrightarrow> (\<forall>s. (\<forall>c \<in> set s. of_char c < (128 :: nat)) \<longrightarrow>
     utf16_of W s = Inr (map of_char s) \<and> utf8_of W (map of_char s) = Inr s)"

lemma find_last_front:
  assumes "\<forall>c \<in> set u. \<not> P c"
  shows "find_last P (u @ s) = map_option ((+) (length u)) (find_last P s)"
proof (cases "find_last P s")
  case None
  then have "find_last P (u @ s) = None" using assms by (auto simp: find_last_None_iff)
  then show ?thesis using None by simp
next
  case (Some k)
  obtain A y B where s: "s = A @ y # B" "P y" "\<forall>x \<in> set B. \<not> P x" "k = length A" by (rule find_last_SomeE [OF Some])
  then show ?thesis using Some find_last_append [of P y B "u @ A"] by simp
qed

lemma base_ext_front:
  assumes "s \<noteq> []" and "\<forall>c \<in> set u. CHR ''.'' \<noteq> c" and "win_leaf_start (widen (u @ s)) = length u + leaf_start s"
  shows "win_get_base_ext \<lparr>wname = widen (u @ s)\<rparr> = map_prod widen widen (get_base_ext \<lparr>filename = s\<rparr>)"
proof -
  have "find_last ((=) wdot) (widen (u @ s)) = find_last ((=) CHR ''.'') (u @ s)"
    unfolding find_last_map by (rule find_last_cong) (metis to_wide_dot)
  then have dot: "find_last ((=) wdot) (widen (u @ s)) = map_option ((+) (length u)) (find_last ((=) CHR ''.'') s)"
    using find_last_front [OF assms(2)] by simp
  have sub: "substr (widen (u @ s)) (length u + i) n = widen (substr s i n)" "drop (length u + i) (widen (u @ s)) = widen (drop i s)" for i n
    by (simp_all add: substr_def take_map drop_map)
  have last: "length (widen (u @ s)) - Suc 0 \<le> length u + k \<longleftrightarrow> length s - Suc 0 \<le> k"
    "length u + i < length (widen (u @ s)) \<longleftrightarrow> i < length s" for k i
    using assms(1) by (cases s; auto)+
  have w: "widen (u @ s) \<noteq> []" using assms(1) by simp
  show ?thesis
    unfolding win_get_base_ext_def get_base_ext_def Let_def wpath.simps path.simps if_not_P [OF assms(1)] if_not_P [OF w] assms(3) dot last
    by (cases "find_last ((=) CHR ''.'') s") (simp_all add: sub last del: map_append length_map length_append)
qed

lemma win_get_ext_of:
  assumes "drive_letter d" and "portable_path p"
  shows "win_get_base_ext (win_of d p) = map_prod widen widen (get_base_ext p)"
proof -
  obtain a es where p: "good a es" "p = path_of a es" "\<forall>e \<in> set es. portable e" by (rule portable_pathE [OF assms(2)])
  have po: "portable (name_of a es)" using p(3) by (simp add: portable_name_of)
  have w: "win_of d p = \<lparr>wname = widen (drive_front d a @ name_of a es)\<rparr>" "p = \<lparr>filename = name_of a es\<rparr>"
    using with_drive_name_of [OF p(1), of d] p(2) by (simp_all add: win_of_def path_of_def)
  have start: "win_leaf_start (widen (drive_front d a @ name_of a es)) = length (drive_front d a) + leaf_start (name_of a es)"
    using win_leaf_start_of [OF p(1) po, of d] with_drive_name_of [OF p(1), of d] by simp
  have u: "\<forall>c \<in> set (drive_front d a). CHR ''.'' \<noteq> c" using drive_letter_simps(6) [OF assms(1)] by (auto simp: drive_front_def)
  show ?thesis
  proof (cases "name_of a es = []")
    case True
    then show ?thesis by (simp add: w(2) win_get_base_ext_def get_base_ext_def with_drive_def)
  next
    case False
    then show ?thesis using base_ext_front [OF False u start] w by simp
  qed
qed

section \<open>Common prefixes\<close>

lemma mismatch_map: "inj_on h (set xs \<union> set ys) \<Longrightarrow> mismatch (map h xs) (map h ys) = mismatch xs ys"
  by (induction xs ys rule: mismatch.induct) (auto simp: inj_on_def)

lemma mismatch_le: "mismatch xs ys \<le> length xs" "mismatch xs ys \<le> length ys"
  by (induction xs ys rule: mismatch.induct) auto

lemma win_back_cut:
  "r < n \<Longrightarrow> n \<le> length s \<Longrightarrow> plain s \<Longrightarrow> win_back_cut (widen (u @ s)) (length u + r) (length u + n) = length u + back_cut s r n"
proof (induction n)
  case (Suc n)
  have c: "s ! n \<noteq> CHR 0x5C" using Suc.prems(2,3) by (metis Suc_le_lessD nth_mem plain_def)
  have "widen (u @ s) ! (length u + n) = to_wide (s ! n)" using Suc.prems by (simp add: nth_append)
  then have "widen (u @ s) ! (length u + n) \<noteq> bslash \<longleftrightarrow> s ! n \<noteq> CHR ''/''" using to_wide_bslash [OF c] by simp
  then show ?case using Suc.IH Suc.prems by (cases "r < n") simp_all
qed simp

lemma back_cut_ge: "r < n \<Longrightarrow> r \<le> back_cut s r n"
  by (induction n) auto

lemma common_front:
  assumes roots: "win_get_root R True (widen (u @ l)) = rt" "win_get_root R True (widen (u @ r)) = rt" "length rt = length u + m"
    "get_root l = t" "get_root r = t" "length t = m" "m \<le> mismatch l r"
    and plain: "plain u" "plain l" "plain r"
    and front: "\<And>k. m \<le> k \<Longrightarrow> win_path R (substr (widen (u @ l)) 0 (length u + k)) = win_of d (mk_path (substr l 0 k))"
  shows "win_common R \<lparr>wname = widen (u @ l)\<rparr> \<lparr>wname = widen (u @ r)\<rparr> = win_of d (common \<lparr>filename = l\<rparr> \<lparr>filename = r\<rparr>)"
proof -
  let ?n = "mismatch l r"
  have "plain (u @ l @ r)" using plain by simp
  moreover have "set (u @ l) \<union> set (u @ r) \<subseteq> set (u @ l @ r)" by auto
  ultimately have cut: "mismatch (widen (u @ l)) (widen (u @ r)) = length u + ?n"
    using mismatch_map [OF inj_on_subset [OF inj_to_wide]] by (simp only: mismatch_append)
  have n: "?n \<le> length l" "?n \<le> length r" by (rule mismatch_le)+
  have at: "length u + ?n = length (widen (u @ x)) \<or> widen (u @ x) ! (length u + ?n) = bslash \<longleftrightarrow> ?n = length x \<or> x ! ?n = CHR ''/''"
    if "?n \<le> length x" "plain x" for x
  proof (cases "?n = length x")
    case False
    then have "x ! ?n \<noteq> CHR 0x5C" using that by (metis nat_less_le nth_mem plain_def)
    then show ?thesis using False that(1) by (simp add: nth_append to_wide_bslash)
  qed simp
  have cut_back: "win_back_cut (widen (u @ l)) (length u + m) (length u + ?n) = length u + back_cut l m ?n" "m \<le> back_cut l m ?n" if "?n \<noteq> m"
  proof -
    have "m < ?n" using that roots(7) by simp
    then show "win_back_cut (widen (u @ l)) (length u + m) (length u + ?n) = length u + back_cut l m ?n" "m \<le> back_cut l m ?n"
      using win_back_cut [OF _ n(1) plain(2)] back_cut_ge by blast+
  qed
  have "win_common R \<lparr>wname = widen (u @ l)\<rparr> \<lparr>wname = widen (u @ r)\<rparr> = (if ?n = m then win_of d (mk_path (substr l 0 ?n))
      else if (?n = length l \<or> l ! ?n = CHR ''/'') \<and> (?n = length r \<or> r ! ?n = CHR ''/'')
      then win_of d (mk_path (substr l 0 ?n)) else win_of d (mk_path (substr l 0 (back_cut l m ?n))))"
    unfolding win_common_def Let_def wpath.simps roots(1-3) cut at [OF n(1) plain(2)] at [OF n(2) plain(3)] front [OF roots(7)]
    using cut_back front by (simp del: map_append)
  then show ?thesis using roots(4-6) by (simp add: common_def Let_def)
qed

lemma win_common_of:
  assumes "win_rx_ok R" and "drive_letter d" and "portable_path p" and "portable_path q"
  shows "win_common R (win_of d p) (win_of d q) = win_of d (common p q)"
proof -
  obtain a es where p: "good a es" "p = path_of a es" "\<forall>e \<in> set es. portable e" by (rule portable_pathE [OF assms(3)])
  obtain b fs where q: "good b fs" "q = path_of b fs" "\<forall>e \<in> set fs. portable e" by (rule portable_pathE [OF assms(4)])
  let ?l = "name_of a es" and ?r = "name_of b fs" and ?u = "drive_front d a"
  have po: "portable ?l" "portable ?r" using p(3) q(3) by (simp_all add: portable_name_of)
  have root: "win_get_root R True (widen (with_drive d ?l)) = widen (with_drive d (root_of a))"
    "win_get_root R True (widen (with_drive d ?r)) = widen (with_drive d (root_of b))"
    using win_root_of(1) [OF assms(1,2) p(1)] win_root_of(1) [OF assms(1,2) q(1)] assms(3,4) p(2) q(2) by simp_all
  have roots: "get_root ?l = root_of a" "get_root ?r = root_of b" using get_root_name_of p(1) q(1) by auto
  show ?thesis
  proof (cases "a = b")
    case False
    have ne: "root_of a \<noteq> root_of b" "widen (with_drive d (root_of a)) \<noteq> widen (with_drive d (root_of b))"
      using False by (cases a; cases b; simp add: root_of_def with_drive_def)+
    have "common p q = path_empty" unfolding common_def p(2) q(2) filename_path_of Let_def roots if_P [OF ne(1)] ..
    moreover have "win_common R (win_of d p) (win_of d q) = wempty"
      unfolding win_common_def p(2) q(2) filename_path_of wname_win_of Let_def root if_P [OF ne(2)] ..
    ultimately show ?thesis by (simp add: win_of_empty)
  next
    case True
    have w: "with_drive d ?l = ?u @ ?l" "with_drive d ?r = ?u @ ?r"
      using with_drive_name_of [OF p(1)] with_drive_name_of [OF q(1)] True by simp_all
    have len: "length (widen (with_drive d (root_of a))) = length ?u + length (root_of a)" by (simp add: with_drive_def root_of_def)
    have low: "length (root_of a) \<le> mismatch ?l ?r" using True by (simp add: name_of_def root_of_def)
    have front: "win_path R (substr (widen (?u @ ?l)) 0 (length ?u + k)) = win_of d (mk_path (substr ?l 0 k))" if "length (root_of a) \<le> k" for k
    proof -
      have "a \<longrightarrow> 0 < k" using that by (auto simp: root_of_def)
      from win_path_front [OF assms(1,2) p(1) po(1) this] show ?thesis by (simp add: substr_def take_map)
    qed
    have "plain ?u" using drive_letter_simps(4) [OF assms(2)] by (simp add: drive_front_def)
    moreover have rb: "root_of b = root_of a" by (simp only: True)
    ultimately have "plain ?u" by blast
    from common_front [OF root(1) [unfolded w(1)] root(2) [unfolded w(2) rb] len roots(1) roots(2) [unfolded rb] refl low this
        portable_plain [OF po(1)] portable_plain [OF po(2)] front]
    show ?thesis using w by (simp add: p(2) q(2) win_of_def path_of_def)
  qed
qed

section \<open>Changing the extension\<close>

lemma win_change_ext_of:
  assumes "win_rx_ok R" and "drive_letter d" and "ascii_text W" and "portable_path p" and "nosl x" and "x \<noteq> []" and "portable x"
    and "\<forall>c \<in> set x. of_char c < (128 :: nat)"
  shows "win_change_ext R W x (win_of d p) = map_sum id (win_of d) (change_ext x p)"
proof -
  obtain a es where p: "good a es" "p = path_of a es" "\<forall>e \<in> set es. portable e" by (rule portable_pathE [OF assms(4)])
  let ?s = "name_of a es" and ?u = "drive_front d a"
  have w: "with_drive d ?s = ?u @ ?s" by (rule with_drive_name_of [OF p(1)])
  have root: "win_get_root R True (widen (with_drive d ?s)) = widen (with_drive d (root_of a))"
    using win_root_of(1) [OF assms(1,2) p(1)] assms(4) p(2) by simp
  have len: "length (with_drive d (root_of a)) = length ?u + length (root_of a)" by (simp add: with_drive_def root_of_def)
  have no: "win_empty (win_of d p) \<or> length (win_get_root R True (wname (win_of d p))) = length (wname (win_of d p))
      \<longleftrightarrow> p_empty p \<or> length (get_root (filename p)) = length (filename p)"
    unfolding win_empty_of p(2) wname_win_of filename_path_of root get_root_name_of [OF p(1)] length_map len unfolding w by simp
  have bad: "p_empty p \<or> length (get_root (filename p)) = length (filename p) \<longleftrightarrow> es = []"
    unfolding p(2) filename_path_of get_root_name_of [OF p(1)] p_empty_path_of [OF p(1)]
    using good_elems [OF p(1)] by (cases es) (auto simp: root_of_def name_of_def)
  show ?thesis
  proof (cases "es = []")
    case True
    let ?t = "if a then [d, CHR '':'', CHR 0x5C] else []"
    have "d \<in> set ''ABCDEFGHIJKLMNOPQRSTUVWXYZ''" using assms(2) by (simp add: drive_letter_def)
    then have "of_char d < (128 :: nat)" by auto
    then have "\<forall>c \<in> set ?t. of_char c < (128 :: nat)" by auto
    then have "utf8_of W (map of_char ?t) = Inr ?t" using assms(3) unfolding ascii_text_def by blast
    moreover have "wname (win_of d p) = map of_char ?t"
      using True p(2) drive_letter_simps(3) [OF assms(2)] by (cases a) (simp_all add: name_of_def with_drive_def to_wide_def)
    ultimately have "w_utf8_name W (win_of d p) = Inr ?t" by (simp only: w_utf8_name_def)
    then show ?thesis unfolding win_change_ext_def no change_ext_def unfolding bad using True by simp
  next
    case False
    let ?b = "fst (elem_ext (last es))" and ?e = "snd (elem_ext (last es))"
    define v where "v = take (leaf_start ?s) ?s"
    define y where "y = v @ ?b @ dotted x"
    have s: "?s = v @ ?b @ ?e"
      using leaf_start_name_of(1) [OF p(1)] False elem_ext_append [of "last es"] by (metis append_take_drop_id v_def)
    have ext: "get_base_ext p = (?b, ?e)" using split_leaf_path_of [OF p(1)] False p(2) by (simp add: split_leaf_def)
    have y: "y = name_of a (butlast es @ [?b @ dotted x])"
      unfolding y_def v_def leaf_start_name_of(2) [OF p(1)]
      using False by (cases "butlast es") (simp_all add: name_of_def root_of_def)
    have gy: "good a (butlast es @ [?b @ dotted x])" by (rule change_ext_good [OF p(1) False assms(5,6)])
    have "portable (last es)" using p(3) False by simp
    then have "portable ?b" using elem_ext_append [of "last es"] by (metis portable_simps(3))
    moreover have "portable (dotted x)" using assms(7) by (simp add: dotted_def)
    ultimately have py: "portable y" unfolding y using p(3) by (auto simp: portable_name_of dest: in_set_butlastD)
    have "map of_char x = widen x" using assms(5) by (auto simp: to_wide_def)
    then have suffix: "utf16_of W x = Inr (widen x)" using assms(3,8) by (simp add: ascii_text_def)
    have pre: "take (length (wname (win_of d p)) - length (snd (win_get_base_ext (win_of d p)))) (wname (win_of d p)) = widen (?u @ v @ ?b)"
      unfolding p(2) wname_win_of filename_path_of w using win_get_ext_of [OF assms(2,4)] ext s p(2) by simp
    have dot: "widen x \<noteq> [] \<and> widen x ! 0 \<noteq> wdot \<longleftrightarrow> x \<noteq> [] \<and> x ! 0 \<noteq> CHR ''.''" "to_wide CHR ''.'' = wdot" by (cases x) simp_all
    have "win_change_ext R W x (win_of d p) = Inr (win_path R (widen (?u @ y)))"
      unfolding win_change_ext_def no unfolding bad if_not_P [OF False] pre suffix res_bind_simps Let_def dot
      by (simp add: y_def dotted_def dot(2))
    also have "?u @ y = with_drive d y" unfolding y by (rule with_drive_name_of [OF gy, symmetric])
    also have "win_path R (widen (with_drive d y)) = win_of d (mk_path y)"
      using win_path_agree [OF assms(1,2) py] bad_root_name_of [OF gy] y by simp
    also have "mk_path y = path_of a (butlast es @ [?b @ dotted x])" unfolding y by (rule mk_path_name_of [OF gy])
    finally show ?thesis using change_ext_path_of [OF p(1) False assms(5,6)] p(2) by simp
  qed
qed

section \<open>Relative names\<close>

lemma win_dots_of: "win_dots n = widen (dots n)"
  by (simp add: win_dots_def dots_def Let_def to_wide_def)

lemma dots_portable: "portable (dots n)"
  by (auto simp: portable_def plain_def dots_def Let_def)

lemma foldl_win_join:
  assumes "win_rx_ok R" and "drive_letter d"
  shows "portable_path p \<Longrightarrow> \<forall>q \<in> set qs. portable_path q \<Longrightarrow>
    foldl (win_join R) (win_of d p) (map (win_of d) qs) = win_of d (foldl join p qs)"
proof (induction qs arbitrary: p)
  case (Cons q qs)
  then show ?case using win_join_of [OF assms, of p q] join_portable [of p q] by simp
qed simp

lemma win_join_all_of:
  assumes "win_rx_ok R" and "drive_letter d" and "\<forall>q \<in> set qs. portable_path q"
  shows "win_combine (map (win_of d) qs) (win_join R) = win_of d (join_all qs)"
  using foldl_win_join [OF assms(1,2), of "hd qs" "tl qs"] assms(3)
  by (cases qs) (simp_all add: win_combine_def join_all_def do_combine_def win_of_empty [symmetric])

lemma foldl_portable: "portable_path p \<Longrightarrow> \<forall>q \<in> set qs. portable_path q \<Longrightarrow> portable_path (foldl join p qs)"
  by (induction qs arbitrary: p) (simp_all add: join_portable)

lemma join_all_portable: "\<forall>q \<in> set qs. portable_path q \<Longrightarrow> portable_path (join_all qs)"
  using foldl_portable [of "hd qs" "tl qs"] portable_path_of [of False "[]"] path_empty_path_of
  by (cases qs) (simp_all add: join_all_def do_combine_def)

text \<open>The names of the elements, each read on its own.\<close>

lemma os_breakdown_portable:
  assumes "portable_path p" and "e \<in> set (os_breakdown p)"
  shows "portable e" and "e = ''/'' \<or> hd e \<noteq> CHR ''/''" and "e \<noteq> []"
proof -
  obtain a es where p: "good a es" "p = path_of a es" "\<forall>e \<in> set es. portable e" by (rule portable_pathE [OF assms(1)])
  have e: "e \<in> set ((if a then [''/''] else []) @ es)" using assms(2) os_breakdown_path_of [OF p(1)] p(2) by simp
  have el: "x \<noteq> [] \<and> nosl x" if "x \<in> set es" for x using good_elems [OF p(1)] that by blast
  show "portable e" using e p(3) by (auto split: if_splits)
  show "e \<noteq> []" using e el by (auto split: if_splits)
  show "e = ''/'' \<or> hd e \<noteq> CHR ''/''" using e el by (auto split: if_splits) (metis hd_in_set)
qed

lemma with_drive_inj:
  assumes "drive_letter d" and "portable e" and "portable f" and "widen (with_drive d e) = widen (with_drive d f)"
  shows "e = f"
proof -
  have "plain (with_drive d x)" if "portable x" for x
    using portable_plain [OF that] drive_letter_simps(4) [OF assms(1)] by (simp add: with_drive_def)
  then have eq: "with_drive d e = with_drive d f" using widen_eq assms(2-4) by blast
  have no: "x \<noteq> d # CHR '':'' # s" if "portable x" for x s
    using that by auto
  show ?thesis
    using eq no [OF assms(2)] no [OF assms(3)] by (auto simp: with_drive_def split: if_splits)
qed

lemma win_relative_to_of:
  assumes "win_rx_ok R" and "drive_letter d" and "ascii_text W" and "portable_path p" and "portable_path q"
  shows "win_relative_to R W (win_of d p) (win_of d q) = map_sum id (win_of d) (relative_to p q)"
proof -
  let ?f = "\<lambda>e. widen (with_drive d e)"
  let ?qs = "os_breakdown q" and ?ps = "os_breakdown p"
  have forms: "win_path_form R (win_of d p) = path_form p" "win_path_form R (win_of d q) = path_form q"
    using win_path_form_of [OF assms(1,2)] assms(4,5) by blast+
  have brk: "win_os_breakdown R (win_of d p) = map ?f ?ps" "win_os_breakdown R (win_of d q) = map ?f ?qs"
    using win_os_breakdown_of [OF assms(1,2)] assms(4,5) by blast+
  have inj: "inj_on ?f (set ?qs \<union> set ?ps)"
    using with_drive_inj [OF assms(2)] os_breakdown_portable(1) assms(4,5) by (intro inj_onI) blast
  show ?thesis
  proof (cases "\<not> (path_form q = Form_absolute \<and> path_form p = Form_absolute)
        \<and> \<not> (path_form q = Form_relative \<and> path_form p = Form_relative)")
    case True
    show ?thesis unfolding win_relative_to_def relative_to_def Let_def forms if_P [OF True] by simp
  next
    case False
    obtain a es where p: "good a es" "p = path_of a es" "\<forall>e \<in> set es. portable e" by (rule portable_pathE [OF assms(4)])
    obtain b fs where q: "good b fs" "q = path_of b fs" "\<forall>e \<in> set fs. portable e" by (rule portable_pathE [OF assms(5)])
    have ab: "a = b" "a \<or> es \<noteq> [] \<and> fs \<noteq> []"
      using False path_form_path_of [OF p(1)] path_form_path_of [OF q(1)] p(2) q(2) by (auto split: if_splits)
    have bs: "?ps = (if a then [''/''] else []) @ es" "?qs = (if a then [''/''] else []) @ fs"
      using os_breakdown_path_of [OF p(1)] os_breakdown_path_of [OF q(1)] p(2) q(2) ab(1) by simp_all
    have heads: "\<not> (path_form p = Form_absolute \<and> map ?f ?qs ! 0 \<noteq> map ?f ?ps ! 0)"
      "\<not> (path_form p = Form_absolute \<and> ?qs ! 0 \<noteq> ?ps ! 0)"
      using path_form_path_of [OF p(1)] p(2) bs by auto
    let ?n = "mismatch ?qs ?ps"
    have cut: "mismatch (map ?f ?qs) (map ?f ?ps) = ?n" by (rule mismatch_map [OF inj])
    have down: "\<forall>e \<in> set (drop ?n ?ps). portable e \<and> (e = [] \<or> hd e \<noteq> CHR ''/'')"
    proof -
      have "set (drop ?n ?ps) \<subseteq> set es" unfolding bs by (cases a) (auto dest: in_set_dropD)
      moreover have "\<forall>e \<in> set es. hd e \<noteq> CHR ''/''" using good_elems [OF p(1)] by (metis hd_in_set)
      ultimately show ?thesis using p(3) by blast
    qed
    have each: "win_path R (?f e) = win_of d (mk_path e)" "portable_path (mk_path e)" if "e \<in> set (drop ?n ?ps)" for e
    proof -
      have e: "portable e" "e = [] \<or> hd e \<noteq> CHR ''/''" using down that by blast+
      show "win_path R (?f e) = win_of d (mk_path e)"
        using win_path_agree [OF assms(1,2) e(1) bad_root_rel [OF e(2)]] .
      have "e \<in> set es" using that unfolding bs by (cases a) (auto dest: in_set_dropD)
      then have "nosl e" "e \<noteq> []" using good_elems [OF p(1)] by auto
      then show "portable_path (mk_path e)" using mk_path_elem [of e] portable_path_of [OF good_single, of e] e(1) by simp
    qed
    have "map (win_path R) (drop ?n (map ?f ?ps)) = map (win_of d) (map mk_path (drop ?n ?ps))"
      using each(1) by (simp add: drop_map)
    moreover have "\<forall>x \<in> set (map mk_path (drop ?n ?ps)). portable_path x" using each(2) by simp
    ultimately have suffix: "win_combine (map (win_path R) (drop ?n (map ?f ?ps))) (win_join R) = win_of d (join_all (map mk_path (drop ?n ?ps)))"
      "portable_path (join_all (map mk_path (drop ?n ?ps)))"
      using win_join_all_of [OF assms(1,2)] join_all_portable by metis+
    let ?up = "if ?n < length ?qs then \<lparr>filename = dots (length ?qs - ?n)\<rparr> else path_empty"
    have up: "(if ?n < length (map ?f ?qs) then \<lparr>wname = win_dots (length (map ?f ?qs) - ?n)\<rparr> else wempty) = win_of d ?up" "portable_path ?up"
    proof -
      have hd: "dots k = [] \<or> hd (dots k) \<noteq> CHR ''/''" for k by (cases "3 * k - 1") (auto simp: dots_def Let_def upt_rec)
      show "(if ?n < length (map ?f ?qs) then \<lparr>wname = win_dots (length (map ?f ?qs) - ?n)\<rparr> else wempty) = win_of d ?up"
        using win_dots_of with_drive_rel [OF hd] with_drive_rel [of "[]" d] by (simp add: wempty_def win_of_def path_empty_def)
      show "portable_path ?up"
        using mk_dots portable_path_of [OF good_dots] portable_path_of [OF good_False_Nil] path_empty_path_of by simp
    qed
    let ?rel = "join ?up (join_all (map mk_path (drop ?n ?ps)))"
    have rel: "win_join R (win_of d ?up) (win_of d (join_all (map mk_path (drop ?n ?ps)))) = win_of d ?rel"
      by (rule win_join_of [OF assms(1,2) up(2) suffix(2)])
    have "utf16_of W ''.'' = Inr [wdot]" using assms(3) by (simp add: ascii_text_def)
    moreover have "win_path R [wdot] = win_of d (mk_path ''.'')"
      using win_path_plain [OF assms(1,2), of "''.''"] by (simp add: to_wide_def)
    ultimately have dot: "win_path_utf8 R W False ''.'' = Inr (win_of d (mk_path ''.''))"
      by (simp add: win_path_utf8_def win_make_canonical_def Let_def)
    have "win_relative_to R W (win_of d p) (win_of d q) = (if p_empty ?rel then Inr (win_of d (mk_path ''.'')) else Inr (win_of d ?rel))"
      unfolding win_relative_to_def Let_def forms brk if_not_P [OF False] if_not_P [OF heads(1)] cut suffix(1) up(1) rel win_empty_of dot ..
    moreover have "relative_to p q = Inr (if p_empty ?rel then mk_path ''.'' else ?rel)"
      unfolding relative_to_def Let_def if_not_P [OF False] if_not_P [OF heads(2)] ..
    ultimately show ?thesis by simp
  qed
qed

section \<open>Both builds agree\<close>

text \<open>
  The reading keeps portable names apart, so the theorem below determines the results of the Windows build.
\<close>

lemma win_of_inj: "drive_letter d \<Longrightarrow> portable_path p \<Longrightarrow> portable_path q \<Longrightarrow> win_of d p = win_of d q \<longleftrightarrow> p = q"
  using with_drive_inj [of d "filename p" "filename q"] by (auto simp: win_of_def portable_path_def)

text \<open>A build with the patterns of the source and conversions that keep ASCII characters.\<close>

definition plain_rx :: win_rx where
  "plain_rx = \<lparr>rx_abs = match_count g_absolute, rx_root = match_count g_root, rx_any_root = match_count g_any_root\<rparr>"

definition latin_text :: wide_text where
  "latin_text = \<lparr>utf8_of = \<lambda>w. Inr (map (\<lambda>c. char_of (unat c)) w), utf16_of = \<lambda>s. Inr (map of_char s)\<rparr>"

lemma plain_rx_ok: "win_rx_ok plain_rx"
  by (simp add: win_rx_ok_def plain_rx_def)

lemma latin_text_ascii: "ascii_text latin_text"
  by (simp add: ascii_text_def latin_text_def of_char_wide comp_def)

lemma portable_samples:
  "portable_path (path_of True [''usr'', ''a.b''])" "portable_path (path_of False [''x'', ''..''])"
  by (simp_all add: portable_path_of good_def)

text \<open>
  C15. On portable names, with a drive letter before the absolute ones, the Windows build of class \<open>Path\<close> gives the results
  and the errors of the Unix build with backslashes for slashes: the constructor, the queries \<open>path_form\<close>, \<open>is_absolute\<close>,
  \<open>is_root\<close> and \<open>is_leaf\<close>, the functions \<open>breakdown\<close>, \<open>split_path\<close>, \<open>split_root\<close> and \<open>split_leaf\<close>, which take a name apart, and
  \<open>join\<close>, \<open>common\<close>, \<open>relative_to\<close> and \<open>change_ext\<close>, for conversions that keep ASCII characters.
\<close>

theorem win_paths_agree:
  assumes "win_rx_ok R" and "drive_letter d" and "ascii_text W" and "portable_path p" and "portable_path q"
    and "portable s" and "\<not> bad_root s"
    and "nosl x" and "x \<noteq> []" and "portable x" and "\<forall>c \<in> set x. of_char c < (128 :: nat)"
  shows "win_path R (widen (with_drive d s)) = win_of d (mk_path s)
    \<and> win_path_form R (win_of d p) = path_form p
    \<and> (win_is_absolute R (win_of d p) \<longleftrightarrow> is_absolute p)
    \<and> (win_is_root R (win_of d p) \<longleftrightarrow> is_root p)
    \<and> (win_is_leaf (win_of d p) \<longleftrightarrow> is_leaf p)
    \<and> win_os_breakdown R (win_of d p) = map (\<lambda>e. widen (with_drive d e)) (os_breakdown p)
    \<and> win_split_path R (win_of d p) = map_prod (win_of d) (win_of d) (split_path p)
    \<and> win_split_root R (win_of d p) = map_prod (win_of d) (win_of d) (split_root p)
    \<and> win_get_base_ext (win_of d p) = map_prod widen widen (split_leaf p)
    \<and> win_join R (win_of d p) (win_of d q) = win_of d (join p q)
    \<and> win_common R (win_of d p) (win_of d q) = win_of d (common p q)
    \<and> win_relative_to R W (win_of d p) (win_of d q) = map_sum id (win_of d) (relative_to p q)
    \<and> win_change_ext R W x (win_of d p) = map_sum id (win_of d) (change_ext x p)"
proof -
  obtain a es where p: "good a es" "p = path_of a es" by (rule portable_pathE [OF assms(4)])
  then have "win_is_absolute R (win_of d p) \<longleftrightarrow> is_absolute p" using win_root_of(2) [OF assms(1,2) p(1)] assms(4) by simp
  moreover have "win_get_base_ext (win_of d p) = map_prod widen widen (split_leaf p)"
    using win_get_ext_of [OF assms(2,4)] by (simp add: split_leaf_def)
  ultimately show ?thesis
    using win_path_agree [OF assms(1,2,6,7)] win_path_form_of [OF assms(1,2,4)] win_is_root_of [OF assms(1,2,4)]
      win_is_leaf_of [OF assms(2,4)] win_os_breakdown_of [OF assms(1,2,4)] win_split_path_of [OF assms(1,2,4)]
      win_split_root_of [OF assms(1,2,4)] win_join_of [OF assms(1,2,4,5)] win_common_of [OF assms(1,2,4,5)]
      win_relative_to_of [OF assms(1-5)] win_change_ext_of [OF assms(1-4) assms(8-11)] by blast
qed

theorem win_paths_agree_witness:
  "win_path plain_rx (widen ''C:/usr//./a.b/'') = win_of CHR ''C'' (mk_path ''/usr//./a.b/'')
    \<and> win_split_path plain_rx (win_of CHR ''C'' (path_of True [''usr'', ''a.b'']))
      = map_prod (win_of CHR ''C'') (win_of CHR ''C'') (split_path (path_of True [''usr'', ''a.b'']))
    \<and> win_join plain_rx (win_of CHR ''C'' (path_of True [''usr'', ''a.b''])) (win_of CHR ''C'' (path_of False [''x'', ''..'']))
      = win_of CHR ''C'' (join (path_of True [''usr'', ''a.b'']) (path_of False [''x'', ''..'']))
    \<and> win_change_ext plain_rx latin_text ''txt'' (win_of CHR ''C'' (path_of True [''usr'', ''a.b'']))
      = map_sum id (win_of CHR ''C'') (change_ext ''txt'' (path_of True [''usr'', ''a.b'']))"
  using win_paths_agree [OF plain_rx_ok _ latin_text_ascii portable_samples, of "CHR ''C''" "''/usr//./a.b/''" "''txt''"]
  by (simp add: drive_letter_def bad_root_def with_drive_def)

text \<open>
  Outside portable names the builds differ from what their comments say: a name that starts with a dot element after a
  backslash becomes a network path, and a name absolute on its drive is joined like a relative one.
\<close>

lemma win_dot_network: "wname (win_path plain_rx (widen ''/.//a'')) = widen ''//a/''"
  unfolding plain_rx_def by code_simp

lemma win_join_drive_absolute:
  "wname (win_join plain_rx (win_path plain_rx (widen ''/'')) (win_path plain_rx (widen ''/a''))) = widen ''//a/''"
  "wname (win_join plain_rx (win_path plain_rx (widen ''C:/x'')) (win_path plain_rx (widen ''D:a''))) = widen ''C:/x/D:a''"
  unfolding plain_rx_def by code_simp+

end
