(* ===== verification/Win_Tree.thy ===== *)
theory Win_Tree
  imports Win_Files Win_Relation
begin

text \<open>
  What the Windows functions do on directory trees: the entries a directory gives, the recursive size, directories the system
  does not list, and the loops of \<open>resolve\<close>.
\<close>

section \<open>Listings\<close>

lemma win_dir_paths_advance:
  "win_dir_paths R os valid_utf w (win_dir_advance R os valid_utf p flags w names) =
     filter (\<lambda>q. F_no_hidden \<notin> flags \<or> \<not> win_is_hidden R os q w)
       (map (\<lambda>leaf. win_join R p (win_path R leaf))
         (filter (\<lambda>leaf. leaf \<noteq> [wdot] \<and> leaf \<noteq> [wdot, wdot] \<and> (F_unicode \<notin> flags \<or> valid_utf leaf)) names))"
  by (induction names) (simp_all add: Let_def win_dir_incr_def)

abbreviation win_children :: "win_rx \<Rightarrow> 'w windows \<Rightarrow> (wstring \<Rightarrow> bool) \<Rightarrow> 'w \<Rightarrow> wpath \<Rightarrow> wpath list" where
  "win_children R os valid_utf w p \<equiv> win_dir_paths R os valid_utf w (win_directory R os valid_utf p {} w)"

definition win_glob :: "win_rx \<Rightarrow> wpath \<Rightarrow> wstring" where
  "win_glob R p = wname (win_join R p (win_path R [0x2A]))"

lemma win_children_listed:
  assumes "win_is_directory os p w" and "wa_find os (win_glob R p) w = Find_first x xs"
  shows "win_children R os valid_utf w p =
    map (\<lambda>leaf. win_join R p (win_path R leaf)) (filter (\<lambda>leaf. leaf \<noteq> [wdot] \<and> leaf \<noteq> [wdot, wdot]) (x # xs))"
  using assms win_dir_paths_advance [of R os valid_utf w p "{}" "x # xs"]
  by (simp add: win_directory_def win_dir_begin_def win_glob_def Let_def del: win_dir_advance.simps)

section \<open>The size of a tree\<close>






section \<open>Directories that are not listed\<close>




section \<open>The loops of \<open>resolve\<close>\<close>

text \<open>What the documentation says of \<open>GetLongPathNameW\<close> and \<open>GetFullPathNameW\<close>, for a result \<open>t\<close>.\<close>

definition fills_buffer :: "(nat \<Rightarrow> nat \<times> wstring) \<Rightarrow> wstring \<Rightarrow> bool" where
  "fills_buffer call t \<longleftrightarrow> t \<noteq> [] \<and> (\<forall>n. call n = (if length t < n then (length t, t) else (length t + 1, [])))"

lemma path_name_loop_ends:
  assumes "fills_buffer call t" and "length t < 2 ^ 31" and "0 < n" and "n < 2 ^ 32"
  shows "\<exists>m. path_name_loop call s n = Some (t, m) \<and> n \<le> m \<and> m < 2 ^ 32"
  using assms(3,4)
proof (induction "Suc (length t) - n" arbitrary: n rule: less_induct)
  case less
  have call: "call (n mod 2 ^ 32) = (if length t < n then (length t, t) else (length t + 1, []))"
    using assms(1) less.prems by (simp add: fills_buffer_def)
  show ?case
  proof (cases "length t < n")
    case True
    then show ?thesis using assms(1) less.prems call
      by (subst path_name_loop.simps) (simp add: fills_buffer_def)
  next
    case False
    have "\<exists>m. path_name_loop call s (2 * n) = Some (t, m) \<and> 2 * n \<le> m \<and> m < 2 ^ 32"
      by (rule less.hyps) (use False assms(2) less.prems in auto)
    then obtain m where m: "path_name_loop call s (2 * n) = Some (t, m)" "2 * n \<le> m" "m < 2 ^ 32" by blast
    then have "path_name_loop call s n = Some (t, m)" using False call by (subst path_name_loop.simps) simp
    then show ?thesis using m by auto
  qed
qed

lemma win_resolve_full:
  assumes "\<not> win_empty p" and "fills_buffer (\<lambda>n. wa_long_path os (wname p) n w) long" and "length long < 2 ^ 31"
    and "fills_buffer (\<lambda>n. wa_full_path os long n w) full" and "length full < 2 ^ 31" and "win_is_absolute R (win_path R full)"
    and "\<not> win_empty (win_path R full)"
  shows "win_resolve R W os p w = Some (Inr (win_path R full))"
proof -
  obtain m where m: "path_name_loop (\<lambda>n. wa_long_path os (wname p) n w) (wname p) 1024 = Some (long, m)" "1024 \<le> m" "m < 2 ^ 32"
    using path_name_loop_ends [OF assms(2,3), of 1024] by auto
  obtain k where k: "path_name_loop (\<lambda>n. wa_full_path os long n w) long m = Some (full, k)"
    using path_name_loop_ends [OF assms(4,5), of m] m by auto
  show ?thesis using assms(1,6,7) m(1) k by (simp add: win_resolve_def opt_bind_def)
qed

section \<open>Copies\<close>

text \<open>
  A file that cannot be opened has the identity (0, 0), and so has a name without a file: the copy is refused because the
  destination is said to exist.
\<close>

lemma win_copy_unreadable:
  assumes "win_exists os p w" and "wa_file_index os (wname p) w = None" and "wa_file_index os (wname dst) w = None"
    and "w_utf8_name W dst = Inr name"
  shows "win_copy_to (Suc n) R W os valid_utf flags p dst w = Some (Inl (System_error EEXIST), w)"
  using assms by (simp add: win_id_def win_throw_def)

text \<open>Removing a file in a directory that does not exist throws on Windows, whose error is then \<open>ERROR_PATH_NOT_FOUND\<close>.\<close>

lemma win_remove_no_directory:
  assumes "\<not> win_is_directory os p w" and "wa_delete os (wname p) w = ((False, 3), w)" and "w_utf8_name W p = Inr name"
  shows "win_remove (Suc n) R W os valid_utf flags p w = Some (Inl (System_error 3), w)"
  using assms by (simp add: then_do_def win_throw_def FILE_NOT_FOUND_def)

section \<open>Making directories\<close>

text \<open>One call for each element of the name is enough; every other call returns.\<close>

lemma win_remove_returns: "F_recurse \<notin> flags \<Longrightarrow> win_remove (Suc n) R W os valid_utf flags p w \<noteq> None"
  by (simp add: then_do_def split: prod.splits)

lemma win_make_directory_returns:
  assumes "win_rx_ok R" and "drive_letter d" and "good a es" and "\<forall>e \<in> set es. portable e" and "length es < depth"
  shows "win_make_directory depth R W os valid_utf flags (win_of d (path_of a es)) w \<noteq> None"
  using assms(3-5)
proof (induction depth arbitrary: es w)
  case (Suc depth)
  let ?p = "win_of d (path_of a es)"
  have "portable_path (path_of a es)" using Suc.prems by (simp add: portable_path_of)
  from win_split_path_of [OF assms(1,2) this] split_path_path_of [OF Suc.prems(1)]
  have parent: "fst (win_split_path R ?p) = win_of d (path_of a (butlast es))" by (cases "es = []") simp_all
  have rec: "win_make_directory depth R W os valid_utf flags (win_of d (path_of a (butlast es))) w' \<noteq> None"
    if "win_of d (path_of a (butlast es)) \<noteq> ?p" for w'
  proof (rule Suc.IH)
    have ne: "es \<noteq> []" using that by auto
    show "good a (butlast es)" using Suc.prems(1) good_take [of a "butlast es" "[last es]"] ne by simp
    show "\<forall>e \<in> set (butlast es). portable e" using Suc.prems(2) by (auto dest: in_set_butlastD)
    show "length (butlast es) < depth" using Suc.prems(3) ne by (cases es) simp_all
  qed
  obtain err w1 where mk: "wa_mkdir os (wname ?p) w = (err, w1)" by (cases "wa_mkdir os (wname ?p) w")
  have "(if err = EEXIST
         then (if F_overwrite \<notin> flags then Some (win_throw W ?p (System_error err), w1) else win_remove 1 R W os valid_utf {} ?p w1)
         else if err = ENOENT \<and> F_recurse \<in> flags \<and> \<not> win_empty ?p
         then (if win_of d (path_of a (butlast es)) = ?p then Some (win_throw W ?p (System_error err), w1)
               else win_make_directory depth R W os valid_utf flags (win_of d (path_of a (butlast es))) w1)
         else Some (Inr (), w1)) \<noteq> None" (is "?first \<noteq> None")
    using rec [of w1] win_remove_returns [of "{}" 0 R W os valid_utf ?p w1] by (simp del: not_None_eq win_remove.simps)
  then obtain r w2 where first: "?first = Some (r, w2)" by (cases ?first) auto
  show ?case
    unfolding win_make_directory.simps Let_def parent mk prod.case first
    by (cases r) (simp_all add: then_do_def split: prod.split)
qed simp

section \<open>Recursive sizes and removals\<close>






end
