(* ===== verification/Net_System.thy ===== *)
theory Net_System
  imports Prelude
begin

text \<open>
  The start-up and the error texts of the network code (\<open>net.cpp\<close>): \<open>net_init\<close>, \<open>system_string_to_utf8\<close> and the category of
  the errors of the resolver.
\<close>

section \<open>Error texts\<close>

definition system_string_to_utf8 :: "string \<Rightarrow> string" where
  "system_string_to_utf8 str = str"

text \<open>
  On Windows \<open>to_utf8\<close> is the call of \<open>WideCharToMultiByte\<close>, which is given the number of characters and so adds no null
  character. \<^const>\<open>None\<close> is \<open>pop_back\<close> on an empty string, which is undefined.
\<close>

definition win_system_string_to_utf8 :: "(16 word list \<Rightarrow> string) \<Rightarrow> 16 word list \<Rightarrow> string option" where
  "win_system_string_to_utf8 to_utf8 str = (let utf8 = to_utf8 str in if utf8 = [] then None else Some (butlast utf8))"

definition addrinfo_message :: "(int \<Rightarrow> string) \<Rightarrow> int \<Rightarrow> string" where
  "addrinfo_message gai_strerror ev = system_string_to_utf8 (gai_strerror ev)"

definition win_addrinfo_message :: "(16 word list \<Rightarrow> string) \<Rightarrow> (int \<Rightarrow> 16 word list) \<Rightarrow> int \<Rightarrow> string option" where
  "win_addrinfo_message to_utf8 gai_strerror ev = win_system_string_to_utf8 to_utf8 (gai_strerror ev)"

definition addrinfo_name :: string where
  "addrinfo_name = ''Addrinfo''"

text \<open>The last character of every message is lost on Windows.\<close>

lemma win_addrinfo_message_cut:
  "to_utf8 (gai_strerror ev) = t @ [c] \<Longrightarrow> win_addrinfo_message to_utf8 gai_strerror ev = Some t"
  by (simp add: win_addrinfo_message_def win_system_string_to_utf8_def)

section \<open>Starting the library\<close>

text \<open>The static variable \<open>init\<close> is set once a call of \<open>WSAStartup\<close> succeeds; until then every call tries again.\<close>

definition win_net_init :: "('w \<Rightarrow> int \<times> 'w) \<Rightarrow> bool \<Rightarrow> 'w \<Rightarrow> unit res \<times> bool \<times> 'w" where
  "win_net_init startup init w =
     (if init then (Inr (), True, w)
      else case startup w of
        (rc, w') \<Rightarrow> if rc \<noteq> 0 then (Inl (System_error rc), False, w') else (Inr (), True, w'))"

lemma win_net_init_once:
  assumes "win_net_init startup init w = (r, init', w')"
  shows "(r = Inr ()) = init'" and "init' \<Longrightarrow> win_net_init startup init' w'' = (Inr (), True, w'')"
  using assms by (auto simp: win_net_init_def split: if_splits prod.splits)

end
