(* ===== verification/Spec2Isabelle.thy ===== *)
theory Spec2Isabelle
  imports Time_Conv Resource Channel Buffer_Channel Timer_Channel Uri_Reparse Path_Properties Path_Search Path_Io Stdio_Handles
    Address_Text Socket_Set Socket_Correct Pool_Correct Dispatch Process_Correct Mutex_Correct Signal_Correct File_Io Path_Copy Path_Times
    Win_Tree Net_System
begin

text \<open>
  Verification of the C++ library rs-io. All source files named here are in \<open>src/source/rs-io\<close>.

  \<^bold>\<open>The program.\<close> The library has a value class for URIs (\<open>uri\<close>), path names with the file system functions on them
  (\<open>path\<close>), file classes over three system interfaces (\<open>stdio\<close>), channels that threads wait on (\<open>channel\<close>) with the
  controller \<open>Dispatch\<close>, sockets (\<open>net\<close>), child processes (\<open>process\<close>) and signals (\<open>signal\<close>), which are channels, named
  mutexes, a thread pool, and time conversions. The parts interact as follows. \<open>Resource\<close> of \<open>utility.hpp\<close> owns the
  handles of the file classes. \<open>IoBase\<close> makes its loops from the virtual \<open>read\<close> and \<open>write\<close> of the file classes. The
  virtual functions of \<open>Channel\<close> are what \<open>StreamChannel\<close>, \<open>Dispatch\<close> and the owners of channels call. \<open>Path\<close> is what the
  constructors of the file classes take; its \<open>load\<close>, \<open>save\<close> and \<open>copy_to\<close> use C streams themselves. \<open>time.hpp\<close> serves
  the timeouts and the file times.

  \<^bold>\<open>Conventions.\<close> A function that may throw has a value of \<open>exn + 'a\<close> (theory \<open>Prelude\<close>). Objects are records that
  operations take and return. A text is a list of characters, \<open>npos\<close> is \<^const>\<open>None\<close> where positions can be missing. Sizes
  and offsets are natural numbers or integers, machine words where the code depends on the width (addresses, ports,
  FILETIME, sizes and inode numbers, the lengths of \<open>Winio\<close>). The operating system is a record of functions on an
  abstract world, one record for each group of calls: \<open>posix\<close>, \<open>c_library\<close>, \<open>fd_system\<close>, \<open>win_files\<close>, \<open>net_system\<close>,
  \<open>process_os\<close>, \<open>sig_system\<close>, \<open>sem_system\<close>, \<open>win_mutex\<close>, \<open>windows\<close>. Operations are defined for every such record; a theorem that
  needs to know what a call does either has that as a named hypothesis or is about a small system that follows the
  documentation of the calls. A loop that need not end is a \<open>partial_function\<close> whose value \<^const>\<open>None\<close> is never to end.

  \<^bold>\<open>Prelude.\<close> \<open>std::string\<close> positions, searches and replacements, truncating division, errors as values; \<open>Numeric_Text\<close>
  has \<open>std::to_string\<close> and the \<open>strto\<close> functions.

  \<^bold>\<open>URIs\<close> (\<open>uri.cpp\<close>, \<open>uri.hpp\<close>). \<open>Uri_Codec\<close>: \<open>encode\<close>, \<open>decode\<close>, \<open>make_query\<close>, \<open>parse_query\<close>. \<open>Uri\<close>: the record of
  the text and its seven offsets, accessors, setters, clears, comparison and hash, as \<open>Uri::set_host\<close> and so on change
  text and offsets in place. \<open>Uri_Parse\<close>: \<open>try_parse\<close> and the constructors from a string. \<open>Uri_Parts\<close> has the abstract
  specification, eight pieces of text, and one lemma for each operation that says what it does to the pieces;
  \<open>Uri_Correct\<close> puts them together into the refinement of the whole class and the laws of getters and setters;
  \<open>Uri_Reparse\<close> shows that the text of a URI made from elements is parsed into the same URI. The functions of
  rs-format are the record \<open>fmt\<close> with the hypothesis \<open>fmt_ok\<close>; the matches of rs-regex are parameters with the hypotheses
  \<open>rx_uri_ok\<close> and \<open>rx_scheme_ok\<close>, which say that they are the best matches of the patterns in the source, written as
  backtracking matchers from the combinators of \<open>Rx_Match\<close>.

  \<^bold>\<open>Channels\<close> (\<open>channel.cpp\<close>, \<open>channel.hpp\<close>). \<open>Channel\<close>: the locales \<open>monitor\<close>, \<open>channel\<close> and \<open>message_channel\<close>, generator,
  queue and value channels. \<open>Buffer_Channel\<close>: \<open>StreamChannel\<close> as the locale \<open>stream_channel\<close> and the buffer channel.
  \<open>Timer_Channel\<close>: the timer channel over a clock. A call of another thread is a call in a list (the schedule); a wait
  takes the calls that come before its timeout. The lemmas give what is delivered for every schedule. \<open>Dispatch\<close>: the
  controller with its set of channels and its queue of faults; the channels are a record of functions, the threads of
  asynchronous channels an environment that acts between the passes of \<open>run\<close>. A deadlock is a wait for ever, not modelled
  below the level of the monitor: lock and unlock are the boundaries of the steps.

  \<^bold>\<open>Handles\<close> (\<open>utility.hpp\<close>). \<open>Resource\<close>: constructors, moves, \<open>reset\<close>, \<open>release\<close> and the destructor over a world of
  live handles, and that under any sequence of them nothing is deleted twice and nothing is lost.

  \<^bold>\<open>Path names\<close> (\<open>path.cpp\<close>, \<open>path.hpp\<close>). \<open>Path_Name\<close>: the canonical form computed in place, splits, joins, \<open>change_ext\<close>,
  \<open>common\<close>, \<open>relative_to\<close>, comparison. The lemmas see a name as the list of its elements: \<open>Path_Canon\<close> for the loops of
  \<open>make_canonical\<close>, \<open>Path_Correct\<close> for names and lists (\<open>name_of\<close>, \<open>good\<close>), \<open>Path_Ops\<close> and \<open>Path_Relation\<close> for the
  operations; \<open>Path_Properties\<close> has the properties and the locale of the functions folded over many names.

  \<^bold>\<open>Path names on Windows\<close> (\<open>path.cpp\<close>). \<open>Win_Path\<close>: the same class in the other branch of the code, on names of wide
  characters with drives and servers; the three root patterns are matchers over \<open>Rx_Match\<close>, the matches themselves and the
  conversions of rs-format parameters (\<open>win_rx_ok\<close>, \<open>ascii_text\<close>). \<open>Win_Agree\<close>, \<open>Win_Ops\<close> and \<open>Win_Relation\<close> show, one
  operation after the other, that the reading \<open>win_of\<close> of a name with a drive and backslashes commutes with the operations of the
  Unix branch, for names without backslash, colon and question mark; lemmas at the end have the names outside, where it goes wrong.

  \<^bold>\<open>The file system\<close> (\<open>path.cpp\<close>). \<open>Path_Files\<close>: queries, standard directories, directory iterators, \<open>size\<close>, \<open>remove\<close>,
  \<open>make_directory\<close>, \<open>load\<close>, \<open>save\<close>, times. \<open>Path_Tree\<close>: \<open>copy_to\<close>, \<open>make_symlink\<close>, \<open>move_to\<close>, deep search. \<open>Path_Search\<close>: a
  deep search visits every name of a finite tree once. \<open>Path_Io\<close>: what \<open>save\<close> writes \<open>load\<close> reads. \<open>Mem_Fs\<close> is a file
  system in memory with the calls of the record \<open>posix\<close> (links are followed at the end of a name only; times, users and
  the working directory do not change), on which \<open>Path_Update\<close> shows what \<open>remove\<close> and \<open>make_directory\<close> do to whole
  trees and \<open>Path_Copy\<close> what \<open>copy_to\<close> does. \<open>Path_Times\<close> shows when the times of files can be set and has the functions
  for file times of macOS and Windows. \<open>Win_Files\<close> has the Windows branch of the queries, the directory iterator, \<open>size\<close>, \<open>remove\<close>,
  \<open>make_directory\<close>, \<open>copy_to\<close>, \<open>make_symlink\<close> and \<open>move_to\<close>; \<open>Win_Tree\<close> shows what a recursive size adds up, that the loops of
  \<open>resolve\<close> and the calls of \<open>make_directory\<close> end, and what becomes of a directory that is not listed. The functions that call themselves on the entries of a directory have a
  first argument \<open>depth\<close>; their value is \<^const>\<open>None\<close> when it runs out. The theorems say how much is enough: more than the
  height of the tree for \<open>remove\<close>, one more for \<open>copy_to\<close>, which makes directories, the number of elements of the name
  for \<open>make_directory\<close>.

  \<^bold>\<open>Files\<close> (\<open>stdio.cpp\<close>, \<open>stdio.hpp\<close>). \<open>Io_Base\<close>: the loops of \<open>IoBase\<close> and \<open>LineIterator\<close> over any \<open>read\<close> and \<open>write\<close>, and
  the locales \<open>reader\<close>, \<open>char_reader\<close>, \<open>line_reader\<close> and \<open>writer\<close> with the lemmas that the loops end and transfer all.
  \<open>Cstdio\<close>: the class over C streams (a record of what is to be read, what was written, and the errors to come);
  \<open>Cstdio_Correct\<close> interprets the locales for it. \<open>Stdio_Handles\<close>: opening and closing of \<open>Cstdio\<close> and \<open>Fdio\<close>, \<open>dup\<close>, \<open>pipe\<close>,
  \<open>TempFile\<close>. \<open>Winio\<close>: the class over Windows handles, with lengths cut to 32 bits. \<open>File_Modes\<close>: a disk with \<open>open\<close>,
  \<open>fopen\<close> and \<open>CreateFileW\<close>, on which the three constructors agree with the documentation of \<open>IoMode\<close> where they do.
  \<open>File_Io\<close> interprets the locales for \<open>Fdio\<close> on that disk.

  \<^bold>\<open>Networking\<close> (\<open>net.cpp\<close>, \<open>net.hpp\<close>). \<open>Net_Address\<close>: \<open>IPv4\<close>, \<open>IPv6\<close> and their orders. \<open>Socket_Address\<close>: \<open>SocketAddress\<close>
  with its bytes, ports, \<open>Dns\<close>. \<open>Address_Text\<close>: printed addresses are read back, with the system functions \<open>inet_ntop\<close>
  and \<open>inet_pton\<close> as parameters that undo each other. \<open>Net_Socket\<close>: the socket classes over the system calls;
  \<open>Socket_Correct\<close>: every outcome of the send loop, and that a descriptor is closed once. \<open>Socket_Set\<close>: the set of
  channels with \<open>select\<close>. \<open>Net_System\<close>: the start-up of Winsock and the texts of resolver errors.

  \<^bold>\<open>Processes, signals, mutexes.\<close> \<open>Process_Io\<close> has \<open>StreamProcess\<close>, \<open>TextProcess\<close> and \<open>shell\<close> (\<open>process.cpp\<close>);
  \<open>Process_Correct\<close> shows that the lines of the output come out. \<open>Posix_Signal\<close> has the POSIX, macOS and Windows versions of
  \<open>PosixSignal\<close> (\<open>signal.cpp\<close>), \<open>Signal_Correct\<close> interprets \<open>message_channel\<close> for them and shows what the Windows version,
  with its table of counters and handlers, delivers. \<open>Named_Mutex\<close> has \<open>NamedMutex\<close> (\<open>named-mutex.cpp\<close>) on POSIX, macOS
  and Windows, \<open>Mutex_Correct\<close> the exclusion between processes, as a step relation on semaphores.

  \<^bold>\<open>Thread pool\<close> (\<open>thread-pool.cpp\<close>, \<open>thread-pool.hpp\<close>). \<open>Thread_Pool\<close>: workers and clients as automata, one step for each
  critical section or atomic access; \<open>Pool_Correct\<close>: the invariant of all interleavings, and that the workers can always
  drain the pool. A job is a value; the random starting queue of a worker is free.

  \<^bold>\<open>Times\<close> (\<open>time.cpp\<close>, \<open>time.hpp\<close>). \<open>Time_Conv\<close>: the conversions between durations, \<open>timespec\<close>, \<open>timeval\<close>, \<open>time_t\<close> and
  FILETIME; a duration is an integer with its tick in nanoseconds.

  \<^bold>\<open>Not modelled.\<close> On Windows names, the functions of \<open>path.cpp\<close> that have one body for both branches
  (\<open>load\<close>, \<open>save\<close>, \<open>create\<close>, \<open>change_directory\<close>, the deep search); the socket calls of Winsock, which
  are the same code of \<open>net.cpp\<close> with other error numbers. The templates \<open>format\<close> and \<open>print\<close> of
  \<open>stdio.hpp\<close>, which hand the text of rs-format to \<open>write\<close>. Unicode tests of rs-format beyond the parameter \<open>valid_utf\<close>,
  \<open>std::hash\<close> and the text output operators, one call each. The memory of C++ objects: moves are modelled where they
  change a handle. Real time inside a system call. \<open>version.hpp\<close>, a constant, and the tests.
\<close>

end
